(* ===== verification/Prelude.thy ===== *)
theory Prelude
  imports Main "HOL-Library.Word" "HOL-Library.List_Lexorder" "HOL-Library.Multiset"
begin

text \<open>
  Shared vocabulary of the development: JavaScript strings and the string and array methods
  the server calls (trim, join, split, slice, padStart, startsWith, includes, sort), decimal
  printing, fallible results, and the generic list lemmas that the component theories use.

  A JavaScript string is a sequence of UTF-16 code units, so \<open>js\<close> is a list of 16-bit words:
  \<open>length\<close> counts what \<^verbatim>\<open>.length\<close> counts, and characters outside ASCII are ordinary units.
  An ASCII literal of the source is written \<open>lit ''...''\<close>; a unit outside ASCII is its code
  (for example the dash U+2014 is the one-element list \<open>[0x2014]\<close>).
\<close>

section \<open>Collections of facts\<close>

named_theorems js_defs \<open>definitions of the JavaScript string and array methods\<close>

section \<open>Strings\<close>

type_synonym jschar = "16 word"

type_synonym js = "jschar list"

definition lit :: "string \<Rightarrow> js" where
  "lit s = map of_char s"

text \<open>
  Two literals are compared as HOL strings; \<open>lit_unfold\<close> turns a literal into its code units
  where a proof needs them.
\<close>

lemma of_char_inj: "(of_char c :: jschar) = of_char d \<longleftrightarrow> c = d"
proof
  assume eq: "(of_char c :: jschar) = of_char d"
  have unat: "unat (of_char e :: jschar) = of_char e" for e
  proof -
    have "(of_char e :: nat) < 256" by (rule nat_of_char_less_256)
    then have "(of_char e :: nat) < 65536" by linarith
    then have "(of_char e :: nat) mod 65536 = of_char e" by (rule mod_less)
    then have "unat (of_nat (of_char e) :: jschar) = of_char e"
      by (simp only: unat_of_nat) simp
    moreover have "(of_nat (of_char e) :: jschar) = of_char e"
      by (cases e) (simp only: of_char_Char horner_sum_simps of_nat_add of_nat_mult of_nat_of_bool
        of_nat_numeral, simp)
    ultimately show ?thesis by simp
  qed
  from eq have "(of_char c :: nat) = of_char d" by (metis unat)
  then show "c = d" by simp
qed simp

lemma lit_unfold:
  "lit [] = []"
  "lit (c # cs) = of_char c # lit cs"
  by (simp_all add: lit_def)

lemma lit_eq_iff [simp]: "lit s = lit t \<longleftrightarrow> s = t"
  unfolding lit_def by (rule inj_map_eq_map) (simp add: inj_def of_char_inj)

lemma lit_Nil_iff [simp]: "lit s = [] \<longleftrightarrow> s = []" "[] = lit s \<longleftrightarrow> s = []"
  by (simp_all add: lit_def)

lemma lit_Nil [simp]: "lit [] = []"
  by (simp add: lit_def)

lemma length_lit [simp]: "length (lit s) = length s"
  by (simp add: lit_def)

text \<open>Line feed, used by the template literals and by \<^verbatim>\<open>join('\\n')\<close>.\<close>

definition nl :: js where
  "nl = [10]"

text \<open>
  \<^verbatim>\<open>String.prototype.trim\<close>: the ECMAScript white space and line terminator code points, all
  of which are single code units.
\<close>

definition js_space :: "jschar \<Rightarrow> bool" where
  "js_space c \<longleftrightarrow>
     c \<in> {9, 10, 11, 12, 13, 32, 0xA0, 0x1680, 0x2028, 0x2029, 0x202F, 0x205F, 0x3000, 0xFEFF}
     \<or> (0x2000 \<le> c \<and> c \<le> 0x200A)"

definition js_trim :: "js \<Rightarrow> js" where
  "js_trim s = rev (dropWhile js_space (rev (dropWhile js_space s)))"

definition js_slice0 :: "nat \<Rightarrow> js \<Rightarrow> js" where
  "js_slice0 n s = take n s"

fun js_join :: "js \<Rightarrow> js list \<Rightarrow> js" where
  "js_join sep [] = []"
| "js_join sep [x] = x"
| "js_join sep (x # y # zs) = x @ sep @ js_join sep (y # zs)"

text \<open>\<^verbatim>\<open>split\<close> on a separator of one code unit; the result is never empty.\<close>

fun js_split :: "jschar \<Rightarrow> js \<Rightarrow> js list" where
  "js_split c [] = [[]]"
| "js_split c (x # xs) =
     (if x = c then [] # js_split c xs
      else (case js_split c xs of [] \<Rightarrow> [[x]] | s # ss \<Rightarrow> (x # s) # ss))"

definition js_startsWith :: "js \<Rightarrow> js \<Rightarrow> bool" where
  "js_startsWith p s \<longleftrightarrow> take (length p) s = p"

fun js_includes :: "js \<Rightarrow> js \<Rightarrow> bool" where
  "js_includes p [] = (p = [])"
| "js_includes p (x # xs) = (js_startsWith p (x # xs) \<or> js_includes p xs)"

text \<open>
  \<^verbatim>\<open>toLowerCase\<close> on the ASCII letters. The server compares lowered strings with the words
  1, true, yes, on and bearer only; no code point outside ASCII lowers to a letter of these
  words, so the comparison has the same outcome as with full Unicode lowering.
\<close>

definition js_lower_char :: "jschar \<Rightarrow> jschar" where
  "js_lower_char c = (if 65 \<le> c \<and> c \<le> 90 then c + 32 else c)"

definition js_lower :: "js \<Rightarrow> js" where
  "js_lower s = map js_lower_char s"

text \<open>Decimal printing of a non-negative integer (\<^verbatim>\<open>String(n)\<close>, template interpolation).\<close>

fun js_of_nat :: "nat \<Rightarrow> js" where
  "js_of_nat n = (if n < 10 then [48 + of_nat n] else js_of_nat (n div 10) @ [48 + of_nat (n mod 10)])"

declare js_of_nat.simps [simp del]

definition js_padStart :: "nat \<Rightarrow> jschar \<Rightarrow> js \<Rightarrow> js" where
  "js_padStart n c s = replicate (n - length s) c @ s"

text \<open>A string is falsy in JavaScript exactly when it is empty.\<close>

abbreviation truthy :: "js \<Rightarrow> bool" where
  "truthy s \<equiv> s \<noteq> []"

text \<open>The truthy content of an optional string (\<^verbatim>\<open>undefined\<close>, \<^verbatim>\<open>null\<close> and \<^verbatim>\<open>''\<close> are falsy).\<close>

definition truthy_opt :: "js option \<Rightarrow> bool" where
  "truthy_opt x \<longleftrightarrow> (case x of None \<Rightarrow> False | Some s \<Rightarrow> truthy s)"

lemma truthy_opt_simps [simp]:
  "truthy_opt None = False"
  "truthy_opt (Some s) = truthy s"
  by (simp_all add: truthy_opt_def)

lemmas [js_defs] = js_trim_def js_space_def js_slice0_def js_startsWith_def js_lower_def
  js_lower_char_def js_padStart_def nl_def

subsection \<open>Trimming\<close>

lemma dropWhile_eq_self: "xs = [] \<or> \<not> P (hd xs) \<Longrightarrow> dropWhile P xs = xs"
  by (cases xs) auto

lemma js_trim_Nil [simp]: "js_trim [] = []"
  by (simp add: js_trim_def)

lemma all_dropWhile: "(\<forall>x \<in> set (dropWhile P xs). P x) \<longleftrightarrow> (\<forall>x \<in> set xs. P x)"
  by (induction xs) auto

lemma set_dropWhile_subset: "set (dropWhile P xs) \<subseteq> set xs"
  by (induction xs) auto

lemma js_trim_eq_Nil: "js_trim s = [] \<longleftrightarrow> (\<forall>c \<in> set s. js_space c)"
proof -
  have "js_trim s = [] \<longleftrightarrow> dropWhile js_space (rev (dropWhile js_space s)) = []"
    by (simp add: js_trim_def)
  also have "\<dots> \<longleftrightarrow> (\<forall>c \<in> set (dropWhile js_space s). js_space c)"
    by (simp only: dropWhile_eq_Nil_conv set_rev)
  also have "\<dots> \<longleftrightarrow> (\<forall>c \<in> set s. js_space c)"
    by (simp only: all_dropWhile)
  finally show ?thesis .
qed

lemma js_trim_ends:
  assumes "js_trim s \<noteq> []"
  shows "\<not> js_space (hd (js_trim s))" and "\<not> js_space (last (js_trim s))"
proof -
  let ?d = "dropWhile js_space s"
  let ?r = "dropWhile js_space (rev ?d)"
  have ne: "?r \<noteq> []" using assms by (simp add: js_trim_def)
  show "\<not> js_space (last (js_trim s))"
    using ne hd_dropWhile [of js_space "rev ?d"] by (simp add: js_trim_def last_rev)
  have d: "?d \<noteq> []" using ne by (metis dropWhile.simps(1) rev.simps(1))
  obtain p where p: "rev ?d = p @ ?r"
    by (metis takeWhile_dropWhile_id)
  have "last ?r = last (rev ?d)" using p ne by (metis last_appendR)
  also have "\<dots> = hd ?d" using d by (simp add: last_rev)
  finally have "hd (js_trim s) = hd ?d" using ne by (simp add: js_trim_def hd_rev)
  then show "\<not> js_space (hd (js_trim s))" using hd_dropWhile [OF d] by simp
qed

lemma js_trim_fixed:
  assumes "s = [] \<or> (\<not> js_space (hd s) \<and> \<not> js_space (last s))"
  shows "js_trim s = s"
proof (cases "s = []")
  case False
  with assms have "dropWhile js_space s = s" by (simp add: dropWhile_eq_self)
  moreover have "dropWhile js_space (rev s) = rev s"
    using assms False by (simp add: dropWhile_eq_self hd_rev)
  ultimately show ?thesis by (simp add: js_trim_def)
qed simp

lemma js_trim_idem [simp]: "js_trim (js_trim s) = js_trim s"
  by (rule js_trim_fixed) (use js_trim_ends in blast)

lemma set_js_trim: "set (js_trim s) \<subseteq> set s"
  using set_dropWhile_subset [of js_space "rev (dropWhile js_space s)"]
    set_dropWhile_subset [of js_space s]
  by (auto simp: js_trim_def)

lemma length_js_trim: "length (js_trim s) \<le> length s"
  unfolding js_trim_def by (metis length_dropWhile_le length_rev order_trans)

subsection \<open>Join and split\<close>

lemma js_split_not_Nil [simp]: "js_split c s \<noteq> []"
  by (induction s) (auto split: list.splits)

lemma js_join_Cons: "ys \<noteq> [] \<Longrightarrow> js_join sep (x # ys) = x @ sep @ js_join sep ys"
  by (cases ys) auto

lemma js_split_notin: "c \<notin> set s \<Longrightarrow> js_split c s = [s]"
  by (induction s) auto

lemma js_split_append: "c \<notin> set s \<Longrightarrow> js_split c (s @ c # t) = s # js_split c t"
  by (induction s) auto

lemma js_split_join:
  assumes "xs \<noteq> []" and "\<forall>x \<in> set xs. c \<notin> set x"
  shows "js_split c (js_join [c] xs) = xs"
  using assms
proof (induction xs)
  case (Cons x xs)
  then show ?case
    by (cases xs) (auto simp: js_split_notin js_split_append)
qed simp

lemma js_join_split [simp]: "js_join [c] (js_split c s) = s"
proof (induction s)
  case (Cons x xs)
  show ?case
  proof (cases "js_split c xs")
    case (Cons s ss)
    then show ?thesis using Cons.IH by (cases ss) auto
  qed simp
qed simp

subsection \<open>Decimal printing\<close>

lemma js_of_nat_not_Nil [simp]: "js_of_nat n \<noteq> []"
  by (subst js_of_nat.simps) simp

section \<open>Stable sorting\<close>

text \<open>
  \<^verbatim>\<open>Array.prototype.sort\<close> with a comparator \<^verbatim>\<open>(a, b) => k(a) - k(b)\<close> sorts by the key \<open>k\<close> and
  is stable, which determines its result: it is the library's \<open>sort_key k\<close>.
\<close>

lemma sort_key_unique:
  assumes "mset ys = mset xs" and "sorted (map k ys)"
    and "\<And>v. filter (\<lambda>x. k x = v) ys = filter (\<lambda>x. k x = v) xs"
  shows "ys = sort_key k xs"
  using assms by (intro sym [OF properties_for_sort_key]) (auto simp: eq_commute)

lemma set_sort_key_map: "set (map f (sort_key k xs)) = f ` set xs"
  by simp

lemma sort_key_sorted: "sorted (map k xs) \<Longrightarrow> sort_key k xs = xs"
  by (simp add: sorted_sort_id sort_key_id_if_sorted)

section \<open>Lists as tables\<close>

text \<open>
  A table is a list of rows. \<open>find P\<close> reads the first row with \<open>P\<close>, \<open>upd P f\<close> applies \<open>f\<close> to the
  rows with \<open>P\<close> and keeps the others and the order.
\<close>

definition upd :: "('r \<Rightarrow> bool) \<Rightarrow> ('r \<Rightarrow> 'r) \<Rightarrow> 'r list \<Rightarrow> 'r list" where
  "upd P f rs = map (\<lambda>r. if P r then f r else r) rs"

lemma length_upd [simp]: "length (upd P f rs) = length rs"
  by (simp add: upd_def)

lemma upd_Nil [simp]: "upd P f [] = []"
  by (simp add: upd_def)

lemma upd_Cons [simp]: "upd P f (r # rs) = (if P r then f r else r) # upd P f rs"
  by (simp add: upd_def)

lemma upd_append [simp]: "upd P f (rs @ ss) = upd P f rs @ upd P f ss"
  by (simp add: upd_def)

lemma map_upd: "(\<And>r. g (f r) = g r) \<Longrightarrow> map g (upd P f rs) = map g rs"
  by (simp add: upd_def)

lemma map_upd_set: "(\<And>r. r \<in> set rs \<Longrightarrow> P r \<Longrightarrow> g (f r) = g r) \<Longrightarrow> map g (upd P f rs) = map g rs"
  by (simp add: upd_def)

lemma in_set_upd: "r \<in> set (upd P f rs) \<longleftrightarrow> (\<exists>r0 \<in> set rs. r = (if P r0 then f r0 else r0))"
  by (auto simp: upd_def)

lemma upd_none: "(\<forall>r \<in> set rs. \<not> P r) \<Longrightarrow> upd P f rs = rs"
  by (induction rs) auto

lemma upd_upd_same: "(\<And>r. P r \<Longrightarrow> Q (f r)) \<Longrightarrow> (\<And>r. \<not> P r \<Longrightarrow> \<not> Q r) \<Longrightarrow>
    upd Q g (upd P f rs) = upd P (g \<circ> f) rs"
  by (induction rs) auto

lemma find_upd_other: "(\<And>r. P r \<Longrightarrow> \<not> Q r \<and> \<not> Q (f r)) \<Longrightarrow> find Q (upd P f rs) = find Q rs"
  by (induction rs) auto

lemma find_upd_same: "(\<And>r. P r \<longleftrightarrow> Q r) \<Longrightarrow> (\<And>r. Q r \<Longrightarrow> Q (f r)) \<Longrightarrow>
    find Q (upd P f rs) = map_option f (find Q rs)"
  by (induction rs) auto

lemma find_SomeD: "find P rs = Some r \<Longrightarrow> r \<in> set rs \<and> P r"
  by (metis find_Some_iff nth_mem)

lemma find_append [simp]:
  "find P (rs @ ss) = (case find P rs of None \<Rightarrow> find P ss | Some r \<Rightarrow> Some r)"
  by (induction rs) auto

lemma find_cong_set: "(\<And>r. r \<in> set rs \<Longrightarrow> P r = Q r) \<Longrightarrow> find P rs = find Q rs"
  by (induction rs) auto

lemma find_distinct:
  assumes "distinct (map k rs)" and "r \<in> set rs" and "P r" and "\<And>s. P s \<Longrightarrow> k s = k r"
  shows "find P rs = Some r"
  using assms(1,2)
proof (induction rs)
  case (Cons x rs)
  show ?case
  proof (cases "P x")
    case True
    with assms(4) have "k x = k r" by blast
    with Cons.prems have "x = r" by (auto dest: image_eqI)
    with True show ?thesis by simp
  next
    case False
    with Cons assms(3) show ?thesis by auto
  qed
qed simp

end
