(* ===== verification/Effects.thy ===== *)
theory Effects
  imports Prelude
begin

text \<open>
  Asynchronous programs. A server handler is a sequence of \<^verbatim>\<open>await\<close>ed calls; between two calls
  any other handler, the worker or the outside world may act. A program here is a tree of
  atomic steps over a world \<open>'w\<close>: \<open>Step f\<close> is one awaited call, \<open>Throw e\<close> a rejected promise,
  \<open>Spawn b p\<close> continues as \<open>p\<close> and leaves \<open>b\<close> running unobserved (a promise nobody awaits).

  \<^item> \<open>run\<close> is the sequential meaning (no interference), used for functional properties.
  \<^item> \<open>pool_step\<close> interleaves any number of programs, with crashes, arrivals and environment
    steps, one atomic step at a time.
  \<^item> \<open>wpr\<close> is a weakest precondition under interference (rely-guarantee with one relation \<open>G\<close>
    as rely and guarantee); the locale \<open>interference\<close> holds its rules and its soundness for
    both meanings.
\<close>

section \<open>Programs\<close>

datatype 'w bg = BgDone | BgStep "'w \<Rightarrow> 'w bg \<times> 'w" | BgFork "'w bg" "'w bg"

datatype ('w, 'e, 'a) prog =
    Ret 'a
  | Throw 'e
  | Step "'w \<Rightarrow> ('w, 'e, 'a) prog \<times> 'w"
  | Spawn "'w bg" "('w, 'e, 'a) prog"

text \<open>Sequencing (\<^verbatim>\<open>const x = await p; ...\<close>).\<close>

primrec bindP :: "('w, 'e, 'a) prog \<Rightarrow> ('a \<Rightarrow> ('w, 'e, 'b) prog) \<Rightarrow> ('w, 'e, 'b) prog" where
  "bindP (Ret a) k = k a"
| "bindP (Throw e) k = Throw e"
| "bindP (Step f) k = Step (\<lambda>w. map_prod (\<lambda>p. bindP p k) id (f w))"
| "bindP (Spawn b p) k = Spawn b (bindP p k)"

definition seqP :: "('w, 'e, 'a) prog \<Rightarrow> ('w, 'e, 'b) prog \<Rightarrow> ('w, 'e, 'b) prog" where
  "seqP p q = bindP p (\<lambda>_. q)"

text \<open>\<^verbatim>\<open>try { p } catch (e) { h e }\<close>\<close>

primrec catchP :: "('w, 'e, 'a) prog \<Rightarrow> ('e \<Rightarrow> ('w, 'e, 'a) prog) \<Rightarrow> ('w, 'e, 'a) prog" where
  "catchP (Ret a) h = Ret a"
| "catchP (Throw e) h = h e"
| "catchP (Step f) h = Step (\<lambda>w. map_prod (\<lambda>p. catchP p h) id (f w))"
| "catchP (Spawn b p) h = Spawn b (catchP p h)"

text \<open>\<^verbatim>\<open>try { p } finally { q }\<close>\<close>

definition finallyP :: "('w, 'e, 'a) prog \<Rightarrow> ('w, 'e, unit) prog \<Rightarrow> ('w, 'e, 'a) prog" where
  "finallyP p q =
     bindP (catchP (bindP p (\<lambda>a. Ret (Inr a))) (\<lambda>e. Ret (Inl e)))
       (\<lambda>r. seqP q (case r of Inl e \<Rightarrow> Throw e | Inr a \<Rightarrow> Ret a))"

text \<open>One awaited call: it acts on the world and resolves or rejects.\<close>

definition call :: "('w \<Rightarrow> ('e + 'a) \<times> 'w) \<Rightarrow> ('w, 'e, 'a) prog" where
  "call f = Step (\<lambda>w. map_prod (case_sum Throw Ret) id (f w))"

text \<open>A promise whose outcome nobody looks at.\<close>

primrec detach :: "('w, 'e, 'a) prog \<Rightarrow> 'w bg" where
  "detach (Ret a) = BgDone"
| "detach (Throw e) = BgDone"
| "detach (Step f) = BgStep (\<lambda>w. map_prod detach id (f w))"
| "detach (Spawn b p) = BgFork b (detach p)"

text \<open>
  \<^verbatim>\<open>Promise.race([p, timeout])\<close>, where the timer fires after \<open>n\<close> of the awaited calls of \<open>p\<close>:
  the caller sees \<open>e\<close>, and what is left of \<open>p\<close> keeps running.
\<close>

primrec deadline :: "'e \<Rightarrow> ('w, 'e, 'a) prog \<Rightarrow> nat \<Rightarrow> ('w, 'e, 'a) prog" where
  "deadline e (Ret a) = (\<lambda>n. Ret a)"
| "deadline e (Throw x) = (\<lambda>n. Throw x)"
| "deadline e (Step f) =
     (\<lambda>n. case n of
        0 \<Rightarrow> Spawn (detach (Step f)) (Throw e)
      | Suc m \<Rightarrow> Step (\<lambda>w. map_prod (\<lambda>q. q m) id (map_prod (deadline e) id (f w))))"
| "deadline e (Spawn b p) = (\<lambda>n. Spawn b (deadline e p n))"

text \<open>Induction with the continuation of an atomic step as one hypothesis.\<close>

lemma bg_induct [case_names Done Step Fork, induct type: bg]:
  assumes "P BgDone" and "\<And>f. (\<And>w. P (fst (f w))) \<Longrightarrow> P (BgStep f)"
    and "\<And>b c. P b \<Longrightarrow> P c \<Longrightarrow> P (BgFork b c)"
  shows "P b"
proof (induction b rule: bg.induct)
  case (BgStep f)
  show ?case
  proof (rule assms(2))
    fix w
    show "P (fst (f w))" by (rule BgStep [of "f w"]) (auto simp: fsts.simps prod_eq_iff)
  qed
qed (auto intro: assms)

lemma prog_induct [case_names Ret Throw Step Spawn, induct type: prog]:
  assumes "\<And>a. P (Ret a)" and "\<And>e. P (Throw e)"
    and "\<And>f. (\<And>w. P (fst (f w))) \<Longrightarrow> P (Step f)"
    and "\<And>b p. P p \<Longrightarrow> P (Spawn b p)"
  shows "P p"
proof (induction p rule: prog.induct)
  case (Step f)
  show ?case
  proof (rule assms(3))
    fix w
    show "P (fst (f w))" by (rule Step [of "f w"]) (auto simp: fsts.simps prod_eq_iff)
  qed
qed (auto intro: assms)

section \<open>Sequential meaning\<close>

primrec run :: "('w, 'e, 'a) prog \<Rightarrow> 'w \<Rightarrow> ('e + 'a) \<times> 'w" where
  "run (Ret a) = (\<lambda>w. (Inr a, w))"
| "run (Throw e) = (\<lambda>w. (Inl e, w))"
| "run (Step f) = (\<lambda>w. case map_prod run id (f w) of (r, w') \<Rightarrow> r w')"
| "run (Spawn b p) = run p"

lemma run_Step [simp]: "run (Step f) w = run (fst (f w)) (snd (f w))"
  by (simp add: split_beta)

declare run.simps(3) [simp del]

lemma run_bindP [simp]:
  "run (bindP p k) w =
     (case run p w of (Inl e, w') \<Rightarrow> (Inl e, w') | (Inr a, w') \<Rightarrow> run (k a) w')"
proof (induction p arbitrary: w)
  case (Step f)
  then show ?case by (auto simp: split_beta)
qed auto

lemma run_seqP [simp]:
  "run (seqP p q) w = (case run p w of (Inl e, w') \<Rightarrow> (Inl e, w') | (Inr a, w') \<Rightarrow> run q w')"
  by (simp add: seqP_def)

lemma run_catchP [simp]:
  "run (catchP p h) w =
     (case run p w of (Inl e, w') \<Rightarrow> run (h e) w' | (Inr a, w') \<Rightarrow> (Inr a, w'))"
proof (induction p arbitrary: w)
  case (Step f)
  then show ?case by (auto simp: split_beta)
qed auto

lemma run_finallyP: "run (finallyP p q) w = (case run p w of (r, w1) \<Rightarrow>
    (case run q w1 of (Inl e, w2) \<Rightarrow> (Inl e, w2) | (Inr u, w2) \<Rightarrow> (r, w2)))"
  by (auto simp: finallyP_def split: prod.splits sum.splits)

lemma run_call [simp]: "run (call f) w = f w"
  by (cases "f w"; cases "fst (f w)") (auto simp: call_def)

lemma run_if [simp]: "run (if c then p else q) w = (if c then run p w else run q w)"
  by simp

text \<open>
  Running a program and then everything it left running, the promises spawned last first: one of the
  interleavings below (\<open>settle_reachable\<close>).
\<close>

primrec runBg :: "'w bg \<Rightarrow> 'w \<Rightarrow> 'w" where
  "runBg BgDone = (\<lambda>w. w)"
| "runBg (BgStep f) = (\<lambda>w. case map_prod runBg id (f w) of (r, w') \<Rightarrow> r w')"
| "runBg (BgFork b c) = (\<lambda>w. runBg b (runBg c w))"

primrec settle :: "('w, 'e, 'a) prog \<Rightarrow> 'w \<Rightarrow> ('e + 'a) \<times> 'w" where
  "settle (Ret a) = (\<lambda>w. (Inr a, w))"
| "settle (Throw e) = (\<lambda>w. (Inl e, w))"
| "settle (Step f) = (\<lambda>w. case map_prod settle id (f w) of (r, w') \<Rightarrow> r w')"
| "settle (Spawn b p) = (\<lambda>w. map_prod id (runBg b) (settle p w))"

lemma runBg_Step [simp]: "runBg (BgStep f) w = runBg (fst (f w)) (snd (f w))"
  by (simp add: split_beta)

lemma settle_Step [simp]: "settle (Step f) w = settle (fst (f w)) (snd (f w))"
  by (simp add: split_beta)

declare runBg.simps(2) [simp del] settle.simps(3) [simp del]

lemma runBg_detach: "runBg (detach p) w = snd (settle p w)"
proof (induction p arbitrary: w)
  case (Step f)
  then show ?case by simp
qed auto

text \<open>
  A program that leaves nothing running on its path from a world on; then the two meanings agree, and it can be
  run first in a sequence.
\<close>

primrec spawnless :: "('w, 'e, 'a) prog \<Rightarrow> 'w \<Rightarrow> bool" where
  "spawnless (Ret a) = (\<lambda>w. True)"
| "spawnless (Throw e) = (\<lambda>w. True)"
| "spawnless (Step f) = (\<lambda>w. case map_prod spawnless id (f w) of (r, w') \<Rightarrow> r w')"
| "spawnless (Spawn b p) = (\<lambda>w. False)"

lemma spawnless_Step [simp]: "spawnless (Step f) w = spawnless (fst (f w)) (snd (f w))"
  by (simp add: split_beta)

declare spawnless.simps(3) [simp del]

lemma spawnless_call [simp]: "spawnless (call f) w"
  by (cases "fst (f w)") (auto simp: call_def)

lemma spawnless_bindP:
  "spawnless (bindP p k) w \<longleftrightarrow> spawnless p w \<and> (\<forall>a w'. run p w = (Inr a, w') \<longrightarrow> spawnless (k a) w')"
proof (induction p arbitrary: w)
  case (Step f)
  then show ?case by simp
qed auto

lemma spawnless_catchP:
  "spawnless (catchP p h) w \<longleftrightarrow> spawnless p w \<and> (\<forall>e w'. run p w = (Inl e, w') \<longrightarrow> spawnless (h e) w')"
proof (induction p arbitrary: w)
  case (Step f)
  then show ?case by simp
qed auto

lemma settle_spawnless: "spawnless p w \<Longrightarrow> settle p w = run p w"
proof (induction p arbitrary: w)
  case (Step f)
  then show ?case by simp
qed auto

lemma settle_bindP: "spawnless p w \<Longrightarrow> settle (bindP p k) w =
    (case run p w of (Inl e, w') \<Rightarrow> (Inl e, w') | (Inr a, w') \<Rightarrow> settle (k a) w')"
proof (induction p arbitrary: w)
  case (Step f)
  then show ?case by simp
qed auto

section \<open>Interleaving meaning\<close>

text \<open>
  A state of the system is the world and the list of the running promises. \<open>A\<close> is the set of
  programs that may be started (requests, worker jobs), \<open>Env\<close> what the outside world may do.
\<close>

inductive pool_step ::
    "'w bg set \<Rightarrow> ('w \<Rightarrow> 'w \<Rightarrow> bool) \<Rightarrow> 'w \<times> 'w bg list \<Rightarrow> 'w \<times> 'w bg list \<Rightarrow> bool"
  for A :: "'w bg set" and Env :: "'w \<Rightarrow> 'w \<Rightarrow> bool" where
  arrive: "b \<in> A \<Longrightarrow> pool_step A Env (w, ts) (w, ts @ [b])"
| thread: "i < length ts \<Longrightarrow> ts ! i = BgStep f \<Longrightarrow> f w = (b, w') \<Longrightarrow>
     pool_step A Env (w, ts) (w', ts[i := b])"
| fork: "i < length ts \<Longrightarrow> ts ! i = BgFork b c \<Longrightarrow>
     pool_step A Env (w, ts) (w, ts[i := b] @ [c])"
| crash: "i < length ts \<Longrightarrow> pool_step A Env (w, ts) (w, ts[i := BgDone])"
| environment: "Env w w' \<Longrightarrow> pool_step A Env (w, ts) (w', ts)"

inductive_cases pool_stepE: "pool_step A Env (w, ts) s'"

inductive reachable ::
    "'w bg set \<Rightarrow> ('w \<Rightarrow> 'w \<Rightarrow> bool) \<Rightarrow> 'w \<Rightarrow> 'w \<times> 'w bg list \<Rightarrow> bool"
  for A :: "'w bg set" and Env :: "'w \<Rightarrow> 'w \<Rightarrow> bool" and w0 :: 'w where
  start: "reachable A Env w0 (w0, [])"
| step: "reachable A Env w0 s \<Longrightarrow> pool_step A Env s s' \<Longrightarrow> reachable A Env w0 s'"

lemma runBg_steps:
  assumes "reachable A Env w0 (w, ts)" and "i < length ts" and "ts ! i = b"
  shows "\<exists>ts'. reachable A Env w0 (runBg b w, ts') \<and> length ts \<le> length ts'
    \<and> (\<forall>k < length ts. k \<noteq> i \<longrightarrow> ts' ! k = ts ! k)"
  using assms
proof (induction b arbitrary: w ts i)
  case (Step f)
  obtain c w' where f: "f w = (c, w')" by (cases "f w")
  have "reachable A Env w0 (w', ts[i := c])"
    by (rule reachable.step [OF Step.prems(1) pool_step.thread [OF Step.prems(2,3) f]])
  with Step.IH [of w' "ts[i := c]" i w] Step.prems(2) f show ?case by auto
next
  case (Fork b c)
  let ?ts = "ts[i := b] @ [c]"
  have "reachable A Env w0 (w, ?ts)"
    by (rule reachable.step [OF Fork.prems(1) pool_step.fork [OF Fork.prems(2,3)]])
  from Fork.IH(2) [OF this, of "length ts"] obtain us where us:
    "reachable A Env w0 (runBg c w, us)" "Suc (length ts) \<le> length us"
    "\<forall>k < Suc (length ts). k \<noteq> length ts \<longrightarrow> us ! k = ?ts ! k"
    by (auto simp: nth_append)
  with Fork.prems(2) have "us ! i = b" by (simp add: nth_append)
  from Fork.IH(1) [OF us(1) _ this] us(2) Fork.prems(2) obtain vs where vs:
    "reachable A Env w0 (runBg b (runBg c w), vs)" "length us \<le> length vs"
    "\<forall>k < length us. k \<noteq> i \<longrightarrow> vs ! k = us ! k"
    by auto
  have "vs ! k = ts ! k" if "k < length ts" "k \<noteq> i" for k
    using that us(2,3) vs(3) by (simp add: nth_append)
  with us(2) vs(1,2) show ?case by (intro exI [of _ vs]) simp
qed auto

lemma settle_reachable:
  assumes "detach p \<in> A" and "reachable A Env w0 (w, ts)"
  shows "\<exists>ts'. reachable A Env w0 (snd (settle p w), ts')"
proof -
  have "reachable A Env w0 (w, ts @ [detach p])"
    by (rule reachable.step [OF assms(2) pool_step.arrive [OF assms(1)]])
  from runBg_steps [OF this, of "length ts"] show ?thesis by (auto simp: runBg_detach)
qed

section \<open>Weakest preconditions under interference\<close>

text \<open>
  \<open>wpr G Q E p w\<close>: from \<open>w\<close> on, whatever \<open>G\<close>-steps the others take, every step of \<open>p\<close> (and of what it
  spawns) is a \<open>G\<close>-step, a result \<open>a\<close> satisfies \<open>Q a\<close> and an error \<open>e\<close> satisfies \<open>E e\<close>.
\<close>

primrec bgok :: "('w \<Rightarrow> 'w \<Rightarrow> bool) \<Rightarrow> 'w bg \<Rightarrow> 'w \<Rightarrow> bool" where
  "bgok G BgDone = (\<lambda>w. True)"
| "bgok G (BgStep f) = (\<lambda>w. \<forall>w'. G w w' \<longrightarrow>
     G w' (snd (f w')) \<and> fst (map_prod (bgok G) id (f w')) (snd (f w')))"
| "bgok G (BgFork b c) = (\<lambda>w. bgok G b w \<and> bgok G c w)"

primrec wpr :: "('w \<Rightarrow> 'w \<Rightarrow> bool) \<Rightarrow> ('a \<Rightarrow> 'w \<Rightarrow> bool) \<Rightarrow> ('e \<Rightarrow> 'w \<Rightarrow> bool) \<Rightarrow>
    ('w, 'e, 'a) prog \<Rightarrow> 'w \<Rightarrow> bool" where
  "wpr G Q E (Ret a) = (\<lambda>w. \<forall>w'. G w w' \<longrightarrow> Q a w')"
| "wpr G Q E (Throw e) = (\<lambda>w. \<forall>w'. G w w' \<longrightarrow> E e w')"
| "wpr G Q E (Step f) = (\<lambda>w. \<forall>w'. G w w' \<longrightarrow>
     G w' (snd (f w')) \<and> fst (map_prod (wpr G Q E) id (f w')) (snd (f w')))"
| "wpr G Q E (Spawn b p) = (\<lambda>w. bgok G b w \<and> wpr G Q E p w)"

abbreviation safe :: "('w \<Rightarrow> 'w \<Rightarrow> bool) \<Rightarrow> ('w, 'e, 'a) prog \<Rightarrow> 'w \<Rightarrow> bool" where
  "safe G p w \<equiv> wpr G (\<lambda>_ _. True) (\<lambda>_ _. True) p w"

text \<open>Consequence, and the programs that guarantee their steps from every world.\<close>

lemma wpr_mono:
  "wpr G Q E p w \<Longrightarrow> (\<And>a w. Q a w \<Longrightarrow> Q' a w) \<Longrightarrow> (\<And>e w. E e w \<Longrightarrow> E' e w) \<Longrightarrow> wpr G Q' E' p w"
  by (induction p arbitrary: w) auto

lemma wpr_safe: "wpr G Q E p w \<Longrightarrow> safe G p w"
  by (erule wpr_mono) auto

text \<open>
  \<open>G\<close> is transitive and relates only worlds that it relates to themselves (in use: the worlds that
  satisfy the system invariant).
\<close>

locale interference =
  fixes G :: "'w \<Rightarrow> 'w \<Rightarrow> bool"
  assumes G_left: "G w v \<Longrightarrow> G w w"
    and G_right: "G w v \<Longrightarrow> G v v"
    and G_trans: "G u v \<Longrightarrow> G v w \<Longrightarrow> G u w"
begin

lemma bgok_later: "bgok G b w \<Longrightarrow> G w w' \<Longrightarrow> bgok G b w'"
  by (induction b) (auto intro: G_trans)

lemma wpr_later: "wpr G Q E p w \<Longrightarrow> G w w' \<Longrightarrow> wpr G Q E p w'"
  by (induction p) (auto intro: G_trans bgok_later)

text \<open>From a world outside \<open>G\<close> there is nothing to show.\<close>

lemma bgok_outside: "\<not> G w w \<Longrightarrow> bgok G b w"
  by (induction b) (auto dest: G_left)

lemma wpr_outside: "\<not> G w w \<Longrightarrow> wpr G Q E p w"
  by (induction p) (auto dest: G_left simp: bgok_outside)

lemma wpr_start: "(G w w \<Longrightarrow> wpr G Q E p w) \<Longrightarrow> wpr G Q E p w"
  using wpr_outside by blast

lemma wpr_bindP: "wpr G (\<lambda>a. wpr G Q E (k a)) E p w \<Longrightarrow> wpr G Q E (bindP p k) w"
proof (induction p arbitrary: w)
  case (Ret a)
  show ?case by (rule wpr_start) (use Ret in auto)
qed auto

lemma wpr_seqP: "wpr G (\<lambda>_. wpr G Q E q) E p w \<Longrightarrow> wpr G Q E (seqP p q) w"
  by (simp add: seqP_def wpr_bindP)

lemma wpr_catchP: "wpr G Q (\<lambda>e. wpr G Q E (h e)) p w \<Longrightarrow> wpr G Q E (catchP p h) w"
proof (induction p arbitrary: w)
  case (Throw e)
  show ?case by (rule wpr_start) (use Throw in auto)
qed auto

lemma wpr_call:
  assumes "\<And>w'. G w w' \<Longrightarrow> G w' (snd (f w'))"
    and "\<And>w' a. G w w' \<Longrightarrow> fst (f w') = Inr a \<Longrightarrow> (\<And>v. G (snd (f w')) v \<Longrightarrow> Q a v)"
    and "\<And>w' e. G w w' \<Longrightarrow> fst (f w') = Inl e \<Longrightarrow> (\<And>v. G (snd (f w')) v \<Longrightarrow> E e v)"
  shows "wpr G Q E (call f) w"
proof -
  have "fst (map_prod (wpr G Q E) id (map_prod (case_sum Throw Ret) id (f w'))) (snd (f w'))"
    if "G w w'" for w'
    using assms(2,3) [OF that] by (cases "fst (f w')") auto
  with assms(1) show ?thesis by (simp add: call_def)
qed

lemma bgok_detach: "wpr G Q E p w \<Longrightarrow> bgok G (detach p) w"
  by (induction p arbitrary: w) auto

lemma wpr_deadline:
  assumes "wpr G Q E p w" and "\<And>v. G w v \<Longrightarrow> E e v"
  shows "wpr G Q E (deadline e p n) w"
  using assms
proof (induction p arbitrary: w n)
  case (Step f)
  show ?case
  proof (cases n)
    case 0
    from Step.prems(1) have "bgok G (detach (Step f)) w" by (rule bgok_detach)
    with 0 Step.prems(2) show ?thesis by simp
  next
    case (Suc m)
    have "wpr G Q E (deadline e (fst (f w')) m) (snd (f w'))" if "G w w'" for w'
    proof (rule Step.IH)
      show "wpr G Q E (fst (f w')) (snd (f w'))" using Step.prems(1) that by simp
      have "G w (snd (f w'))" using Step.prems(1) that by (auto intro: G_trans)
      then show "E e v" if "G (snd (f w')) v" for v
        using Step.prems(2) that by (blast intro: G_trans)
    qed
    with Suc Step.prems(1) show ?thesis by simp
  qed
qed auto

text \<open>
  A postcondition may use what held before: the world after is one that others may have
  reached from the world before. This gives the rules for reasoning forward.
\<close>

lemma wpr_frame:
  "wpr G Q E p w \<Longrightarrow> wpr G (\<lambda>a v. Q a v \<and> G w v) (\<lambda>e v. E e v \<and> G w v) p w"
proof (induction p arbitrary: w)
  case (Step f)
  have "wpr G (\<lambda>a v. Q a v \<and> G w v) (\<lambda>e v. E e v \<and> G w v) (fst (f w')) (snd (f w'))"
    if "G w w'" for w'
  proof -
    have "G w (snd (f w'))" and "wpr G Q E (fst (f w')) (snd (f w'))"
      using Step.prems that by (auto intro: G_trans)
    with Step.IH [of w' "snd (f w')"] show ?thesis
      by (auto elim!: wpr_mono intro: G_trans)
  qed
  with Step.prems show ?case by simp
qed auto

lemma wpr_bind:
  assumes "wpr G P E p w" and "\<And>a v. P a v \<Longrightarrow> G w v \<Longrightarrow> wpr G Q E (k a) v"
  shows "wpr G Q E (bindP p k) w"
  by (rule wpr_bindP, rule wpr_mono [OF wpr_frame [OF assms(1)]]) (use assms(2) in auto)

lemma wpr_seq:
  assumes "wpr G P E p w" and "\<And>a v. P a v \<Longrightarrow> G w v \<Longrightarrow> wpr G Q E q v"
  shows "wpr G Q E (seqP p q) w"
  unfolding seqP_def by (rule wpr_bind [OF assms])

lemma wpr_catch:
  assumes "wpr G Q F p w" and "\<And>e v. F e v \<Longrightarrow> G w v \<Longrightarrow> wpr G Q E (h e) v"
  shows "wpr G Q E (catchP p h) w"
  by (rule wpr_catchP, rule wpr_mono [OF wpr_frame [OF assms(1)]]) (use assms(2) in auto)

lemma wpr_Ret: "(\<And>v. G w v \<Longrightarrow> Q a v) \<Longrightarrow> wpr G Q E (Ret a) w"
  by simp

lemma wpr_Throw: "(\<And>v. G w v \<Longrightarrow> E e v) \<Longrightarrow> wpr G Q E (Throw e) w"
  by simp

subsection \<open>Soundness\<close>

lemma runBg_sound: "bgok G b w \<Longrightarrow> G w w \<Longrightarrow> G w (runBg b w)"
proof (induction b arbitrary: w)
  case (Step f)
  then have "G w (snd (f w))" "bgok G (fst (f w)) (snd (f w))" by auto
  with Step.IH [of w "snd (f w)"] G_right G_trans show ?case by auto
next
  case (Fork b c)
  then have c: "G w (runBg c w)" "bgok G b w" by auto
  with Fork.IH(1) [OF bgok_later [OF c(2,1)] G_right [OF c(1)]] G_trans show ?case by auto
qed auto

lemma settle_sound: "wpr G Q E p w \<Longrightarrow> G w w \<Longrightarrow> G w (snd (settle p w))"
  using runBg_sound [OF bgok_detach] by (simp add: runBg_detach)

lemma run_sound:
  assumes "wpr G Q E p w" and "G w w"
  shows "G w (snd (run p w)) \<and>
    (case fst (run p w) of Inl e \<Rightarrow> E e (snd (run p w)) | Inr a \<Rightarrow> Q a (snd (run p w)))"
  using assms
proof (induction p arbitrary: w)
  case (Step f)
  then have g: "G w (snd (f w))" and p: "wpr G Q E (fst (f w)) (snd (f w))"
    by auto
  with Step.IH [OF p G_right [OF g]] G_trans show ?case
    by (simp only: run_Step)
next
  case (Spawn b p)
  then have "wpr G Q E p w" by simp
  from Spawn.IH [OF this Spawn.prems(2)] show ?case by (simp only: run.simps)
qed auto

lemma pool_sound:
  assumes arrivals: "\<And>b w. b \<in> A \<Longrightarrow> bgok G b w"
    and env: "\<And>w w'. Env w w' \<Longrightarrow> G w w \<Longrightarrow> G w w'"
    and "G w0 w0" and "reachable A Env w0 s"
  shows "G w0 (fst s) \<and> (\<forall>b \<in> set (snd s). bgok G b (fst s))"
  using assms(4)
proof (induction rule: reachable.induct)
  case start
  show ?case by (simp add: assms(3))
next
  case (step s s')
  have upd: "\<forall>b \<in> set (ts[i := c]). bgok G b v"
    if "\<forall>b \<in> set ts. bgok G b v" and "bgok G c v" for ts i c v
    using that set_update_subset_insert [of ts i c] by auto
  have here: "G (fst s) (fst s)" using step.IH G_right by blast
  from step.hyps(2) step.IH show ?case
  proof cases
    case (arrive b w ts)
    with step.IH arrivals show ?thesis by auto
  next
    case (thread i ts f w b w')
    then have "bgok G (BgStep f) w" using step.IH by (metis fst_conv nth_mem snd_conv)
    then have *: "G w w'" "bgok G b w'"
      using here thread(1,5) by (auto dest!: spec [of _ w])
    have "\<forall>b \<in> set ts. bgok G b w'"
      using step.IH thread(1) bgok_later [OF _ *(1)] by simp
    from upd [OF this *(2)] have "\<forall>c \<in> set (snd s'). bgok G c (fst s')"
      using thread(2) by simp
    moreover have "G w0 (fst s')" using step.IH thread(1,2) *(1) G_trans by simp blast
    ultimately show ?thesis by simp
  next
    case (fork i ts b c w)
    then have "bgok G (BgFork b c) w" using step.IH by (metis fst_conv nth_mem snd_conv)
    with fork step.IH upd [of ts w b i] show ?thesis by auto
  next
    case (crash i ts w)
    with step.IH upd [of ts w BgDone i] show ?thesis by auto
  next
    case (environment w w' ts)
    have "G w w'" by (rule env) (use environment here in auto)
    with environment step.IH G_trans bgok_later show ?thesis by simp blast
  qed
qed

end

end
