(* ===== verification/Domain.thy ===== *)
theory Domain
  imports Prelude
begin

text \<open>
  The data of the product: severities and job statuses (the enums of
  \<^verbatim>\<open>server/prisma/schema.prisma\<close>), the wire severities of \<^verbatim>\<open>jobs/severity.ts\<close>, the normalized
  report tree of \<^verbatim>\<open>jobs/report.types.ts\<close>, and the request and response DTOs of \<^verbatim>\<open>jobs/dto\<close>,
  \<^verbatim>\<open>auth/dto\<close> and \<^verbatim>\<open>common/dto\<close> with their declared validation rules.
\<close>

section \<open>Enums\<close>

datatype Severity = INFO | MAINTENANCE | REPAIR | SAFETY

datatype ApiSeverity = Info | Maintenance | Repair | Safety

datatype JobStatus =
  CREATED | UPLOADING | QUEUED | TRANSCRIBING | COMPILING | RENDERING | READY | FAILED

definition API_SEVERITIES :: "ApiSeverity list" where
  "API_SEVERITIES = [Info, Maintenance, Repair, Safety]"

text \<open>The wire strings of the API severities.\<close>

fun apiSeverity_js :: "ApiSeverity \<Rightarrow> js" where
  "apiSeverity_js Info = lit ''info''"
| "apiSeverity_js Maintenance = lit ''maintenance''"
| "apiSeverity_js Repair = lit ''repair''"
| "apiSeverity_js Safety = lit ''safety''"

definition apiSeverity_of :: "js \<Rightarrow> ApiSeverity option" where
  "apiSeverity_of s = find (\<lambda>v. apiSeverity_js v = s) API_SEVERITIES"

fun severityToApi :: "Severity \<Rightarrow> ApiSeverity" where
  "severityToApi INFO = Info"
| "severityToApi MAINTENANCE = Maintenance"
| "severityToApi REPAIR = Repair"
| "severityToApi SAFETY = Safety"

fun severityFromApi :: "ApiSeverity \<Rightarrow> Severity" where
  "severityFromApi Info = INFO"
| "severityFromApi Maintenance = MAINTENANCE"
| "severityFromApi Repair = REPAIR"
| "severityFromApi Safety = SAFETY"

lemma severity_from_to [simp]: "severityFromApi (severityToApi s) = s"
  by (cases s) auto

lemma severity_to_from [simp]: "severityToApi (severityFromApi s) = s"
  by (cases s) auto

lemma apiSeverity_of_js [simp]: "apiSeverity_of (apiSeverity_js v) = Some v"
  by (cases v) (simp_all add: apiSeverity_of_def API_SEVERITIES_def)

lemma apiSeverity_of_Some: "apiSeverity_of s = Some v \<longleftrightarrow> s = apiSeverity_js v"
proof
  assume "apiSeverity_of s = Some v"
  then show "s = apiSeverity_js v" unfolding apiSeverity_of_def by (auto dest: find_SomeD)
qed simp

text \<open>
  Severities are ordered by rank, most severe first: the order of \<^verbatim>\<open>SEVERITY_RANK\<close> in
  \<^verbatim>\<open>report-compiler.service.ts\<close>.
\<close>

fun SEVERITY_RANK :: "Severity \<Rightarrow> nat" where
  "SEVERITY_RANK SAFETY = 0"
| "SEVERITY_RANK REPAIR = 1"
| "SEVERITY_RANK MAINTENANCE = 2"
| "SEVERITY_RANK INFO = 3"

lemma SEVERITY_RANK_inj [simp]: "SEVERITY_RANK a = SEVERITY_RANK b \<longleftrightarrow> a = b"
  by (cases a; cases b) auto

instantiation Severity :: linorder
begin

definition less_eq_Severity :: "Severity \<Rightarrow> Severity \<Rightarrow> bool" where
  "a \<le> b \<longleftrightarrow> SEVERITY_RANK a \<le> SEVERITY_RANK b"

definition less_Severity :: "Severity \<Rightarrow> Severity \<Rightarrow> bool" where
  "a < b \<longleftrightarrow> SEVERITY_RANK a < SEVERITY_RANK b"

instance
  by standard (auto simp: less_eq_Severity_def less_Severity_def)

end

section \<open>The normalized report tree\<close>

record ReportFindingInput =
  rf_text :: js
  rf_severity :: Severity

record ReportSectionInput =
  rs_title :: js
  rs_findings :: "ReportFindingInput list"

section \<open>Job DTOs\<close>

record FindingDto =
  fd_id :: js
  fd_text :: js
  fd_severity :: ApiSeverity
  fd_sortOrder :: int

record SectionDto =
  sd_id :: js
  sd_title :: js
  sd_sortOrder :: int
  sd_findings :: "FindingDto list"

record JobDto =
  jd_id :: js
  jd_label :: js
  jd_status :: JobStatus
  jd_transcript :: "js option"
  jd_errorMessage :: "js option"
  jd_sections :: "SectionDto list"
  jd_pdfUrl :: "js option"
  jd_createdAt :: nat
  jd_updatedAt :: nat

record PresignedUpload =
  pu_url :: js
  pu_key :: js
  pu_contentType :: js
  pu_expiresInSeconds :: nat

record CreateJobResponseDto =
  cr_job :: JobDto
  cr_audioUploadUrl :: PresignedUpload

record PdfUrlDto =
  pd_url :: js
  pd_expiresInSeconds :: nat

record PaginatedJobs =
  pg_items :: "JobDto list"
  pg_nextCursor :: "js option"

record CreateJobDto =
  cj_label :: js

record UpdateFindingDto =
  uf_text :: js
  uf_severity :: ApiSeverity
  uf_sortOrder :: int

record UpdateSectionDto =
  us_title :: js
  us_sortOrder :: int
  us_findings :: "UpdateFindingDto list"

text \<open>
  An optional body field distinguishes an absent key from an explicit \<^verbatim>\<open>null\<close>:
  \<^verbatim>\<open>@IsOptional()\<close> skips the other validators for both, but the service compares with
  \<^verbatim>\<open>undefined\<close> only.
\<close>

datatype 'a field = Undefined | Null | Given 'a

record UpdateJobDto =
  uj_label :: "js field"
  uj_sections :: "UpdateSectionDto list field"

record PaginationQueryDto =
  pq_cursor :: "js option"
  pq_limit :: int

section \<open>Auth DTOs\<close>

record AppleSignInDto =
  as_identityToken :: js
  as_nonce :: "js option"
  as_email :: "js option"

record RefreshDto =
  rd_refreshToken :: js

record TokenResponseDto =
  tr_accessToken :: js
  tr_refreshToken :: js
  tr_tokenType :: js
  tr_expiresIn :: nat
  tr_userId :: js

section \<open>Declared validation rules\<close>

text \<open>
  The constraints of the decorators. \<^verbatim>\<open>MinLength\<close> and \<^verbatim>\<open>MaxLength\<close> count characters in the way of
  the validator package, which is the parameter \<open>chars\<close>.
\<close>

definition lengthIn :: "(js \<Rightarrow> nat) \<Rightarrow> nat \<Rightarrow> nat \<Rightarrow> js \<Rightarrow> bool" where
  "lengthIn chars lo hi s \<longleftrightarrow> lo \<le> chars s \<and> chars s \<le> hi"

definition valid_CreateJobDto :: "(js \<Rightarrow> nat) \<Rightarrow> CreateJobDto \<Rightarrow> bool" where
  "valid_CreateJobDto chars d \<longleftrightarrow> lengthIn chars 1 200 (cj_label d)"

definition valid_UpdateFindingDto :: "(js \<Rightarrow> nat) \<Rightarrow> UpdateFindingDto \<Rightarrow> bool" where
  "valid_UpdateFindingDto chars f \<longleftrightarrow> lengthIn chars 1 2000 (uf_text f) \<and> 0 \<le> uf_sortOrder f"

definition valid_UpdateSectionDto :: "(js \<Rightarrow> nat) \<Rightarrow> UpdateSectionDto \<Rightarrow> bool" where
  "valid_UpdateSectionDto chars s \<longleftrightarrow>
     lengthIn chars 1 200 (us_title s) \<and> 0 \<le> us_sortOrder s \<and> length (us_findings s) \<le> 200
     \<and> list_all (valid_UpdateFindingDto chars) (us_findings s)"

definition valid_UpdateJobDto :: "(js \<Rightarrow> nat) \<Rightarrow> UpdateJobDto \<Rightarrow> bool" where
  "valid_UpdateJobDto chars d \<longleftrightarrow>
     (case uj_label d of Given l \<Rightarrow> lengthIn chars 1 200 l | _ \<Rightarrow> True)
     \<and> (case uj_sections d of
          Given ss \<Rightarrow> length ss \<le> 100 \<and> list_all (valid_UpdateSectionDto chars) ss
        | _ \<Rightarrow> True)"

definition valid_PaginationQueryDto :: "PaginationQueryDto \<Rightarrow> bool" where
  "valid_PaginationQueryDto q \<longleftrightarrow> 1 \<le> pq_limit q \<and> pq_limit q \<le> 100"

definition valid_AppleSignInDto :: "(js \<Rightarrow> nat) \<Rightarrow> AppleSignInDto \<Rightarrow> bool" where
  "valid_AppleSignInDto chars d \<longleftrightarrow>
     lengthIn chars 1 8192 (as_identityToken d)
     \<and> (case as_nonce d of None \<Rightarrow> True | Some n \<Rightarrow> lengthIn chars 0 256 n)
     \<and> (case as_email d of None \<Rightarrow> True | Some e \<Rightarrow> lengthIn chars 0 320 e)"

definition valid_RefreshDto :: "(js \<Rightarrow> nat) \<Rightarrow> RefreshDto \<Rightarrow> bool" where
  "valid_RefreshDto chars d \<longleftrightarrow> lengthIn chars 1 512 (rd_refreshToken d)"

end
