(* ===== verification/World.thy ===== *)
theory World
  imports Effects Domain Config "HOL-Library.Product_Lexorder"
begin

text \<open>
  The state the server works on, and the outside functions it is given.

  \<^item> The Postgres tables are lists of rows with the columns of \<^verbatim>\<open>server/prisma/schema.prisma\<close>; a
    Prisma call acts on them by its documented effect (the reading that \<^verbatim>\<open>FakePrisma\<close> in
    \<^verbatim>\<open>auth.service.spec.ts\<close> gives too). The R2 bucket is a map from keys to objects, the BullMQ
    queues are lists of queue jobs.
  \<^item> \<open>faults\<close> is the schedule of failing remote calls: a request that is lost, or one that takes
    effect while its reply is lost. \<open>deadlines\<close> says after how many awaited calls the timer of
    the next pipeline stages fires (\<open>None\<close>: not at all). Both are arbitrary finite lists; past
    their end nothing fails and no timer fires.
  \<^item> \<open>app\<close> holds what is injected: the configuration, and as parameters the third-party
    functions (cryptography, JWT, presigning, speech-to-text, chat completion, Chromium,
    \<^verbatim>\<open>JSON.parse\<close>, validators). Nothing is assumed of them here.
\<close>

section \<open>Values\<close>

type_synonym bytes = "8 word list"

text \<open>A JSON value; a number is kept as its lexeme, since the server only passes it on.\<close>

datatype json = JNull | JBool bool | JNum js | JStr js | JArr "json list" | JObj "(js \<times> json) list"

text \<open>
  Everything the code throws: Nest's HTTP exceptions (those of the validation pipe carry a list of messages),
  Prisma's errors, BullMQ's
  \<^verbatim>\<open>UnrecoverableError\<close>, the error classes of the pipeline, any other \<^verbatim>\<open>Error\<close> with its message,
  and a thrown value that is no \<^verbatim>\<open>Error\<close>, with its \<^verbatim>\<open>String\<close> form.
\<close>

datatype http_kind = BadRequest | Unauthorized | NotFound | Conflict

datatype err =
    HttpException http_kind js
  | ValidationFailed "js list"
  | PrismaKnown js js
  | PrismaValidation js
  | UnrecoverableError js
  | EmptyTranscriptError
  | MalformedReportError js
  | StageTimeoutError js int
  | PlainError js
  | NonError js

section \<open>Tables\<close>

record user_row =
  u_id :: js
  u_appleSub :: js
  u_email :: "js option"
  u_createdAt :: nat
  u_updatedAt :: nat

record token_row =
  t_id :: js
  t_userId :: js
  t_tokenHash :: js
  t_expiresAt :: int
  t_revokedAt :: "nat option"
  t_replacedByTokenHash :: "js option"
  t_createdAt :: nat

record job_row =
  j_id :: js
  j_userId :: js
  j_label :: js
  j_status :: JobStatus
  j_transcript :: "js option"
  j_audioKey :: "js option"
  j_pdfKey :: "js option"
  j_errorMessage :: "js option"
  j_idempotencyKey :: "js option"
  j_createdAt :: nat
  j_updatedAt :: nat
  j_deletedAt :: "nat option"

record section_row =
  s_id :: js
  s_jobId :: js
  s_title :: js
  s_sortOrder :: int

record finding_row =
  f_id :: js
  f_sectionId :: js
  f_text :: js
  f_severity :: Severity
  f_sortOrder :: int

record event_row =
  e_jobId :: js
  e_stage :: js
  e_status :: js
  e_message :: "js option"
  e_createdAt :: nat

section \<open>Objects and queues\<close>

record obj =
  o_body :: bytes
  o_contentType :: js

datatype bull_state = BWaiting | BActive | BDelayed | BCompleted | BFailed

record ProcessJobData =
  pj_jobId :: js
  pj_userId :: js

record bull_job =
  b_id :: js
  b_data :: ProcessJobData
  b_attempts :: nat
  b_attemptsMade :: nat
  b_state :: bull_state

record dlq_entry =
  dl_jobId :: js
  dl_userId :: js
  dl_error :: js
  dl_attemptsMade :: nat

datatype fault = Works | LostRequest js | LostReply js

record world =
  users :: "user_row list"
  tokens :: "token_row list"
  jobs :: "job_row list"
  sections :: "section_row list"
  findings :: "finding_row list"
  events :: "event_row list"
  bucket :: "js \<Rightarrow> obj option"
  queue :: "bull_job list"
  dlq :: "dlq_entry list"
  clock :: nat
  entropy :: nat
  modelCalls :: nat
  faults :: "fault list"
  deadlines :: "nat option list"

type_synonym 'a io = "(world, err, 'a) prog"

section \<open>The injected functions\<close>

datatype signed_op = PutOp js js js | GetOp js js

datatype deepgram_outcome = DgThrow js | DgError js | DgResult "js option"

datatype openai_outcome = OaThrow js | OaString js | OaOther

record tool_call =
  tc_name :: js
  tc_arguments :: js

record chat_choice =
  cc_toolCalls :: "tool_call list option"

record chat_tool =
  ct_name :: js
  ct_description :: js
  ct_parameters :: json

record chat_request =
  ch_model :: js
  ch_maxTokens :: nat
  ch_temperature :: nat
  ch_system :: js
  ch_user :: js
  ch_tools :: "chat_tool list"
  ch_toolChoice :: js

text \<open>
  What a zod issue tells: expected and received type, the received value of an enum, or a bound.
\<close>

datatype zod_issue_code =
  ZInvalidType js js | ZInvalidEnum js | ZTooSmall nat | ZTooBigString nat | ZTooBigArray nat

record app =
  cfg :: AppConfig
  uuid :: "nat \<Rightarrow> js"
  randomToken :: "nat \<Rightarrow> js"
  hmacSha256Hex :: "js \<Rightarrow> js \<Rightarrow> js"
  sha256Hex :: "js \<Rightarrow> js"
  signJwt :: "js \<Rightarrow> (js \<times> json) list \<Rightarrow> js"
  jwtVerify :: "js \<Rightarrow> js \<Rightarrow> js \<Rightarrow> nat \<Rightarrow> js \<Rightarrow> (js \<times> json) list option"
  appleJwtVerify :: "js \<Rightarrow> js \<Rightarrow> nat \<Rightarrow> js \<Rightarrow> (js \<times> json) list option"
  decodeJwt :: "js \<Rightarrow> (js \<times> json) list option"
  getSignedUrl :: "signed_op \<Rightarrow> int \<Rightarrow> nat \<Rightarrow> js"
  libraryMessage :: "js \<Rightarrow> js"
  noBody :: "js \<Rightarrow> bool"
  cursorAbsent :: "js \<Rightarrow> nat \<Rightarrow> nat \<Rightarrow> err + nat list"
  deepgram :: "nat \<Rightarrow> bytes \<Rightarrow> js \<Rightarrow> js \<Rightarrow> deepgram_outcome"
  openaiTranscribe :: "nat \<Rightarrow> bytes \<Rightarrow> js \<Rightarrow> js \<Rightarrow> js option \<Rightarrow> openai_outcome"
  chatCompletion :: "nat \<Rightarrow> chat_request \<Rightarrow> js + chat_choice list"
  jsonParse :: "js \<Rightarrow> json option"
  zodMessageOf :: "zod_issue_code \<Rightarrow> js"
  chromiumPdf :: "nat \<Rightarrow> js \<Rightarrow> js + bytes"
  charCount :: "js \<Rightarrow> nat"
  isUUID :: "js \<Rightarrow> bool"

section \<open>Calls\<close>

text \<open>A call over the network, subject to the fault schedule.\<close>

definition remote :: "(world \<Rightarrow> (err + 'a) \<times> world) \<Rightarrow> 'a io" where
  "remote f = call (\<lambda>w.
     case faults w of
       [] \<Rightarrow> f w
     | Works # fs \<Rightarrow> f (w\<lparr>faults := fs\<rparr>)
     | LostRequest m # fs \<Rightarrow> (Inl (PlainError m), w\<lparr>faults := fs\<rparr>)
     | LostReply m # fs \<Rightarrow> (Inl (PlainError m), snd (f (w\<lparr>faults := fs\<rparr>))))"

text \<open>A remote read and a remote write that cannot be refused by the store.\<close>

definition query :: "(world \<Rightarrow> 'a) \<Rightarrow> 'a io" where
  "query f = remote (\<lambda>w. (Inr (f w), w))"

definition command :: "(world \<Rightarrow> world) \<Rightarrow> unit io" where
  "command f = remote (\<lambda>w. (Inr (), f w))"

text \<open>
  \<^verbatim>\<open>$transaction\<close>: the operations commit together or not at all. Identifiers drawn by an aborted
  transaction are not drawn again.
\<close>

definition transaction :: "(world \<Rightarrow> (err + 'a) \<times> world) \<Rightarrow> 'a io" where
  "transaction f = remote (\<lambda>w.
     case f w of
       (Inl e, w') \<Rightarrow> (Inl e, w\<lparr>entropy := entropy w'\<rparr>)
     | (Inr a, w') \<Rightarrow> (Inr a, w'))"

text \<open>Local effects: the clock and the source of identifiers.\<close>

definition now :: "nat io" where
  "now = call (\<lambda>w. (Inr (clock w), w))"

definition draw :: "nat io" where
  "draw = call (\<lambda>w. (Inr (entropy w), w\<lparr>entropy := Suc (entropy w)\<rparr>))"

text \<open>The message of a thrown value: \<^verbatim>\<open>err instanceof Error ? err.message : String(err)\<close>\<close>

definition EMPTY_TRANSCRIPT_MESSAGE :: js where
  "EMPTY_TRANSCRIPT_MESSAGE =
     lit ''Transcription produced no text '' @ [0x2014]
     @ lit '' the recording appears to be silent or empty.''"

text \<open>Decimal form of an integer.\<close>

definition js_of_int :: "int \<Rightarrow> js" where
  "js_of_int i = (if i < 0 then lit ''-'' @ js_of_nat (nat (- i)) else js_of_nat (nat i))"

definition malformedMessage :: "js \<Rightarrow> js" where
  "malformedMessage issues = lit ''Report compiler returned malformed output after one retry:'' @ nl @ issues"

definition stageTimeoutMessage :: "js \<Rightarrow> int \<Rightarrow> js" where
  "stageTimeoutMessage stage ms =
     lit ''Stage '' @ [34] @ stage @ [34] @ lit '' exceeded '' @ js_of_int ms @ lit ''ms timeout''"

fun err_message :: "err \<Rightarrow> js" where
  "err_message (HttpException k m) = m"
| "err_message (ValidationFailed ms) = lit ''Bad Request Exception''"
| "err_message (PrismaKnown c m) = m"
| "err_message (PrismaValidation m) = m"
| "err_message (UnrecoverableError m) = m"
| "err_message EmptyTranscriptError = EMPTY_TRANSCRIPT_MESSAGE"
| "err_message (MalformedReportError issues) = malformedMessage issues"
| "err_message (StageTimeoutError stage ms) = stageTimeoutMessage stage ms"
| "err_message (PlainError m) = m"
| "err_message (NonError s) = s"

section \<open>Running calls without faults\<close>

lemma run_remote: "faults w = [] \<Longrightarrow> run (remote f) w = f w"
  by (simp add: remote_def)

lemma run_query [simp]: "faults w = [] \<Longrightarrow> run (query f) w = (Inr (f w), w)"
  by (simp add: query_def run_remote)

lemma run_command [simp]: "faults w = [] \<Longrightarrow> run (command f) w = (Inr (), f w)"
  by (simp add: command_def run_remote)

lemma run_transaction: "faults w = [] \<Longrightarrow> run (transaction f) w =
    (case f w of (Inl e, w') \<Rightarrow> (Inl e, w\<lparr>entropy := entropy w'\<rparr>) | (Inr a, w') \<Rightarrow> (Inr a, w'))"
  by (simp add: transaction_def run_remote)

lemma run_now [simp]: "run now w = (Inr (clock w), w)"
  by (simp add: now_def)

lemma run_draw [simp]: "run draw w = (Inr (entropy w), w\<lparr>entropy := Suc (entropy w)\<rparr>)"
  by (simp add: draw_def)

section \<open>A concrete instance\<close>

text \<open>
  An empty world, and a concrete \<open>app\<close>: identifiers and tokens are unary numerals, digests keep
  their input, JWTs and URLs are spelled out, the models answer the same at every call. The
  witnesses run the handlers on it.
\<close>

definition emptyWorld :: world where
  "emptyWorld = \<lparr>users = [], tokens = [], jobs = [], sections = [], findings = [], events = [],
     bucket = Map.empty, queue = [], dlq = [], clock = 0, entropy = 0, modelCalls = 0,
     faults = [], deadlines = []\<rparr>"

definition sampleConfig :: AppConfig where
  "sampleConfig = \<lparr>
     nodeEnv = lit ''development'', isProduction = False, isTest = False, port = 8080,
     appBaseUrl = lit ''http://localhost:8080'', corsOrigins = [lit ''*''], logLevel = lit ''info'',
     databaseUrl = lit ''postgresql://db'', redisUrl = lit ''redis://cache'',
     r2 = \<lparr>accountId = lit ''acct'', accessKeyId = lit ''key'', secretAccessKey = lit ''secret'',
           r2_bucket = lit ''fieldnote'', endpoint = lit ''https://r2'', forcePathStyle = False,
           presignPutTtl = 3600, presignGetTtl = 900, audioRetentionDays = 30\<rparr>,
     ai = \<lparr>useMock = False, transcriptionProvider = lit ''deepgram'', deepgramApiKey = lit ''dg'',
           deepgramModel = lit ''nova-3'', openaiApiKey = [], openaiTranscribeModel = lit ''gpt'',
           deepseekApiKey = lit ''ds'', deepseekBaseUrl = lit ''https://api.deepseek.com'',
           reportModel = lit ''deepseek-chat'', maxAudioSeconds = 5400, workerConcurrency = 2,
           stageTimeoutMs = 180000, jobMaxAttempts = 3\<rparr>,
     apple = \<lparr>teamId = lit ''T'', keyId = lit ''K'', clientId = lit ''client'', privateKey = lit ''P'',
           devBypass = False\<rparr>,
     jwt = \<lparr>accessSecret = lit ''access'', refreshSecret = lit ''refresh'', accessTtl = 900,
           refreshTtl = 2592000\<rparr>,
     bullBoard = \<lparr>bb_user = [], bb_password = [], bb_enabled = False\<rparr>\<rparr>"

definition sampleReport :: json where
  "sampleReport = JObj [(lit ''sections'', JArr
     [JObj [(lit ''title'', JStr (lit ''Roof'')),
            (lit ''findings'', JArr
               [JObj [(lit ''text'', JStr (lit ''lifted'')), (lit ''severity'', JStr (lit ''repair''))],
                JObj [(lit ''text'', JStr (lit ''open'')), (lit ''severity'', JStr (lit ''safety''))]])]])]"

definition sampleApp :: app where
  "sampleApp = \<lparr>
     cfg = sampleConfig,
     uuid = (\<lambda>n. replicate (Suc n) 105),
     randomToken = (\<lambda>n. replicate (Suc n) 114),
     hmacSha256Hex = (\<lambda>k m. k @ m),
     sha256Hex = (\<lambda>m. lit ''h'' @ m),
     signJwt = (\<lambda>k p. lit ''jwt''),
     jwtVerify = (\<lambda>k iss aud t tok. if tok = lit ''good''
        then Some [(lit ''type'', JStr (lit ''access'')), (lit ''sub'', JStr (lit ''u1''))] else None),
     appleJwtVerify = (\<lambda>iss aud t tok. if tok = lit ''apple''
        then Some [(lit ''sub'', JStr (lit ''s1'')), (lit ''nonce'', JStr (lit ''n''))] else None),
     decodeJwt = (\<lambda>tok. None),
     getSignedUrl = (\<lambda>op ttl t. lit ''https://signed''),
     libraryMessage = (\<lambda>c. c), noBody = (\<lambda>key. False),
     cursorAbsent = (\<lambda>c n k. Inr []),
     deepgram = (\<lambda>n body model lang. DgResult (Some (lit ''the roof leaks''))),
     openaiTranscribe = (\<lambda>n body name model lang. OaString (lit ''the roof leaks'')),
     chatCompletion = (\<lambda>n r. Inr [\<lparr>cc_toolCalls = Some
        [\<lparr>tc_name = lit ''emit_inspection_report'', tc_arguments = lit ''{}''\<rparr>]\<rparr>]),
     jsonParse = (\<lambda>s. Some sampleReport),
     zodMessageOf = (\<lambda>c. lit ''invalid''),
     chromiumPdf = (\<lambda>n html. Inr [1, 2, 3]),
     charCount = length,
     isUUID = (\<lambda>s. s \<noteq> [])\<rparr>"

end
