(* ===== verification/Media.thy ===== *)
theory Media
  imports World
begin

text \<open>
  Object storage, \<^verbatim>\<open>server/src/media/media.service.ts\<close>: the key scheme, presigned URLs (a local
  computation) and the object operations on the R2 bucket. The S3 client's construction is not
  modelled; an S3 failure is a fault of the schedule, a missing object the error NoSuchKey.
\<close>

section \<open>Operations\<close>

definition AUDIO_CONTENT_TYPE :: js where
  "AUDIO_CONTENT_TYPE = lit ''audio/m4a''"

definition PDF_CONTENT_TYPE :: js where
  "PDF_CONTENT_TYPE = lit ''application/pdf''"

definition audioKey :: "js \<Rightarrow> js \<Rightarrow> js" where
  "audioKey userId jobId = lit ''audio/'' @ userId @ lit ''/'' @ jobId @ lit ''.m4a''"

definition pdfKey :: "js \<Rightarrow> js \<Rightarrow> js" where
  "pdfKey userId jobId = lit ''pdf/'' @ userId @ lit ''/'' @ jobId @ lit ''.pdf''"

definition presignAudioUpload :: "app \<Rightarrow> js \<Rightarrow> js \<Rightarrow> PresignedUpload io" where
  "presignAudioUpload A userId jobId =
     (let key = audioKey userId jobId; c = r2 (cfg A) in
      bindP now (\<lambda>t.
        Ret \<lparr>pu_url = getSignedUrl A (PutOp (r2_bucket c) key AUDIO_CONTENT_TYPE) (presignPutTtl c) t,
             pu_key = key, pu_contentType = AUDIO_CONTENT_TYPE,
             pu_expiresInSeconds = nat (presignPutTtl c)\<rparr>))"

definition presignPdfDownload :: "app \<Rightarrow> js \<Rightarrow> PdfUrlDto io" where
  "presignPdfDownload A key =
     (let c = r2 (cfg A) in
      bindP now (\<lambda>t.
        Ret \<lparr>pd_url = getSignedUrl A (GetOp (r2_bucket c) key) (presignGetTtl c) t,
             pd_expiresInSeconds = nat (presignGetTtl c)\<rparr>))"

definition objectExists :: "js \<Rightarrow> bool io" where
  "objectExists key = query (\<lambda>w. bucket w key \<noteq> None)"

definition getObjectStream :: "app \<Rightarrow> js \<Rightarrow> bytes io" where
  "getObjectStream A key = remote (\<lambda>w.
     case bucket w key of
       None \<Rightarrow> (Inl (PlainError (libraryMessage A (lit ''NoSuchKey''))), w)
     | Some ob \<Rightarrow>
         (if noBody A key then Inl (PlainError (lit ''Object '' @ key @ lit '' has no body'')) else Inr (o_body ob), w))"

definition putObject :: "js \<Rightarrow> bytes \<Rightarrow> js \<Rightarrow> unit io" where
  "putObject key body contentType =
     command (\<lambda>w. w\<lparr>bucket := (bucket w)(key \<mapsto> \<lparr>o_body = body, o_contentType = contentType\<rparr>)\<rparr>)"

definition deleteObjects :: "js list \<Rightarrow> unit io" where
  "deleteObjects keys =
     (let present = filter (\<lambda>k. length k > 0) keys in
      if length present = 0 then Ret ()
      else command (\<lambda>w. w\<lparr>bucket := (bucket w) |` (- set present)\<rparr>))"

section \<open>Keys never collide\<close>

text \<open>
  The slash separates the fields, so as long as the user id holds none, a key determines its
  user and its job; and no audio key is a PDF key.
\<close>

lemma audioKey_split:
  assumes "47 \<notin> set u" and "47 \<notin> set j"
  shows "js_split 47 (audioKey u j) = [lit ''audio'', u, j @ lit ''.m4a'']"
proof -
  have "audioKey u j = lit ''audio'' @ 47 # (u @ 47 # (j @ lit ''.m4a''))"
    by (simp add: audioKey_def lit_unfold)
  then show ?thesis
    using assms by (simp add: js_split_append js_split_notin lit_unfold)
qed

lemma pdfKey_split:
  assumes "47 \<notin> set u" and "47 \<notin> set j"
  shows "js_split 47 (pdfKey u j) = [lit ''pdf'', u, j @ lit ''.pdf'']"
proof -
  have "pdfKey u j = lit ''pdf'' @ 47 # (u @ 47 # (j @ lit ''.pdf''))"
    by (simp add: pdfKey_def lit_unfold)
  then show ?thesis
    using assms by (simp add: js_split_append js_split_notin lit_unfold)
qed

lemma audioKey_inj:
  assumes "47 \<notin> set u" "47 \<notin> set j" "47 \<notin> set v" "47 \<notin> set k" and "audioKey u j = audioKey v k"
  shows "u = v \<and> j = k"
proof -
  have "[lit ''audio'', u, j @ lit ''.m4a''] = [lit ''audio'', v, k @ lit ''.m4a'']"
    using audioKey_split [OF assms(1,2)] audioKey_split [OF assms(3,4)] assms(5) by metis
  then show ?thesis by simp
qed

lemma pdfKey_inj:
  assumes "47 \<notin> set u" "47 \<notin> set j" "47 \<notin> set v" "47 \<notin> set k" and "pdfKey u j = pdfKey v k"
  shows "u = v \<and> j = k"
proof -
  have "[lit ''pdf'', u, j @ lit ''.pdf''] = [lit ''pdf'', v, k @ lit ''.pdf'']"
    using pdfKey_split [OF assms(1,2)] pdfKey_split [OF assms(3,4)] assms(5) by metis
  then show ?thesis by simp
qed

lemma audioKey_neq_pdfKey [simp]: "audioKey u j \<noteq> pdfKey v k"
  by (simp add: audioKey_def pdfKey_def lit_unfold)

lemma keys_not_Nil [simp]: "audioKey u j \<noteq> []" "pdfKey u j \<noteq> []"
  by (simp_all add: audioKey_def pdfKey_def lit_unfold)

text \<open>
  Objects of different jobs or users never share a key: two audio keys, and two PDF keys, are
  equal only for the same user and job, provided the ids contain no slash; an audio key is never
  a PDF key.
\<close>

theorem object_keys_disjoint:
  assumes "47 \<notin> set u" and "47 \<notin> set j" and "47 \<notin> set v" and "47 \<notin> set k"
  shows "(audioKey u j = audioKey v k \<longleftrightarrow> u = v \<and> j = k)
    \<and> (pdfKey u j = pdfKey v k \<longleftrightarrow> u = v \<and> j = k) \<and> audioKey u j \<noteq> pdfKey v k"
  using audioKey_inj [OF assms] pdfKey_inj [OF assms] audioKey_neq_pdfKey by blast

theorem object_keys_disjoint_witness:
  "audioKey (lit ''u1'') (lit ''j1'') \<noteq> audioKey (lit ''u1'') (lit ''j2'')"
proof -
  have "47 \<notin> set (lit ''u1'')" "47 \<notin> set (lit ''j1'')" "47 \<notin> set (lit ''j2'')"
    by (simp_all add: lit_unfold)
  then show ?thesis using object_keys_disjoint [of "lit ''u1''" "lit ''j1''" "lit ''u1''" "lit ''j2''"]
    by simp
qed

section \<open>Running without faults\<close>

lemma run_presignAudioUpload [simp]:
  "run (presignAudioUpload A u j) w =
     (Inr \<lparr>pu_url = getSignedUrl A (PutOp (r2_bucket (r2 (cfg A))) (audioKey u j) AUDIO_CONTENT_TYPE)
             (presignPutTtl (r2 (cfg A))) (clock w),
           pu_key = audioKey u j, pu_contentType = AUDIO_CONTENT_TYPE,
           pu_expiresInSeconds = nat (presignPutTtl (r2 (cfg A)))\<rparr>, w)"
  by (simp add: presignAudioUpload_def Let_def)

lemma run_presignPdfDownload [simp]:
  "run (presignPdfDownload A k) w =
     (Inr \<lparr>pd_url = getSignedUrl A (GetOp (r2_bucket (r2 (cfg A))) k) (presignGetTtl (r2 (cfg A))) (clock w),
           pd_expiresInSeconds = nat (presignGetTtl (r2 (cfg A)))\<rparr>, w)"
  by (simp add: presignPdfDownload_def Let_def)

lemma run_objectExists [simp]:
  "faults w = [] \<Longrightarrow> run (objectExists k) w = (Inr (bucket w k \<noteq> None), w)"
  by (simp add: objectExists_def)

lemma run_getObjectStream: "faults w = [] \<Longrightarrow> bucket w k = Some ob \<Longrightarrow> \<not> noBody A k \<Longrightarrow>
    run (getObjectStream A k) w = (Inr (o_body ob), w)"
  by (simp add: getObjectStream_def run_remote)

lemma run_putObject [simp]: "faults w = [] \<Longrightarrow>
    run (putObject k body ct) w =
      (Inr (), w\<lparr>bucket := (bucket w)(k \<mapsto> \<lparr>o_body = body, o_contentType = ct\<rparr>)\<rparr>)"
  by (simp add: putObject_def)

lemma restrict_all: "(\<And>k. k \<in> dom m \<Longrightarrow> k \<in> S) \<Longrightarrow> m |` S = m"
  by (rule ext) (metis domIff restrict_map_def)

lemma run_deleteObjects: "faults w = [] \<Longrightarrow>
    run (deleteObjects ks) w =
      (Inr (), if set ks \<subseteq> {[]} then w else w\<lparr>bucket := (bucket w) |` (- (set ks - {[]}))\<rparr>)"
proof -
  assume f: "faults w = []"
  have set: "set (filter (\<lambda>k. length k > 0) ks) = set ks - {[]}" by auto
  have "length (filter (\<lambda>k. length k > 0) ks) = 0 \<longleftrightarrow> set ks \<subseteq> {[]}"
    by (auto simp: filter_empty_conv)
  with f set show ?thesis by (simp only: deleteObjects_def Let_def run_if run_command) simp
qed

end
