(* ===== verification/Queueing.thy ===== *)
theory Queueing
  imports World
begin

text \<open>
  The producer side of the pipeline, \<^verbatim>\<open>server/src/queue/processing-queue.service.ts\<close>, on the
  state of a BullMQ queue: its jobs by id, each with its state and attempt counters. BullMQ's
  operations act by their documented effect: \<^verbatim>\<open>add\<close> with the id of an existing job does nothing,
  \<^verbatim>\<open>remove\<close> refuses a job that a worker holds.
\<close>

section \<open>BullMQ operations\<close>

definition getJob :: "js \<Rightarrow> bull_job option io" where
  "getJob i = query (\<lambda>w. find (\<lambda>b. b_id b = i) (queue w))"

text \<open>The state of a job that is gone is unknown (\<open>None\<close>).\<close>

definition getState :: "bull_job \<Rightarrow> bull_state option io" where
  "getState b = query (\<lambda>w. map_option b_state (find (\<lambda>c. b_id c = b_id b) (queue w)))"

definition removeJob :: "app \<Rightarrow> bull_job \<Rightarrow> unit io" where
  "removeJob A b = remote (\<lambda>w.
     if \<exists>c \<in> set (queue w). b_id c = b_id b \<and> b_state c = BActive
     then (Inl (PlainError (libraryMessage A (lit ''locked''))), w)
     else (Inr (), w\<lparr>queue := filter (\<lambda>c. b_id c \<noteq> b_id b) (queue w)\<rparr>))"

definition addJob :: "ProcessJobData \<Rightarrow> js \<Rightarrow> nat \<Rightarrow> unit io" where
  "addJob d i n = command (\<lambda>w.
     if i \<in> b_id ` set (queue w) then w
     else w\<lparr>queue := queue w @
       [\<lparr>b_id = i, b_data = d, b_attempts = n, b_attemptsMade = 0, b_state = BWaiting\<rparr>]\<rparr>)"

section \<open>Enqueueing\<close>

definition enqueueProcessing :: "app \<Rightarrow> ProcessJobData \<Rightarrow> unit io" where
  "enqueueProcessing A d =
     (let add = addJob d (pj_jobId d) (nat (jobMaxAttempts (ai (cfg A)))) in
      bindP (getJob (pj_jobId d)) (\<lambda>existing.
        case existing of
          None \<Rightarrow> add
        | Some b \<Rightarrow>
            bindP (getState b) (\<lambda>state.
              if state = Some BCompleted \<or> state = Some BFailed
              then seqP (removeJob A b) add
              else Ret ())))"

section \<open>Lemmas\<close>

text \<open>The queue holds at most one job per id.\<close>

definition queue_inv :: "world \<Rightarrow> bool" where
  "queue_inv w \<longleftrightarrow> distinct (map b_id (queue w))"

lemma find_b_id:
  "distinct (map b_id q) \<Longrightarrow> b \<in> set q \<Longrightarrow> find (\<lambda>c. b_id c = b_id b) q = Some b"
  by (rule find_distinct [where k = b_id]) auto

text \<open>What a fault-free enqueue does, by the state of the job with that id.\<close>

lemma enqueue_new:
  assumes "faults w = []" and "pj_jobId d \<notin> b_id ` set (queue w)"
  shows "run (enqueueProcessing A d) w =
    (Inr (), w\<lparr>queue := queue w @ [\<lparr>b_id = pj_jobId d, b_data = d,
       b_attempts = nat (jobMaxAttempts (ai (cfg A))), b_attemptsMade = 0, b_state = BWaiting\<rparr>]\<rparr>)"
proof -
  have "find (\<lambda>b. b_id b = pj_jobId d) (queue w) = None"
    using assms(2) by (metis (mono_tags, lifting) find_None_iff imageI)
  with assms show ?thesis by (simp add: enqueueProcessing_def getJob_def addJob_def Let_def)
qed

lemma enqueue_in_flight:
  assumes "faults w = []" and "queue_inv w" and "b \<in> set (queue w)" and "b_id b = pj_jobId d"
    and "b_state b \<notin> {BCompleted, BFailed}"
  shows "run (enqueueProcessing A d) w = (Inr (), w)"
proof -
  have "find (\<lambda>c. b_id c = pj_jobId d) (queue w) = Some b"
    using assms find_b_id by (metis queue_inv_def)
  with assms show ?thesis
    by (simp add: enqueueProcessing_def getJob_def getState_def Let_def)
qed

lemma enqueue_settled:
  assumes "faults w = []" and "queue_inv w" and "b \<in> set (queue w)" and "b_id b = pj_jobId d"
    and "b_state b \<in> {BCompleted, BFailed}"
  shows "run (enqueueProcessing A d) w =
    (Inr (), w\<lparr>queue := filter (\<lambda>c. b_id c \<noteq> pj_jobId d) (queue w) @ [\<lparr>b_id = pj_jobId d, b_data = d,
       b_attempts = nat (jobMaxAttempts (ai (cfg A))), b_attemptsMade = 0, b_state = BWaiting\<rparr>]\<rparr>)"
proof -
  have f: "find (\<lambda>c. b_id c = pj_jobId d) (queue w) = Some b"
    using assms find_b_id by (metis queue_inv_def)
  have "\<not> (\<exists>c \<in> set (queue w). b_id c = pj_jobId d \<and> b_state c = BActive)"
  proof
    assume "\<exists>c \<in> set (queue w). b_id c = pj_jobId d \<and> b_state c = BActive"
    then obtain c where "c \<in> set (queue w)" "b_id c = pj_jobId d" "b_state c = BActive" by blast
    with assms(2-4) have "c = b" by (metis find_b_id option.inject queue_inv_def)
    with \<open>b_state c = BActive\<close> assms(5) show False by auto
  qed
  with f assms show ?thesis
    by (auto simp: enqueueProcessing_def getJob_def getState_def removeJob_def addJob_def Let_def
        run_remote)
qed

text \<open>In every case the queue ends with a live job of that id, and ids stay distinct.\<close>

lemma enqueue_queued:
  assumes "faults w = []" and "queue_inv w"
  shows "\<exists>q. run (enqueueProcessing A d) w = (Inr (), w\<lparr>queue := q\<rparr>) \<and> distinct (map b_id q)
    \<and> (\<exists>b \<in> set q. b_id b = pj_jobId d \<and> b_state b \<notin> {BCompleted, BFailed})"
proof -
  have dist: "distinct (map b_id (queue w))" using assms(2) by (simp add: queue_inv_def)
  consider (new) "pj_jobId d \<notin> b_id ` set (queue w)"
    | (in_flight) b where "b \<in> set (queue w)" "b_id b = pj_jobId d" "b_state b \<notin> {BCompleted, BFailed}"
    | (settled) b where "b \<in> set (queue w)" "b_id b = pj_jobId d" "b_state b \<in> {BCompleted, BFailed}"
    by force
  then show ?thesis
  proof cases
    case new
    show ?thesis by (intro exI conjI, rule enqueue_new [OF assms(1) new]) (use dist new in auto)
  next
    case in_flight
    with enqueue_in_flight [OF assms in_flight] dist show ?thesis by (intro exI [of _ "queue w"]) auto
  next
    case settled
    show ?thesis by (intro exI conjI, rule enqueue_settled [OF assms settled])
      (use dist in \<open>auto simp: distinct_map_filter\<close>)
  qed
qed

lemma filter_one:
  assumes "distinct (map b_id q)" and "i \<in> b_id ` set q"
  shows "length (filter (\<lambda>b. b_id b = i) q) = 1"
  using assms
proof (induction q)
  case (Cons a q)
  show ?case
  proof (cases "b_id a = i")
    case True
    with Cons.prems(1) have "filter (\<lambda>b. b_id b = i) q = []"
      by (simp add: filter_empty_conv) (metis imageI)
    with True show ?thesis by simp
  qed (use Cons in auto)
qed simp

text \<open>
  Enqueueing is idempotent: after an enqueue of a job without faults, the queue holds exactly
  one job with its id, and enqueueing again changes nothing.
\<close>

theorem enqueue_idempotent:
  assumes "faults w = []" and "queue_inv w"
  shows "length (filter (\<lambda>b. b_id b = pj_jobId d) (queue (snd (run (enqueueProcessing A d) w)))) = 1
    \<and> run (enqueueProcessing A d) (snd (run (enqueueProcessing A d) w))
      = (Inr (), snd (run (enqueueProcessing A d) w))"
proof -
  from enqueue_queued [OF assms] obtain q b where q: "run (enqueueProcessing A d) w = (Inr (), w\<lparr>queue := q\<rparr>)"
    "distinct (map b_id q)" and b: "b \<in> set q" "b_id b = pj_jobId d" "b_state b \<notin> {BCompleted, BFailed}" by blast
  from b have "pj_jobId d \<in> b_id ` set q" by (metis imageI)
  moreover have "run (enqueueProcessing A d) (w\<lparr>queue := q\<rparr>) = (Inr (), w\<lparr>queue := q\<rparr>)"
    by (rule enqueue_in_flight) (use assms(1) q(2) b in \<open>simp_all add: queue_inv_def\<close>)
  ultimately show ?thesis using q filter_one by simp
qed

theorem enqueue_idempotent_witness:
  "length (filter (\<lambda>b. b_id b = lit ''j1'')
     (queue (snd (run (enqueueProcessing sampleApp \<lparr>pj_jobId = lit ''j1'', pj_userId = lit ''u1''\<rparr>)
                   emptyWorld)))) = 1"
proof -
  have "faults emptyWorld = []" "queue_inv emptyWorld" by (simp_all add: emptyWorld_def queue_inv_def)
  from enqueue_idempotent [OF this, of "\<lparr>pj_jobId = lit ''j1'', pj_userId = lit ''u1''\<rparr>"]
  show ?thesis by simp
qed

end
