(* ===== verification/Jobs_Repository.thy ===== *)
theory Jobs_Repository
  imports World
begin

text \<open>
  All persistence of jobs, sections, findings and events:
  \<^verbatim>\<open>server/src/jobs/jobs.repository.ts\<close>, one definition per method. A Prisma call is a function on
  the tables; the constraints of the schema (primary keys, unique indexes, foreign keys) are
  checked where a row is created and refuse with the Prisma codes P2002 and P2003; an update of
  a missing row refuses with P2025.
\<close>

section \<open>Prisma errors\<close>

definition prismaKnown :: "app \<Rightarrow> string \<Rightarrow> err" where
  "prismaKnown A code = PrismaKnown (lit code) (libraryMessage A (lit code))"

definition prismaValidation :: "app \<Rightarrow> err" where
  "prismaValidation A = PrismaValidation (libraryMessage A (lit ''validation''))"

section \<open>A job with its report\<close>

record JobWithReport =
  jr_row :: job_row
  jr_sections :: "(section_row \<times> finding_row list) list"

text \<open>\<^verbatim>\<open>JOB_REPORT_INCLUDE\<close>: sections and findings in ascending \<^verbatim>\<open>sortOrder\<close>.\<close>

definition sectionsOf :: "world \<Rightarrow> js \<Rightarrow> section_row list" where
  "sectionsOf w jobId = sort_key s_sortOrder (filter (\<lambda>s. s_jobId s = jobId) (sections w))"

definition findingsOf :: "world \<Rightarrow> js \<Rightarrow> finding_row list" where
  "findingsOf w sectionId = sort_key f_sortOrder (filter (\<lambda>f. f_sectionId f = sectionId) (findings w))"

definition JOB_REPORT_INCLUDE :: "world \<Rightarrow> job_row \<Rightarrow> JobWithReport" where
  "JOB_REPORT_INCLUDE w j =
     \<lparr>jr_row = j, jr_sections = map (\<lambda>s. (s, findingsOf w (s_id s))) (sectionsOf w (j_id j))\<rparr>"

section \<open>Steps inside a transaction\<close>

type_synonym 'a tx = "world \<Rightarrow> (err + 'a) \<times> world"

definition txBind :: "'a tx \<Rightarrow> ('a \<Rightarrow> 'b tx) \<Rightarrow> 'b tx" where
  "txBind f g = (\<lambda>w. case f w of (Inl e, w') \<Rightarrow> (Inl e, w') | (Inr a, w') \<Rightarrow> g a w')"

text \<open>
  \<^verbatim>\<open>finding.deleteMany({ where: { section: { jobId } } })\<close> and \<^verbatim>\<open>reportSection.deleteMany\<close>.
\<close>

definition deleteFindings :: "js \<Rightarrow> unit tx" where
  "deleteFindings jobId = (\<lambda>w. (Inr (), w\<lparr>findings := filter
     (\<lambda>f. \<not> (\<exists>s \<in> set (sections w). s_id s = f_sectionId f \<and> s_jobId s = jobId)) (findings w)\<rparr>))"

definition deleteSections :: "js \<Rightarrow> unit tx" where
  "deleteSections jobId = (\<lambda>w. (Inr (), w\<lparr>sections := filter (\<lambda>s. s_jobId s \<noteq> jobId) (sections w)\<rparr>))"

definition createSection :: "app \<Rightarrow> js \<Rightarrow> js \<Rightarrow> int \<Rightarrow> js tx" where
  "createSection A jobId title sortOrder = (\<lambda>w.
     let i = uuid A (entropy w); w1 = w\<lparr>entropy := Suc (entropy w)\<rparr> in
     if i \<in> s_id ` set (sections w) then (Inl (prismaKnown A ''P2002''), w1)
     else if jobId \<notin> j_id ` set (jobs w) then (Inl (prismaKnown A ''P2003''), w1)
     else (Inr i, w1\<lparr>sections := sections w @
            [\<lparr>s_id = i, s_jobId = jobId, s_title = title, s_sortOrder = sortOrder\<rparr>]\<rparr>))"

fun findingRows :: "app \<Rightarrow> js \<Rightarrow> nat \<Rightarrow> int \<Rightarrow> ReportFindingInput list \<Rightarrow> finding_row list" where
  "findingRows A sectionId n i [] = []"
| "findingRows A sectionId n i (f # fs) =
     \<lparr>f_id = uuid A n, f_sectionId = sectionId, f_text = rf_text f, f_severity = rf_severity f,
      f_sortOrder = i\<rparr> # findingRows A sectionId (Suc n) (i + 1) fs"

definition createFindings :: "app \<Rightarrow> js \<Rightarrow> ReportFindingInput list \<Rightarrow> unit tx" where
  "createFindings A sectionId fs = (\<lambda>w.
     let rows = findingRows A sectionId (entropy w) 0 fs;
         w1 = w\<lparr>entropy := entropy w + length fs\<rparr> in
     if distinct (map f_id (findings w @ rows))
     then (Inr (), w1\<lparr>findings := findings w @ rows\<rparr>)
     else (Inl (prismaKnown A ''P2002''), w1))"

text \<open>\<^verbatim>\<open>insertSections\<close>, the loop from position \<open>s\<close> on.\<close>

fun insertSections :: "app \<Rightarrow> js \<Rightarrow> int \<Rightarrow> ReportSectionInput list \<Rightarrow> unit tx" where
  "insertSections A jobId s [] = (\<lambda>w. (Inr (), w))"
| "insertSections A jobId s (sec # rest) =
     txBind (createSection A jobId (rs_title sec) s) (\<lambda>created.
     txBind (if length (rs_findings sec) > 0
             then createFindings A created (rs_findings sec) else (\<lambda>w. (Inr (), w))) (\<lambda>_.
     insertSections A jobId (s + 1) rest))"

section \<open>Methods for the API, scoped by user\<close>

abbreviation visible :: "js \<Rightarrow> job_row \<Rightarrow> bool" where
  "visible userId j \<equiv> j_userId j = userId \<and> j_deletedAt j = None"

definition draftRow :: "js \<Rightarrow> js \<Rightarrow> js \<Rightarrow> js \<Rightarrow> js option \<Rightarrow> nat \<Rightarrow> job_row" where
  "draftRow i userId label audioKey idempotencyKey t =
     \<lparr>j_id = i, j_userId = userId, j_label = label, j_status = CREATED,
      j_transcript = None, j_audioKey = Some audioKey, j_pdfKey = None,
      j_errorMessage = None, j_idempotencyKey = idempotencyKey,
      j_createdAt = t, j_updatedAt = t, j_deletedAt = None\<rparr>"

text \<open>A row with that id, or of that user with that idempotency key, whether deleted or not.\<close>

definition conflicts :: "js \<Rightarrow> js \<Rightarrow> js option \<Rightarrow> job_row \<Rightarrow> bool" where
  "conflicts i userId idempotencyKey j \<longleftrightarrow> j_id j = i
     \<or> (idempotencyKey \<noteq> None \<and> j_userId j = userId \<and> j_idempotencyKey j = idempotencyKey)"

definition createDraft ::
    "app \<Rightarrow> js \<Rightarrow> js \<Rightarrow> js \<Rightarrow> js \<Rightarrow> js option \<Rightarrow> JobWithReport io" where
  "createDraft A i userId label audioKey idempotencyKey = remote (\<lambda>w.
     let row = draftRow i userId label audioKey idempotencyKey (clock w) in
     if \<exists>j \<in> set (jobs w). conflicts i userId idempotencyKey j
     then (Inl (prismaKnown A ''P2002''), w)
     else if userId \<notin> u_id ` set (users w) then (Inl (prismaKnown A ''P2003''), w)
     else (let w' = w\<lparr>jobs := jobs w @ [row]\<rparr> in (Inr (JOB_REPORT_INCLUDE w' row), w')))"

definition findByIdempotencyKey :: "js \<Rightarrow> js \<Rightarrow> JobWithReport option io" where
  "findByIdempotencyKey userId key = query (\<lambda>w. map_option (JOB_REPORT_INCLUDE w)
     (find (\<lambda>j. visible userId j \<and> j_idempotencyKey j = Some key) (jobs w)))"

definition findScoped :: "js \<Rightarrow> js \<Rightarrow> JobWithReport option io" where
  "findScoped userId jobId = query (\<lambda>w. map_option (JOB_REPORT_INCLUDE w)
     (find (\<lambda>j. j_id j = jobId \<and> visible userId j) (jobs w)))"

text \<open>
  The page of a user's visible jobs, newest first with the id as tie-break. A cursor that is one
  of them is skipped over; what Prisma answers for any other cursor is the parameter
  \<open>cursorAbsent\<close>: an error, or a choice of positions among the rows of the \<^verbatim>\<open>where\<close> clause.
\<close>

definition listing :: "world \<Rightarrow> js \<Rightarrow> job_row list" where
  "listing w userId = rev (sort_key (\<lambda>j. (j_createdAt j, j_id j)) (filter (visible userId) (jobs w)))"

definition pageOf :: "app \<Rightarrow> js option \<Rightarrow> nat \<Rightarrow> job_row list \<Rightarrow> err + job_row list" where
  "pageOf A cursor limit rows =
     (case cursor of
        None \<Rightarrow> Inr (take limit rows)
      | Some c \<Rightarrow>
          if \<not> truthy c then Inr (take limit rows)
          else if c \<in> j_id ` set rows
          then Inr (take limit (drop 1 (dropWhile (\<lambda>j. j_id j \<noteq> c) rows)))
          else (case cursorAbsent A c (length rows) limit of
                  Inl e \<Rightarrow> Inl e
                | Inr is \<Rightarrow> Inr (map (\<lambda>i. rows ! i) (filter (\<lambda>i. i < length rows) (take limit is)))))"

definition listScoped :: "app \<Rightarrow> js \<Rightarrow> js option \<Rightarrow> nat \<Rightarrow> JobWithReport list io" where
  "listScoped A userId cursor limit = remote (\<lambda>w.
     (case pageOf A cursor limit (listing w userId) of
        Inl e \<Rightarrow> Inl e | Inr js \<Rightarrow> Inr (map (JOB_REPORT_INCLUDE w) js), w))"

lemma pageOf_subset: "pageOf A cursor limit rows = Inr js \<Longrightarrow> set js \<subseteq> set rows"
  by (auto simp: pageOf_def split: option.splits if_splits sum.splits
      dest: in_set_takeD in_set_dropD set_dropWhileD)

text \<open>A scoped \<^verbatim>\<open>updateMany\<close>; Prisma refreshes \<^verbatim>\<open>updatedAt\<close> on every update.\<close>

definition touch :: "world \<Rightarrow> job_row \<Rightarrow> job_row" where
  "touch w j = j\<lparr>j_updatedAt := clock w\<rparr>"

definition updateLabelScoped :: "app \<Rightarrow> js \<Rightarrow> js \<Rightarrow> js field \<Rightarrow> unit io" where
  "updateLabelScoped A userId jobId label = remote (\<lambda>w.
     case label of
       Null \<Rightarrow> (Inl (prismaValidation A), w)
     | Undefined \<Rightarrow> (Inr (), w\<lparr>jobs := upd (\<lambda>j. j_id j = jobId \<and> visible userId j) (touch w) (jobs w)\<rparr>)
     | Given l \<Rightarrow> (Inr (), w\<lparr>jobs := upd (\<lambda>j. j_id j = jobId \<and> visible userId j)
                     (\<lambda>j. touch w (j\<lparr>j_label := l\<rparr>)) (jobs w)\<rparr>))"

definition setLabel :: "app \<Rightarrow> js \<Rightarrow> js \<Rightarrow> js field \<Rightarrow> unit tx" where
  "setLabel A userId jobId label = (\<lambda>w.
     if label = Null then (Inl (prismaValidation A), w)
     else if \<not> (\<exists>j \<in> set (jobs w). j_id j = jobId \<and> j_userId j = userId)
     then (Inl (prismaKnown A ''P2025''), w)
     else (Inr (), w\<lparr>jobs := upd (\<lambda>j. j_id j = jobId \<and> j_userId j = userId)
             (\<lambda>j. touch w (case label of Given l \<Rightarrow> j\<lparr>j_label := l\<rparr> | _ \<Rightarrow> j)) (jobs w)\<rparr>))"

definition replaceReportScoped ::
    "app \<Rightarrow> js \<Rightarrow> js \<Rightarrow> js field \<Rightarrow> ReportSectionInput list \<Rightarrow> unit io" where
  "replaceReportScoped A userId jobId label secs = transaction (\<lambda>w.
     if \<not> (\<exists>j \<in> set (jobs w). j_id j = jobId \<and> visible userId j)
     then (Inl (PrismaKnown (lit ''P2025'') (lit ''Job not found'')), w)
     else txBind (deleteFindings jobId) (\<lambda>_.
          txBind (deleteSections jobId) (\<lambda>_.
          txBind (insertSections A jobId 0 secs) (\<lambda>_.
          setLabel A userId jobId label))) w)"

definition softDeleteScoped :: "js \<Rightarrow> js \<Rightarrow> nat io" where
  "softDeleteScoped userId jobId = remote (\<lambda>w.
     (Inr (length (filter (\<lambda>j. j_id j = jobId \<and> visible userId j) (jobs w))),
      w\<lparr>jobs := upd (\<lambda>j. j_id j = jobId \<and> visible userId j)
         (\<lambda>j. touch w (j\<lparr>j_deletedAt := Some (clock w)\<rparr>)) (jobs w)\<rparr>))"

section \<open>Methods for the worker, by job id\<close>

definition findById :: "js \<Rightarrow> JobWithReport option io" where
  "findById jobId = query (\<lambda>w. map_option (JOB_REPORT_INCLUDE w) (find (\<lambda>j. j_id j = jobId) (jobs w)))"

text \<open>\<^verbatim>\<open>job.update({ where: { id } })\<close>\<close>

definition updateJob :: "app \<Rightarrow> js \<Rightarrow> (job_row \<Rightarrow> job_row) \<Rightarrow> unit io" where
  "updateJob A jobId f = remote (\<lambda>w.
     if jobId \<notin> j_id ` set (jobs w) then (Inl (prismaKnown A ''P2025''), w)
     else (Inr (), w\<lparr>jobs := upd (\<lambda>j. j_id j = jobId) (\<lambda>j. touch w (f j)) (jobs w)\<rparr>))"

definition setStatus :: "app \<Rightarrow> js \<Rightarrow> JobStatus \<Rightarrow> js field \<Rightarrow> unit io" where
  "setStatus A jobId status errorMessage = updateJob A jobId (\<lambda>j.
     let j1 = j\<lparr>j_status := status\<rparr> in
     case errorMessage of
       Undefined \<Rightarrow> j1
     | Null \<Rightarrow> j1\<lparr>j_errorMessage := None\<rparr>
     | Given m \<Rightarrow> j1\<lparr>j_errorMessage := Some m\<rparr>)"

definition saveTranscript :: "app \<Rightarrow> js \<Rightarrow> js \<Rightarrow> unit io" where
  "saveTranscript A jobId transcript = updateJob A jobId (\<lambda>j. j\<lparr>j_transcript := Some transcript\<rparr>)"

definition replaceReport :: "app \<Rightarrow> js \<Rightarrow> ReportSectionInput list \<Rightarrow> unit io" where
  "replaceReport A jobId secs = transaction (
     txBind (deleteFindings jobId) (\<lambda>_.
     txBind (deleteSections jobId) (\<lambda>_.
     insertSections A jobId 0 secs)))"

definition setPdfReady :: "app \<Rightarrow> js \<Rightarrow> js \<Rightarrow> unit io" where
  "setPdfReady A jobId key = updateJob A jobId (\<lambda>j.
     j\<lparr>j_pdfKey := Some key, j_status := READY, j_errorMessage := None\<rparr>)"

definition addEvent :: "app \<Rightarrow> js \<Rightarrow> js \<Rightarrow> string \<Rightarrow> js option \<Rightarrow> unit io" where
  "addEvent A jobId stage status message = remote (\<lambda>w.
     if jobId \<notin> j_id ` set (jobs w) then (Inl (prismaKnown A ''P2003''), w)
     else (Inr (), w\<lparr>events := events w @ [\<lparr>e_jobId = jobId, e_stage = stage, e_status = lit status,
             e_message = message, e_createdAt = clock w\<rparr>]\<rparr>))"

definition rawById :: "js \<Rightarrow> job_row option io" where
  "rawById jobId = query (\<lambda>w. find (\<lambda>j. j_id j = jobId) (jobs w))"

section \<open>What a stored report reads back as\<close>

text \<open>
  The rows that \<open>insertSections\<close> creates from identifier \<open>n\<close> and position \<open>i\<close> on, and how many
  identifiers it draws.
\<close>

fun reportRows :: "app \<Rightarrow> js \<Rightarrow> nat \<Rightarrow> int \<Rightarrow> ReportSectionInput list \<Rightarrow>
    (section_row \<times> finding_row list) list" where
  "reportRows A jobId n i [] = []"
| "reportRows A jobId n i (sec # rest) =
     (\<lparr>s_id = uuid A n, s_jobId = jobId, s_title = rs_title sec, s_sortOrder = i\<rparr>,
      findingRows A (uuid A n) (Suc n) 0 (rs_findings sec))
     # reportRows A jobId (Suc n + length (rs_findings sec)) (i + 1) rest"

fun drawCount :: "ReportSectionInput list \<Rightarrow> nat" where
  "drawCount [] = 0"
| "drawCount (sec # rest) = Suc (length (rs_findings sec)) + drawCount rest"

text \<open>
  The invariant of the report tables: identifiers come from the source and are distinct, and
  every finding belongs to a section.
\<close>

definition report_tables :: "app \<Rightarrow> nat \<Rightarrow> section_row list \<Rightarrow> finding_row list \<Rightarrow> bool" where
  "report_tables A n secs fs \<longleftrightarrow>
     s_id ` set secs \<subseteq> uuid A ` {..<n} \<and> f_id ` set fs \<subseteq> uuid A ` {..<n}
     \<and> f_sectionId ` set fs \<subseteq> s_id ` set secs
     \<and> distinct (map s_id secs) \<and> distinct (map f_id fs)"

definition report_inv :: "app \<Rightarrow> world \<Rightarrow> bool" where
  "report_inv A w \<longleftrightarrow> report_tables A (entropy w) (sections w) (findings w)"

lemmas report_inv_unfold = report_inv_def report_tables_def

lemma drawn_mono: "n \<le> m \<Longrightarrow> X \<subseteq> uuid A ` {..<n} \<Longrightarrow> X \<subseteq> uuid A ` {..<m}"
  by (erule order_trans) (rule image_mono, auto)

lemma not_drawn: "inj (uuid A) \<Longrightarrow> n \<le> k \<Longrightarrow> X \<subseteq> uuid A ` {..<n} \<Longrightarrow> uuid A k \<notin> X"
  by (auto simp: inj_eq dest!: subsetD)

subsection \<open>The rows of one section\<close>

lemma length_findingRows [simp]: "length (findingRows A sid n i fs) = length fs"
  by (induction fs arbitrary: n i) auto

lemma findingRows_sectionId: "f \<in> set (findingRows A sid n i fs) \<Longrightarrow> f_sectionId f = sid"
  by (induction fs arbitrary: n i) auto

lemma findingRows_ids: "map f_id (findingRows A sid n i fs) = map (uuid A) [n..<n + length fs]"
  by (induction fs arbitrary: n i) (auto simp: upt_rec)

lemma findingRows_sorted: "sorted (map f_sortOrder (findingRows A sid n i fs))
    \<and> (\<forall>f \<in> set (findingRows A sid n i fs). i \<le> f_sortOrder f)"
  by (induction fs arbitrary: n i) (auto, force)

lemma findingRows_content:
  "map (\<lambda>f. \<lparr>rf_text = f_text f, rf_severity = f_severity f\<rparr>) (findingRows A sid n i fs) = fs"
  by (induction fs arbitrary: n i) auto

subsection \<open>Inserting succeeds on fresh identifiers\<close>

lemma uuid_fresh:
  assumes "inj (uuid A)" and "report_inv A w" and "entropy w \<le> k"
  shows "uuid A k \<notin> s_id ` set (sections w)" and "uuid A k \<notin> f_id ` set (findings w)"
    and "uuid A k \<notin> f_sectionId ` set (findings w)"
  using assms not_drawn [OF assms(1,3)] unfolding report_inv_unfold by blast+

lemma createSection_ok:
  assumes "inj (uuid A)" and "report_inv A w" and "jobId \<in> j_id ` set (jobs w)"
  shows "createSection A jobId title i w =
    (Inr (uuid A (entropy w)), w\<lparr>entropy := Suc (entropy w), sections := sections w @
       [\<lparr>s_id = uuid A (entropy w), s_jobId = jobId, s_title = title, s_sortOrder = i\<rparr>]\<rparr>)"
  using uuid_fresh(1) [OF assms(1,2) order_refl] assms(3) by (simp add: createSection_def Let_def)

lemma report_inv_add_section:
  assumes "report_inv A w" and "s_id s = uuid A (entropy w)"
    and "uuid A (entropy w) \<notin> s_id ` set (sections w)"
  shows "report_inv A (w\<lparr>entropy := Suc (entropy w), sections := sections w @ [s]\<rparr>)"
  using assms drawn_mono [of "entropy w" "Suc (entropy w)" _ A]
  by (auto simp: report_inv_unfold)

lemma createFindings_ok:
  assumes "inj (uuid A)" and "report_inv A w"
  shows "createFindings A sid fs w = (Inr (), w\<lparr>entropy := entropy w + length fs,
    findings := findings w @ findingRows A sid (entropy w) 0 fs\<rparr>)"
proof -
  have fresh: "uuid A k \<notin> f_id ` set (findings w)" if "entropy w \<le> k" for k
    using uuid_fresh(2) [OF assms that] .
  have "x \<notin> uuid A ` {entropy w..<entropy w + length fs}" if "x \<in> f_id ` set (findings w)" for x
    using that fresh by (metis atLeastLessThan_iff imageE)
  then have "set (map f_id (findings w)) \<inter> set (map (uuid A) [entropy w..<entropy w + length fs]) = {}"
    unfolding set_map set_upt by blast
  moreover have "distinct (map (uuid A) [entropy w..<entropy w + length fs])"
    using assms(1) by (simp add: distinct_map inj_on_def inj_def)
  ultimately have "distinct (map f_id (findings w @ findingRows A sid (entropy w) 0 fs))"
    using assms(2) by (simp only: report_inv_unfold map_append findingRows_ids distinct_append)
  then show ?thesis by (simp add: createFindings_def Let_def)
qed

lemma findingRows_drawn:
  "f_id ` set (findingRows A sid n i fs) \<subseteq> uuid A ` {..<n + length fs}"
proof -
  have "f_id ` set (findingRows A sid n i fs) = uuid A ` {n..<n + length fs}"
    using arg_cong [OF findingRows_ids, of set A sid n i fs] by simp
  then show ?thesis by auto
qed

lemma report_inv_add_findings:
  assumes "report_inv A w" and "sid \<in> s_id ` set (sections w)"
    and "distinct (map f_id (findings w @ findingRows A sid (entropy w) 0 fs))"
  shows "report_inv A (w\<lparr>entropy := entropy w + length fs,
    findings := findings w @ findingRows A sid (entropy w) 0 fs\<rparr>)"
proof -
  let ?r = "findingRows A sid (entropy w) 0 fs" and ?m = "entropy w + length fs"
  have old: "s_id ` set (sections w) \<subseteq> uuid A ` {..<?m}" "f_id ` set (findings w) \<subseteq> uuid A ` {..<?m}"
    using assms(1) drawn_mono [of "entropy w" ?m _ A] by (simp_all add: report_inv_unfold)
  have "f_sectionId ` set ?r \<subseteq> s_id ` set (sections w)"
    using assms(2) by (auto dest!: findingRows_sectionId)
  moreover have "f_sectionId ` set (findings w) \<subseteq> s_id ` set (sections w)"
    using assms(1) by (simp add: report_inv_unfold)
  ultimately have "f_sectionId ` set (findings w @ ?r) \<subseteq> s_id ` set (sections w)"
    unfolding set_append image_Un by (intro Un_least)
  moreover have "f_id ` set (findings w @ ?r) \<subseteq> uuid A ` {..<?m}"
    unfolding set_append image_Un using old(2) findingRows_drawn by (rule Un_least)
  moreover note old(1) assms(3)
  moreover have "distinct (map s_id (sections w))" using assms(1) by (simp add: report_inv_unfold)
  ultimately have "report_tables A ?m (sections w) (findings w @ ?r)"
    unfolding report_tables_def by (intro conjI)
  then show ?thesis by (simp add: report_inv_def)
qed

text \<open>The whole loop.\<close>

lemma insertSections_ok:
  assumes "inj (uuid A)" and "report_inv A w" and "jobId \<in> j_id ` set (jobs w)"
  shows "insertSections A jobId i secs w =
    (Inr (), w\<lparr>sections := sections w @ map fst (reportRows A jobId (entropy w) i secs),
               findings := findings w @ concat (map snd (reportRows A jobId (entropy w) i secs)),
               entropy := entropy w + drawCount secs\<rparr>)"
  using assms(2,3)
proof (induction secs arbitrary: w i)
  case (Cons sec rest)
  let ?s = "\<lparr>s_id = uuid A (entropy w), s_jobId = jobId, s_title = rs_title sec, s_sortOrder = i\<rparr>"
  let ?w1 = "w\<lparr>entropy := Suc (entropy w), sections := sections w @ [?s]\<rparr>"
  let ?w2 = "?w1\<lparr>entropy := entropy ?w1 + length (rs_findings sec),
    findings := findings ?w1 @ findingRows A (uuid A (entropy w)) (entropy ?w1) 0 (rs_findings sec)\<rparr>"
  have i1: "report_inv A ?w1"
    using report_inv_add_section [OF Cons.prems(1), of ?s] uuid_fresh(1) [OF assms(1) Cons.prems(1) order_refl]
    by simp
  have cf: "createFindings A (uuid A (entropy w)) (rs_findings sec) ?w1 = (Inr (), ?w2)"
    by (rule createFindings_ok [OF assms(1) i1])
  then have "distinct (map f_id (findings ?w1 @ findingRows A (uuid A (entropy w)) (entropy ?w1) 0 (rs_findings sec)))"
    by (auto simp: createFindings_def Let_def split: if_splits)
  from report_inv_add_findings [OF i1 _ this] have i2: "report_inv A ?w2" by simp
  have "(if length (rs_findings sec) > 0 then createFindings A (uuid A (entropy w)) (rs_findings sec)
         else (\<lambda>w. (Inr (), w))) ?w1 = (Inr (), ?w2)"
    using cf by auto
  then show ?case
    using createSection_ok [OF assms(1) Cons.prems, of "rs_title sec" i] Cons.IH [OF i2] Cons.prems(2)
    by (simp add: txBind_def)
qed simp

subsection \<open>The rows read back\<close>

lemma reportRows_jobId: "p \<in> set (reportRows A jobId n i secs) \<Longrightarrow> s_jobId (fst p) = jobId"
  by (induction secs arbitrary: n i) auto

lemma reportRows_sectionId:
  "(s, fs) \<in> set (reportRows A jobId n i secs) \<Longrightarrow> f \<in> set fs \<Longrightarrow> f_sectionId f = s_id s"
  by (induction secs arbitrary: n i) (auto dest: findingRows_sectionId)

lemma reportRows_findings_sorted:
  "(s, fs) \<in> set (reportRows A jobId n i secs) \<Longrightarrow> sorted (map f_sortOrder fs)"
  by (induction secs arbitrary: n i) (auto simp: findingRows_sorted)

lemma reportRows_sorted: "sorted (map (s_sortOrder \<circ> fst) (reportRows A jobId n i secs))
    \<and> (\<forall>p \<in> set (reportRows A jobId n i secs). i \<le> s_sortOrder (fst p))"
  by (induction secs arbitrary: n i) (auto, force)

lemma reportRows_ids:
  "inj (uuid A) \<Longrightarrow> distinct (map (s_id \<circ> fst) (reportRows A jobId n i secs))
    \<and> (s_id \<circ> fst) ` set (reportRows A jobId n i secs) \<subseteq> uuid A ` {n..<n + drawCount secs}"
proof (induction secs arbitrary: n i)
  case (Cons sec rest)
  let ?m = "Suc n + length (rs_findings sec)"
  note IH = Cons.IH [OF Cons.prems, of ?m "i + 1"]
  have "uuid A n \<notin> uuid A ` {?m..<?m + drawCount rest}"
    using Cons.prems by (auto simp: inj_eq)
  with IH have "uuid A n \<notin> (s_id \<circ> fst) ` set (reportRows A jobId ?m (i + 1) rest)" by blast
  moreover have "uuid A ` {?m..<?m + drawCount rest} \<subseteq> uuid A ` {n..<n + drawCount (sec # rest)}"
    by (rule image_mono) auto
  moreover have "uuid A n \<in> uuid A ` {n..<n + drawCount (sec # rest)}"
    by (rule imageI) simp
  ultimately show ?case using IH by auto
qed simp

definition reportTree :: "JobWithReport \<Rightarrow> ReportSectionInput list" where
  "reportTree jr = map (\<lambda>(s, fs). \<lparr>rs_title = s_title s,
     rs_findings = map (\<lambda>f. \<lparr>rf_text = f_text f, rf_severity = f_severity f\<rparr>) fs\<rparr>) (jr_sections jr)"

lemma reportRows_tree: "map (\<lambda>(s, fs). \<lparr>rs_title = s_title s,
     rs_findings = map (\<lambda>f. \<lparr>rf_text = f_text f, rf_severity = f_severity f\<rparr>) fs\<rparr>)
    (reportRows A jobId n i secs) = secs"
  by (induction secs arbitrary: n i) (auto simp: findingRows_content)

lemma filter_rows:
  assumes "\<And>s fs f. (s, fs) \<in> set rows \<Longrightarrow> f \<in> set fs \<Longrightarrow> f_sectionId f = s_id s"
    and "distinct (map (s_id \<circ> fst) rows)" and "(s, fs) \<in> set rows"
  shows "filter (\<lambda>f. f_sectionId f = s_id s) (concat (map snd rows)) = fs"
  using assms
proof (induction rows)
  case (Cons p rows)
  have none: "filter (\<lambda>f. f_sectionId f = i) (concat (map snd rows)) = []"
    if "i \<notin> (s_id \<circ> fst) ` set rows" for i
  proof -
    have "f_sectionId f \<noteq> i" if "f \<in> set (concat (map snd rows))" for f
    proof -
      from that obtain s' fs' where "(s', fs') \<in> set rows" "f \<in> set fs'" by auto
      with Cons.prems(1) [of s' fs' f] \<open>i \<notin> (s_id \<circ> fst) ` set rows\<close> show ?thesis by force
    qed
    then show ?thesis by (simp only: filter_empty_conv) blast
  qed
  show ?case
  proof (cases "p = (s, fs)")
    case True
    with Cons.prems none [of "s_id s"] show ?thesis by (auto simp: filter_id_conv)
  next
    case False
    with Cons.prems have in_rows: "(s, fs) \<in> set rows" by auto
    then have "s_id (fst p) \<noteq> s_id s" using Cons.prems(2) by force
    then have "filter (\<lambda>f. f_sectionId f = s_id s) (snd p) = []"
      using Cons.prems(1) [of "fst p" "snd p"] by (auto simp: filter_empty_conv)
    moreover have "filter (\<lambda>f. f_sectionId f = s_id s) (concat (map snd rows)) = fs"
      by (rule Cons.IH) (use Cons.prems in_rows in auto)
    ultimately show ?thesis by simp
  qed
qed simp

text \<open>The tables after a replacement: the job's old rows are gone, the new ones are at the end.\<close>

definition replaced :: "app \<Rightarrow> js \<Rightarrow> ReportSectionInput list \<Rightarrow> world \<Rightarrow> world" where
  "replaced A jobId secs w =
     (let w0 = snd (deleteSections jobId (snd (deleteFindings jobId w)));
          rows = reportRows A jobId (entropy w) 0 secs in
      w0\<lparr>sections := sections w0 @ map fst rows, findings := findings w0 @ concat (map snd rows),
         entropy := entropy w + drawCount secs\<rparr>)"

lemma report_inv_deleted:
  "report_inv A w \<Longrightarrow> report_inv A (snd (deleteSections jobId (snd (deleteFindings jobId w))))"
  by (auto simp: report_inv_unfold deleteSections_def deleteFindings_def distinct_map_filter)

lemma replace_body:
  assumes "inj (uuid A)" and "report_inv A w" and "jobId \<in> j_id ` set (jobs w)"
  shows "txBind (deleteFindings jobId) (\<lambda>_. txBind (deleteSections jobId) (\<lambda>_.
           insertSections A jobId 0 secs)) w = (Inr (), replaced A jobId secs w)"
proof -
  let ?w0 = "snd (deleteSections jobId (snd (deleteFindings jobId w)))"
  have "jobs ?w0 = jobs w" "entropy ?w0 = entropy w"
    by (simp_all add: deleteSections_def deleteFindings_def)
  with insertSections_ok [OF assms(1) report_inv_deleted [OF assms(2)], of jobId jobId 0 secs] assms(3)
  show ?thesis
    by (simp add: txBind_def deleteSections_def deleteFindings_def replaced_def Let_def)
qed

lemma sectionsOf_replaced:
  "sectionsOf (replaced A jobId secs w) jobId = map fst (reportRows A jobId (entropy w) 0 secs)"
proof -
  let ?rows = "reportRows A jobId (entropy w) 0 secs"
  have "filter (\<lambda>s. s_jobId s = jobId) (map fst ?rows) = map fst ?rows"
    using reportRows_jobId by (fastforce simp: filter_id_conv)
  moreover have "sorted (map s_sortOrder (map fst ?rows))"
    using reportRows_sorted [of A jobId "entropy w" 0 secs] by simp
  ultimately show ?thesis
    by (simp add: sectionsOf_def replaced_def Let_def deleteSections_def deleteFindings_def
        sort_key_sorted)
qed

lemma findingsOf_replaced:
  assumes "inj (uuid A)" and "report_inv A w"
    and "(s, fs) \<in> set (reportRows A jobId (entropy w) 0 secs)"
  shows "findingsOf (replaced A jobId secs w) (s_id s) = fs"
proof -
  let ?rows = "reportRows A jobId (entropy w) 0 secs"
  let ?w0 = "snd (deleteSections jobId (snd (deleteFindings jobId w)))"
  have "s_id s \<in> uuid A ` {entropy w..<entropy w + drawCount secs}"
    using reportRows_ids [OF assms(1)] assms(3) by force
  then have "s_id s \<notin> f_sectionId ` set (findings w)"
    using uuid_fresh(3) [OF assms(1,2)] by (metis atLeastLessThan_iff imageE)
  then have "f_sectionId f \<noteq> s_id s" if "f \<in> set (findings w)" for f
    using that by (metis imageI)
  then have "filter (\<lambda>f. f_sectionId f = s_id s) (findings ?w0) = []"
    by (auto simp: deleteSections_def deleteFindings_def filter_empty_conv)
  moreover have "filter (\<lambda>f. f_sectionId f = s_id s) (concat (map snd ?rows)) = fs"
    by (rule filter_rows [OF reportRows_sectionId])
      (use reportRows_ids [OF assms(1)] assms(3) in auto)
  moreover have "sorted (map f_sortOrder fs)"
    by (rule reportRows_findings_sorted [OF assms(3)])
  ultimately show ?thesis
    by (simp add: findingsOf_def replaced_def Let_def sort_key_sorted)
qed

lemma include_replaced:
  assumes "inj (uuid A)" and "report_inv A w" and "j_id j = jobId"
  shows "jr_sections (JOB_REPORT_INCLUDE (replaced A jobId secs w) j)
    = reportRows A jobId (entropy w) 0 secs"
  using assms(3) findingsOf_replaced [OF assms(1,2), of _ _ jobId secs]
  by (auto simp: JOB_REPORT_INCLUDE_def sectionsOf_replaced intro!: map_idI)

text \<open>The other jobs keep their reports.\<close>

lemma include_replaced_other:
  assumes "inj (uuid A)" and "report_inv A w" and "j_id j \<noteq> jobId"
  shows "JOB_REPORT_INCLUDE (replaced A jobId secs w) j = JOB_REPORT_INCLUDE w j"
proof -
  let ?rows = "reportRows A jobId (entropy w) 0 secs"
  have "filter (\<lambda>s. s_jobId s = j_id j) (map fst ?rows) = []"
    using reportRows_jobId [of _ A jobId "entropy w" 0 secs] assms(3)
    by (auto simp: filter_empty_conv)
  then have secs: "sectionsOf (replaced A jobId secs w) (j_id j) = sectionsOf w (j_id j)"
    using assms(3) by (auto simp: sectionsOf_def replaced_def Let_def deleteSections_def
        deleteFindings_def intro!: arg_cong [of _ _ "sort_key s_sortOrder"] filter_cong)
  have "findingsOf (replaced A jobId secs w) (s_id s) = findingsOf w (s_id s)"
    if "s \<in> set (sectionsOf w (j_id j))" for s
  proof -
    from that have s: "s \<in> set (sections w)" "s_jobId s \<noteq> jobId"
      using assms(3) by (auto simp: sectionsOf_def)
    have keep: "\<not> (\<exists>t \<in> set (sections w). s_id t = s_id s \<and> s_jobId t = jobId)"
      using s assms(2) by (auto simp: report_inv_unfold distinct_map inj_on_def)
    have "filter (\<lambda>f. f_sectionId f = s_id s) (concat (map snd ?rows)) = []"
    proof -
      have "f_sectionId f \<noteq> s_id s" if f: "f \<in> set (concat (map snd ?rows))" for f
      proof -
        from f obtain t fs where t: "(t, fs) \<in> set ?rows" "f \<in> set fs" by auto
        then have "s_id t \<in> uuid A ` {entropy w..<entropy w + drawCount secs}"
          using reportRows_ids [OF assms(1), of jobId "entropy w" 0 secs] by force
        then have "s_id t \<notin> s_id ` set (sections w)"
          using uuid_fresh(1) [OF assms(1,2)] by (metis atLeastLessThan_iff imageE)
        with s(1) have "s_id t \<noteq> s_id s" by auto
        with reportRows_sectionId [OF t] show ?thesis by simp
      qed
      then show ?thesis by (simp only: filter_empty_conv) blast
    qed
    then show ?thesis
      using keep by (auto simp: findingsOf_def replaced_def Let_def deleteSections_def
          deleteFindings_def intro!: arg_cong [of _ _ "sort_key f_sortOrder"] filter_cong)
  qed
  with secs show ?thesis by (simp add: JOB_REPORT_INCLUDE_def)
qed

lemma jobs_replaced [simp]: "jobs (replaced A jobId secs w) = jobs w"
  and faults_replaced [simp]: "faults (replaced A jobId secs w) = faults w"
  by (simp_all add: replaced_def Let_def deleteSections_def deleteFindings_def)

lemma run_replaceReport:
  assumes "faults w = []" and "inj (uuid A)" and "report_inv A w" and "jobId \<in> j_id ` set (jobs w)"
  shows "run (replaceReport A jobId secs) w = (Inr (), replaced A jobId secs w)"
  using assms by (simp add: replaceReport_def run_transaction replace_body)

text \<open>
  C7. A stored report reads back as it was given: after \<^verbatim>\<open>replaceReport\<close> of a job without faults,
  \<^verbatim>\<open>findById\<close> returns the job's row with exactly the given sections and findings, in the given order,
  whatever report was there before; the report of every other job is as before.
\<close>

theorem report_roundtrip:
  assumes "faults w = []" and "inj (uuid A)" and "report_inv A w"
    and "find (\<lambda>j. j_id j = jobId) (jobs w) = Some row"
  shows "let w' = snd (run (replaceReport A jobId secs) w) in
    (\<exists>jr. run (findById jobId) w' = (Inr (Some jr), w') \<and> jr_row jr = row \<and> reportTree jr = secs)
    \<and> (\<forall>j. j_id j = jobId \<or> JOB_REPORT_INCLUDE w' j = JOB_REPORT_INCLUDE w j)"
proof -
  let ?w' = "replaced A jobId secs w"
  have "jobId \<in> j_id ` set (jobs w)" using find_SomeD [OF assms(4)] by auto
  with assms(1-3) have w': "snd (run (replaceReport A jobId secs) w) = ?w'"
    by (simp add: run_replaceReport)
  let ?jr = "JOB_REPORT_INCLUDE ?w' row"
  have "j_id row = jobId" using find_SomeD [OF assms(4)] by simp
  with include_replaced [OF assms(2,3)] have "reportTree ?jr = secs"
    by (simp add: reportTree_def reportRows_tree)
  moreover have "run (findById jobId) ?w' = (Inr (Some ?jr), ?w')"
    using assms(1,4) by (simp add: findById_def)
  moreover have "jr_row ?jr = row" by (simp add: JOB_REPORT_INCLUDE_def)
  moreover have "\<forall>j. j_id j = jobId \<or> JOB_REPORT_INCLUDE ?w' j = JOB_REPORT_INCLUDE w j"
    using include_replaced_other [OF assms(2,3)] by blast
  ultimately show ?thesis unfolding w' Let_def by blast
qed

definition sampleJob :: job_row where
  "sampleJob = \<lparr>j_id = lit ''j1'', j_userId = lit ''u1'', j_label = lit ''Main St'', j_status = CREATED,
     j_transcript = None, j_audioKey = Some (lit ''audio/u1/j1.m4a''), j_pdfKey = None,
     j_errorMessage = None, j_idempotencyKey = None, j_createdAt = 0, j_updatedAt = 0,
     j_deletedAt = None\<rparr>"

theorem report_roundtrip_witness:
  "\<exists>jr. run (findById (lit ''j1'')) (snd (run (replaceReport sampleApp (lit ''j1'')
       [\<lparr>rs_title = lit ''Roof'', rs_findings = [\<lparr>rf_text = lit ''lifted'', rf_severity = REPAIR\<rparr>]\<rparr>])
       (emptyWorld\<lparr>jobs := [sampleJob]\<rparr>)))
     = (Inr (Some jr), snd (run (replaceReport sampleApp (lit ''j1'')
       [\<lparr>rs_title = lit ''Roof'', rs_findings = [\<lparr>rf_text = lit ''lifted'', rf_severity = REPAIR\<rparr>]\<rparr>])
       (emptyWorld\<lparr>jobs := [sampleJob]\<rparr>)))
     \<and> reportTree jr = [\<lparr>rs_title = lit ''Roof'', rs_findings = [\<lparr>rf_text = lit ''lifted'', rf_severity = REPAIR\<rparr>]\<rparr>]"
proof -
  let ?w = "emptyWorld\<lparr>jobs := [sampleJob]\<rparr>"
  have "faults ?w = []" "inj (uuid sampleApp)" "report_inv sampleApp ?w"
    "find (\<lambda>j. j_id j = lit ''j1'') (jobs ?w) = Some sampleJob"
    by (auto simp: emptyWorld_def sampleApp_def report_inv_unfold sampleJob_def inj_def
        dest: arg_cong [where f = length])
  from report_roundtrip [OF this, unfolded Let_def,
      of "[\<lparr>rs_title = lit ''Roof'', rs_findings = [\<lparr>rf_text = lit ''lifted'', rf_severity = REPAIR\<rparr>]\<rparr>]"]
  show ?thesis by blast
qed

end
