(* ===== verification/Evolution.thy ===== *)
theory Evolution
  imports Media Queueing Jobs_Repository
begin

text \<open>
  The system invariant and the way the stored data may evolve, whoever acts: API requests, worker
  stages, abandoned stages, clients uploading audio, and Postgres, Redis and R2 themselves.

  \<^item> \<open>inv\<close> holds in every reachable world: identifiers, token digests, idempotency keys and queue
    ids are unique, rows refer to existing rows, the queue names each job's true owner, a job's
    keys follow the key scheme, and the PDF of every live job that has one is in the bucket.
  \<^item> \<open>grows\<close> relates an earlier world to a later one: no user, token, job, event or parked job is
    ever lost, the owner and keys of a job never change, deletion and revocation are final, an
    event is never altered, a live job's PDF is never removed.
  \<^item> \<open>evolves\<close> joins the two. It is the relation under which the handlers are verified, and the
    interpretation of \<open>interference\<close> on it gives the rules for them.
\<close>

section \<open>Tables that only grow\<close>

definition extends :: "('r \<Rightarrow> 'r \<Rightarrow> bool) \<Rightarrow> 'r list \<Rightarrow> 'r list \<Rightarrow> bool" where
  "extends K rs rs' \<longleftrightarrow> (\<exists>old new. rs' = old @ new \<and> list_all2 K rs old)"

lemma extends_refl: "(\<And>r. K r r) \<Longrightarrow> extends K rs rs"
  unfolding extends_def by (metis append_Nil2 list.rel_refl)

lemma extends_trans:
  assumes "\<And>a b c. K a b \<Longrightarrow> K b c \<Longrightarrow> K a c" and "extends K rs ss" and "extends K ss ts"
  shows "extends K rs ts"
proof -
  from assms(2) obtain o1 n1 where 1: "ss = o1 @ n1" "list_all2 K rs o1"
    by (auto simp: extends_def)
  from assms(3) obtain o2 n2 where 2: "ts = o2 @ n2" "list_all2 K ss o2"
    by (auto simp: extends_def)
  from 1(1) 2(2) obtain p q where p: "o2 = p @ q" "list_all2 K o1 p"
    by (auto simp: list_all2_append1)
  have "list_all2 K rs p" by (rule list_all2_trans [OF assms(1) 1(2) p(2)])
  with 2(1) p(1) show ?thesis unfolding extends_def by (metis append_assoc)
qed

lemma extends_append: "(\<And>r. K r r) \<Longrightarrow> extends K rs (rs @ new)"
  unfolding extends_def by (metis list.rel_refl)

lemma extends_upd:
  assumes "\<And>r. K r r" and "\<And>r. r \<in> set rs \<Longrightarrow> P r \<Longrightarrow> K r (f r)"
  shows "extends K rs (upd P f rs)"
proof -
  have "list_all2 K rs (upd P f rs)"
    using assms by (auto simp: upd_def list_all2_map2 list_all2_same)
  then show ?thesis unfolding extends_def by (metis append_Nil2)
qed

lemma extends_in: "extends K rs rs' \<Longrightarrow> r \<in> set rs \<Longrightarrow> \<exists>r' \<in> set rs'. K r r'"
  unfolding extends_def by (fastforce simp: list_all2_conv_all_nth in_set_conv_nth nth_append)

section \<open>How rows may change\<close>

definition user_keeps :: "user_row \<Rightarrow> user_row \<Rightarrow> bool" where
  "user_keeps u u' \<longleftrightarrow> u_id u' = u_id u \<and> u_appleSub u' = u_appleSub u
     \<and> u_createdAt u' = u_createdAt u \<and> (u_email u \<noteq> None \<longrightarrow> u_email u' \<noteq> None)"

definition token_keeps :: "token_row \<Rightarrow> token_row \<Rightarrow> bool" where
  "token_keeps t t' \<longleftrightarrow> t_id t' = t_id t \<and> t_userId t' = t_userId t \<and> t_tokenHash t' = t_tokenHash t
     \<and> t_expiresAt t' = t_expiresAt t \<and> t_createdAt t' = t_createdAt t
     \<and> (t_revokedAt t \<noteq> None \<longrightarrow> t_revokedAt t' \<noteq> None)"

definition job_keeps :: "job_row \<Rightarrow> job_row \<Rightarrow> bool" where
  "job_keeps j j' \<longleftrightarrow> j_id j' = j_id j \<and> j_userId j' = j_userId j \<and> j_audioKey j' = j_audioKey j
     \<and> j_idempotencyKey j' = j_idempotencyKey j \<and> j_createdAt j' = j_createdAt j
     \<and> (j_deletedAt j \<noteq> None \<longrightarrow> j_deletedAt j' = j_deletedAt j)
     \<and> (j_transcript j \<noteq> None \<longrightarrow> j_transcript j' \<noteq> None)
     \<and> (j_pdfKey j \<noteq> None \<longrightarrow> j_pdfKey j' = j_pdfKey j)"

lemma keeps_refl [simp]: "user_keeps u u" "token_keeps t t" "job_keeps j j"
  by (simp_all add: user_keeps_def token_keeps_def job_keeps_def)

lemma keeps_trans:
  "user_keeps u v \<Longrightarrow> user_keeps v x \<Longrightarrow> user_keeps u x"
  "token_keeps t s \<Longrightarrow> token_keeps s r \<Longrightarrow> token_keeps t r"
  "job_keeps j k \<Longrightarrow> job_keeps k l \<Longrightarrow> job_keeps j l"
  by (auto simp: user_keeps_def token_keeps_def job_keeps_def)

text \<open>The PDF of a job stays in the bucket until the job is deleted.\<close>

definition isDeleted :: "js \<Rightarrow> job_row list \<Rightarrow> bool" where
  "isDeleted i js \<longleftrightarrow> (\<exists>j \<in> set js. j_id j = i \<and> j_deletedAt j \<noteq> None)"

definition objects_kept ::
    "job_row list \<Rightarrow> (js \<Rightarrow> obj option) \<Rightarrow> job_row list \<Rightarrow> (js \<Rightarrow> obj option) \<Rightarrow> bool" where
  "objects_kept js m js' m' \<longleftrightarrow> (\<forall>j \<in> set js. m (pdfKey (j_userId j) (j_id j)) \<noteq> None \<longrightarrow>
     m' (pdfKey (j_userId j) (j_id j)) \<noteq> None \<or> isDeleted (j_id j) js')"

definition grows :: "world \<Rightarrow> world \<Rightarrow> bool" where
  "grows w w' \<longleftrightarrow>
     extends user_keeps (users w) (users w') \<and> extends token_keeps (tokens w) (tokens w')
     \<and> extends job_keeps (jobs w) (jobs w') \<and> extends (=) (events w) (events w')
     \<and> extends (=) (dlq w) (dlq w') \<and> objects_kept (jobs w) (bucket w) (jobs w') (bucket w')
     \<and> clock w \<le> clock w' \<and> entropy w \<le> entropy w'"

lemma isDeleted_extends: "extends job_keeps js js' \<Longrightarrow> isDeleted i js \<Longrightarrow> isDeleted i js'"
  unfolding isDeleted_def by (metis extends_in job_keeps_def)

lemma objects_kept_refl [simp]: "objects_kept js m js' m"
  by (simp add: objects_kept_def)

lemma objects_kept_trans:
  assumes "extends job_keeps js js'" and "extends job_keeps js' js''"
    and "objects_kept js m js' m'" and "objects_kept js' m' js'' m''"
  shows "objects_kept js m js'' m''"
  unfolding objects_kept_def
proof (intro ballI impI)
  fix j :: job_row
  let ?k = "pdfKey (j_userId j) (j_id j)"
  assume j: "j \<in> set js" "m ?k \<noteq> None"
  obtain j' where j': "j' \<in> set js'" "job_keeps j j'" using extends_in [OF assms(1) j(1)] by blast
  from j assms(3) have "m' ?k \<noteq> None \<or> isDeleted (j_id j) js'" by (auto simp: objects_kept_def)
  then show "m'' ?k \<noteq> None \<or> isDeleted (j_id j) js''"
    using assms(4) j' isDeleted_extends [OF assms(2)]
    by (auto simp: objects_kept_def job_keeps_def)
qed

lemma grows_refl [simp]: "grows w w"
  by (simp add: grows_def extends_refl)

lemma grows_trans: "grows u v \<Longrightarrow> grows v w \<Longrightarrow> grows u w"
  unfolding grows_def
  by (blast intro: extends_trans keeps_trans objects_kept_trans order_trans elim: trans)

section \<open>The invariant\<close>

definition users_inv :: "user_row list \<Rightarrow> bool" where
  "users_inv us \<longleftrightarrow> distinct (map u_id us) \<and> distinct (map u_appleSub us)
     \<and> (\<forall>u \<in> set us. 47 \<notin> set (u_id u))"

definition tokens_inv :: "user_row list \<Rightarrow> token_row list \<Rightarrow> bool" where
  "tokens_inv us ts \<longleftrightarrow> distinct (map t_id ts) \<and> distinct (map t_tokenHash ts)
     \<and> t_userId ` set ts \<subseteq> u_id ` set us"

definition job_ok :: "job_row \<Rightarrow> bool" where
  "job_ok j \<longleftrightarrow> 47 \<notin> set (j_id j) \<and> j_audioKey j = Some (audioKey (j_userId j) (j_id j))
     \<and> (j_pdfKey j = None \<or> j_pdfKey j = Some (pdfKey (j_userId j) (j_id j)))
     \<and> (j_status j = READY \<longrightarrow> j_pdfKey j \<noteq> None)"

definition idempotencyKeys :: "job_row list \<Rightarrow> (js \<times> js option) list" where
  "idempotencyKeys js = filter (\<lambda>p. snd p \<noteq> None) (map (\<lambda>j. (j_userId j, j_idempotencyKey j)) js)"

definition jobs_inv :: "user_row list \<Rightarrow> job_row list \<Rightarrow> bool" where
  "jobs_inv us js \<longleftrightarrow> distinct (map j_id js) \<and> distinct (idempotencyKeys js)
     \<and> j_userId ` set js \<subseteq> u_id ` set us \<and> (\<forall>j \<in> set js. job_ok j)"

definition owns :: "job_row list \<Rightarrow> js \<Rightarrow> js \<Rightarrow> bool" where
  "owns js userId jobId \<longleftrightarrow> (\<exists>j \<in> set js. j_id j = jobId \<and> j_userId j = userId)"

definition queue_ok :: "job_row list \<Rightarrow> bull_job list \<Rightarrow> bool" where
  "queue_ok js q \<longleftrightarrow> distinct (map b_id q)
     \<and> (\<forall>b \<in> set q. pj_jobId (b_data b) = b_id b \<and> owns js (pj_userId (b_data b)) (b_id b))"

definition pdf_stored :: "job_row list \<Rightarrow> (js \<Rightarrow> obj option) \<Rightarrow> bool" where
  "pdf_stored js m \<longleftrightarrow> (\<forall>j \<in> set js. j_deletedAt j = None \<longrightarrow> j_pdfKey j \<noteq> None \<longrightarrow>
     m (pdfKey (j_userId j) (j_id j)) \<noteq> None)"

text \<open>Identifiers from \<^verbatim>\<open>randomUUID\<close> contain no slash.\<close>

definition uuid_source_ok :: "app \<Rightarrow> bool" where
  "uuid_source_ok A \<longleftrightarrow> (\<forall>n. 47 \<notin> set (uuid A n))"

definition inv :: "app \<Rightarrow> world \<Rightarrow> bool" where
  "inv A w \<longleftrightarrow> uuid_source_ok A
     \<and> users_inv (users w) \<and> tokens_inv (users w) (tokens w) \<and> jobs_inv (users w) (jobs w)
     \<and> queue_ok (jobs w) (queue w) \<and> pdf_stored (jobs w) (bucket w)
     \<and> report_tables A (entropy w) (sections w) (findings w)
     \<and> s_jobId ` set (sections w) \<subseteq> j_id ` set (jobs w)"

definition evolves :: "app \<Rightarrow> world \<Rightarrow> world \<Rightarrow> bool" where
  "evolves A w w' \<longleftrightarrow> inv A w \<and> inv A w' \<and> grows w w'"

interpretation ev: interference "evolves A" for A
  by unfold_locales (auto simp: evolves_def intro: grows_trans)

section \<open>Facts that stay true\<close>

lemma evolves_inv: "evolves A w v \<Longrightarrow> inv A v" "evolves A w v \<Longrightarrow> inv A w"
  by (simp_all add: evolves_def)

lemma evolves_jobs: "evolves A w v \<Longrightarrow> extends job_keeps (jobs w) (jobs v)"
  and evolves_users: "evolves A w v \<Longrightarrow> extends user_keeps (users w) (users v)"
  and evolves_tokens: "evolves A w v \<Longrightarrow> extends token_keeps (tokens w) (tokens v)"
  by (simp_all add: evolves_def grows_def)

lemmas evolves_trans = ev.G_trans

text \<open>A row that was read is still there, up to what may change.\<close>

definition seen :: "job_row \<Rightarrow> world \<Rightarrow> bool" where
  "seen j w \<longleftrightarrow> (\<exists>j' \<in> set (jobs w). job_keeps j j')"

lemma seen_stable: "seen j w \<Longrightarrow> evolves A w v \<Longrightarrow> seen j v"
  unfolding seen_def by (meson evolves_jobs extends_in keeps_trans(3))

lemma seen_owns: "seen j w \<Longrightarrow> owns (jobs w) (j_userId j) (j_id j)"
  by (auto simp: seen_def owns_def job_keeps_def)

lemma owns_stable: "owns (jobs w) u i \<Longrightarrow> evolves A w v \<Longrightarrow> owns (jobs v) u i"
  unfolding owns_def by (metis evolves_jobs extends_in job_keeps_def)

lemma owns_unique: "inv A w \<Longrightarrow> owns (jobs w) u i \<Longrightarrow> j \<in> set (jobs w) \<Longrightarrow> j_id j = i \<Longrightarrow> j_userId j = u"
  by (auto simp: owns_def inv_def jobs_inv_def distinct_map inj_on_def)

lemma isDeleted_stable: "isDeleted i (jobs w) \<Longrightarrow> evolves A w v \<Longrightarrow> isDeleted i (jobs v)"
  using evolves_jobs isDeleted_extends by blast

definition userSeen :: "user_row \<Rightarrow> world \<Rightarrow> bool" where
  "userSeen u w \<longleftrightarrow> (\<exists>u' \<in> set (users w). user_keeps u u')"

lemma userSeen_stable: "userSeen u w \<Longrightarrow> evolves A w v \<Longrightarrow> userSeen u v"
  unfolding userSeen_def by (meson evolves_users extends_in keeps_trans(1))

section \<open>Changes to one table\<close>

lemma evolvesI: "inv A w \<Longrightarrow> inv A v \<Longrightarrow> grows w v \<Longrightarrow> evolves A w v"
  by (simp add: evolves_def)

lemma evolves_refl: "inv A w \<Longrightarrow> evolves A w w"
  by (simp add: evolves_def)

lemma evolves_faults: "inv A w \<Longrightarrow> evolves A w (w\<lparr>faults := fs\<rparr>)"
  and evolves_deadlines: "inv A w \<Longrightarrow> evolves A w (w\<lparr>deadlines := ds\<rparr>)"
  and evolves_modelCalls: "inv A w \<Longrightarrow> evolves A w (w\<lparr>modelCalls := n\<rparr>)"
  by (simp_all add: evolves_def inv_def grows_def extends_refl)

lemma evolves_clock: "inv A w \<Longrightarrow> clock w \<le> t \<Longrightarrow> evolves A w (w\<lparr>clock := t\<rparr>)"
  by (simp add: evolves_def inv_def grows_def extends_refl)

lemma report_tables_later: "report_tables A n secs fs \<Longrightarrow> n \<le> m \<Longrightarrow> report_tables A m secs fs"
  using drawn_mono [of n m "s_id ` set secs" A] drawn_mono [of n m "f_id ` set fs" A]
  by (simp add: report_tables_def)

lemma evolves_entropy: "inv A w \<Longrightarrow> entropy w \<le> n \<Longrightarrow> evolves A w (w\<lparr>entropy := n\<rparr>)"
  using report_tables_later [of A "entropy w" "sections w" "findings w" n]
  by (simp add: evolves_def inv_def grows_def extends_refl)

lemma owns_extends: "extends job_keeps js js' \<Longrightarrow> owns js u i \<Longrightarrow> owns js' u i"
  unfolding owns_def by (metis extends_in job_keeps_def)

lemma queue_ok_extends: "extends job_keeps js js' \<Longrightarrow> queue_ok js q \<Longrightarrow> queue_ok js' q"
  unfolding queue_ok_def using owns_extends by blast

lemma ids_extends:
  assumes "extends job_keeps js js'" and "X \<subseteq> j_id ` set js"
  shows "X \<subseteq> j_id ` set js'"
proof -
  have "j_id j \<in> j_id ` set js'" if "j \<in> set js" for j
    using extends_in [OF assms(1) that] unfolding job_keeps_def by (metis imageI)
  with assms(2) show ?thesis by blast
qed

text \<open>An update of job rows.\<close>

lemma jobs_inv_upd:
  assumes "jobs_inv us js" and "\<And>j. j \<in> set js \<Longrightarrow> P j \<Longrightarrow> job_keeps j (f j) \<and> job_ok (f j)"
  shows "jobs_inv us (upd P f js)"
proof -
  have "map j_id (upd P f js) = map j_id js" "map j_userId (upd P f js) = map j_userId js"
    "map (\<lambda>j. (j_userId j, j_idempotencyKey j)) (upd P f js) = map (\<lambda>j. (j_userId j, j_idempotencyKey j)) js"
    by (rule map_upd_set; use assms(2) in \<open>simp add: job_keeps_def\<close>)+
  moreover from this(2) have "j_userId ` set (upd P f js) = j_userId ` set js"
    by (metis set_map)
  moreover have "\<forall>j \<in> set (upd P f js). job_ok j"
    using assms by (auto simp: jobs_inv_def in_set_upd)
  ultimately show ?thesis
    using assms(1) by (simp only: jobs_inv_def idempotencyKeys_def simp_thms)
qed

lemma evolves_jobs_upd:
  assumes "inv A w" and "\<And>j. j \<in> set (jobs w) \<Longrightarrow> P j \<Longrightarrow> job_keeps j (f j) \<and> job_ok (f j)"
    and "\<And>j. j \<in> set (jobs w) \<Longrightarrow> P j \<Longrightarrow> j_deletedAt (f j) = None \<Longrightarrow> j_pdfKey (f j) \<noteq> None \<Longrightarrow>
      bucket w (pdfKey (j_userId j) (j_id j)) \<noteq> None"
  shows "evolves A w (w\<lparr>jobs := upd P f (jobs w)\<rparr>)"
proof (rule evolvesI [OF assms(1)])
  have ext: "extends job_keeps (jobs w) (upd P f (jobs w))"
    by (rule extends_upd) (use assms(2) in auto)
  then show "grows w (w\<lparr>jobs := upd P f (jobs w)\<rparr>)"
    by (simp add: grows_def extends_refl objects_kept_def)
  have "pdf_stored (upd P f (jobs w)) (bucket w)"
    unfolding pdf_stored_def
  proof (intro ballI impI)
    fix j assume j: "j \<in> set (upd P f (jobs w))" "j_deletedAt j = None" "j_pdfKey j \<noteq> None"
    then obtain j0 where j0: "j0 \<in> set (jobs w)" "j = (if P j0 then f j0 else j0)"
      by (auto simp: in_set_upd)
    show "bucket w (pdfKey (j_userId j) (j_id j)) \<noteq> None"
    proof (cases "P j0")
      case True
      then have "job_keeps j0 j" using j0 assms(2) by auto
      then show ?thesis using True j j0 assms(3) [OF j0(1)] by (simp add: job_keeps_def)
    next
      case False
      then show ?thesis using j j0 assms(1) by (simp add: inv_def pdf_stored_def)
    qed
  qed
  moreover have "jobs_inv (users w) (upd P f (jobs w))"
    by (rule jobs_inv_upd) (use assms(1,2) in \<open>auto simp: inv_def\<close>)
  ultimately show "inv A (w\<lparr>jobs := upd P f (jobs w)\<rparr>)"
    using assms(1) queue_ok_extends [OF ext] ids_extends [OF ext] by (simp add: inv_def)
qed

lemma job_ok_minor:
  assumes "job_ok j" and "job_keeps j k" and "j_pdfKey k = j_pdfKey j"
    and "j_status k = READY \<longrightarrow> j_status j = READY"
  shows "job_ok k"
proof -
  have "j_id k = j_id j" "j_userId k = j_userId j" "j_audioKey k = j_audioKey j"
    using assms(2) by (simp_all add: job_keeps_def)
  with assms(1,3,4) show ?thesis by (simp add: job_ok_def)
qed

text \<open>An update that leaves the keys and the deletion mark as they are, and does not set READY.\<close>

lemma evolves_jobs_minor:
  assumes "inv A w"
    and "\<And>j. P j \<Longrightarrow> job_keeps j (f j) \<and> j_pdfKey (f j) = j_pdfKey j
      \<and> (j_deletedAt (f j) = None \<longrightarrow> j_deletedAt j = None) \<and> (j_status (f j) = READY \<longrightarrow> j_status j = READY)"
  shows "evolves A w (w\<lparr>jobs := upd P f (jobs w)\<rparr>)"
proof (rule evolves_jobs_upd [OF assms(1)])
  fix j assume j: "j \<in> set (jobs w)" "P j"
  have "job_ok j" using j(1) assms(1) by (simp add: inv_def jobs_inv_def)
  with assms(2) [OF j(2)] show "job_keeps j (f j) \<and> job_ok (f j)"
    using job_ok_minor by blast
  assume "j_deletedAt (f j) = None" "j_pdfKey (f j) \<noteq> None"
  with assms(2) [OF j(2)] j(1) assms(1) show "bucket w (pdfKey (j_userId j) (j_id j)) \<noteq> None"
    by (simp add: inv_def pdf_stored_def)
qed

lemma evolves_new_job:
  assumes "inv A w" and "j_id j \<notin> j_id ` set (jobs w)" and "job_ok j" and "j_pdfKey j = None"
    and "j_userId j \<in> u_id ` set (users w)"
    and "j_idempotencyKey j \<noteq> None \<Longrightarrow>
      (j_userId j, j_idempotencyKey j) \<notin> (\<lambda>j. (j_userId j, j_idempotencyKey j)) ` set (jobs w)"
  shows "evolves A w (w\<lparr>jobs := jobs w @ [j]\<rparr>)"
proof (rule evolvesI [OF assms(1)])
  have ext: "extends job_keeps (jobs w) (jobs w @ [j])" by (simp add: extends_append)
  then show "grows w (w\<lparr>jobs := jobs w @ [j]\<rparr>)"
    by (simp add: grows_def extends_refl objects_kept_def)
  have "jobs_inv (users w) (jobs w @ [j])"
    using assms by (auto simp: inv_def jobs_inv_def idempotencyKeys_def)
  moreover have "pdf_stored (jobs w @ [j]) (bucket w)"
    using assms(1,4) by (auto simp: inv_def pdf_stored_def)
  ultimately show "inv A (w\<lparr>jobs := jobs w @ [j]\<rparr>)"
    using assms(1) queue_ok_extends [OF ext] ids_extends [OF ext] by (auto simp: inv_def)
qed

section \<open>A concrete world\<close>

text \<open>One user with a job whose audio is uploaded, and a READY job with its PDF.\<close>

definition sampleReady :: job_row where
  "sampleReady = sampleJob\<lparr>j_id := lit ''j2'', j_status := READY,
     j_audioKey := Some (audioKey (lit ''u1'') (lit ''j2'')), j_pdfKey := Some (pdfKey (lit ''u1'') (lit ''j2''))\<rparr>"

definition sampleWorld :: world where
  "sampleWorld = emptyWorld\<lparr>
     users := [\<lparr>u_id = lit ''u1'', u_appleSub = lit ''s1'', u_email = None, u_createdAt = 0, u_updatedAt = 0\<rparr>],
     jobs := [sampleJob, sampleReady],
     bucket := [audioKey (lit ''u1'') (lit ''j1'') \<mapsto> \<lparr>o_body = [1], o_contentType = AUDIO_CONTENT_TYPE\<rparr>,
                pdfKey (lit ''u1'') (lit ''j2'') \<mapsto> \<lparr>o_body = [2], o_contentType = PDF_CONTENT_TYPE\<rparr>]\<rparr>"

lemma sample_fields [simp]:
  "faults sampleWorld = []" "clock sampleWorld = 0" "entropy sampleWorld = 0" "queue sampleWorld = []"
  "jobs sampleWorld = [sampleJob, sampleReady]" "tokens sampleWorld = []" "modelCalls sampleWorld = 0"
  "sections sampleWorld = []" "findings sampleWorld = []" "deadlines sampleWorld = []"
  by (simp_all add: sampleWorld_def emptyWorld_def)

lemma sample_job_fields [simp]:
  "j_id sampleJob = lit ''j1''" "j_userId sampleJob = lit ''u1''" "j_deletedAt sampleJob = None"
  "j_status sampleJob = CREATED" "j_idempotencyKey sampleJob = None" "j_pdfKey sampleJob = None"
  "j_id sampleReady = lit ''j2''" "j_userId sampleReady = lit ''u1''" "j_deletedAt sampleReady = None"
  "j_status sampleReady = READY" "j_idempotencyKey sampleReady = None"
  "j_pdfKey sampleReady = Some (pdfKey (lit ''u1'') (lit ''j2''))"
  "j_audioKey sampleReady = Some (audioKey (lit ''u1'') (lit ''j2''))"
  by (simp_all add: sampleReady_def sampleJob_def)

lemma sample_audio [simp]: "j_audioKey sampleJob = Some (audioKey (lit ''u1'') (lit ''j1''))"
  by (simp add: sampleJob_def audioKey_def lit_unfold)

lemma sample_inv [simp]: "inv sampleApp sampleWorld"
proof -
  have "uuid_source_ok sampleApp" by (simp add: uuid_source_ok_def sampleApp_def)
  moreover have "job_ok sampleJob" "job_ok sampleReady"
    by (simp_all add: job_ok_def lit_unfold)
  moreover have "pdf_stored (jobs sampleWorld) (bucket sampleWorld)"
    by (simp add: pdf_stored_def) (simp add: sampleWorld_def)
  moreover have "users sampleWorld = [\<lparr>u_id = lit ''u1'', u_appleSub = lit ''s1'', u_email = None,
      u_createdAt = 0, u_updatedAt = 0\<rparr>]" by (simp add: sampleWorld_def)
  moreover have "47 \<notin> set (lit ''u1'')" by (simp add: lit_unfold)
  ultimately show ?thesis
    by (simp add: inv_def users_inv_def tokens_inv_def jobs_inv_def idempotencyKeys_def queue_ok_def
        report_tables_def)
qed

lemma sample_inj: "inj (uuid sampleApp)"
  by (auto simp: sampleApp_def inj_def dest: arg_cong [where f = length])

end
