(* ===== verification/Safety.thy ===== *)
theory Safety
  imports Evolution
begin

text \<open>
  The remote operations under interference: each one, run at any time among any other actors, is
  an \<open>evolves\<close> step, and what its caller may rely on afterwards is a fact that stays true. \<open>ok A Q p w\<close>
  says this of a program \<open>p\<close> from the world \<open>w\<close> on, with the result satisfying \<open>Q\<close>; whatever fault
  schedule the world holds is covered.
\<close>

abbreviation ok :: "app \<Rightarrow> ('a \<Rightarrow> world \<Rightarrow> bool) \<Rightarrow> 'a io \<Rightarrow> world \<Rightarrow> bool" where
  "ok A Q p w \<equiv> wpr (evolves A) Q (\<lambda>_ _. True) p w"

lemmas ok_bind = ev.wpr_bind
lemmas ok_seq = ev.wpr_seq
lemmas ok_catch = ev.wpr_catch
lemmas ok_Ret = ev.wpr_Ret
lemmas ok_Throw = ev.wpr_Throw

lemma ok_mono: "ok A Q p w \<Longrightarrow> (\<And>a v. Q a v \<Longrightarrow> R a v) \<Longrightarrow> ok A R p w"
  by (erule wpr_mono) auto

lemma ok_True: "ok A Q p w \<Longrightarrow> ok A (\<lambda>_ _. True) p w"
  by (erule ok_mono) simp

lemma ok_Throw_True: "ok A Q (Throw e) w"
  by simp

section \<open>Calls\<close>

lemma ok_call:
  assumes "\<And>v. evolves A w v \<Longrightarrow> evolves A v (snd (f v))"
    and "\<And>v a u. evolves A w v \<Longrightarrow> fst (f v) = Inr a \<Longrightarrow> evolves A (snd (f v)) u \<Longrightarrow> Q a u"
  shows "ok A Q (call f) w"
  by (rule ev.wpr_call) (use assms in auto)

lemma ok_now: "ok A (\<lambda>_ _. True) now w"
  unfolding now_def by (rule ok_call) (auto intro: evolves_refl evolves_inv)

lemma ok_draw: "ok A (\<lambda>_ _. True) draw w"
  unfolding draw_def by (rule ok_call) (auto intro: evolves_entropy evolves_inv)

lemma ok_remote:
  assumes step: "\<And>v. evolves A w v \<Longrightarrow> evolves A v (snd (f v))"
    and post: "\<And>v a u. evolves A w v \<Longrightarrow> fst (f v) = Inr a \<Longrightarrow> evolves A (snd (f v)) u \<Longrightarrow> Q a u"
  shows "ok A Q (remote f) w"
  unfolding remote_def
proof (rule ok_call)
  fix v assume v: "evolves A w v"
  have skip: "evolves A v (v\<lparr>faults := fs\<rparr>)" for fs
    by (rule evolves_faults) (rule evolves_inv [OF v])
  have f: "evolves A v (snd (f (v\<lparr>faults := fs\<rparr>)))" for fs
    using skip step evolves_trans v by blast
  let ?g = "\<lambda>v. case faults v of [] \<Rightarrow> f v | Works # fs \<Rightarrow> f (v\<lparr>faults := fs\<rparr>)
    | LostRequest m # fs \<Rightarrow> (Inl (PlainError m), v\<lparr>faults := fs\<rparr>)
    | LostReply m # fs \<Rightarrow> (Inl (PlainError m), snd (f (v\<lparr>faults := fs\<rparr>)))"
  show "evolves A v (snd (?g v))"
    using step [OF v] skip f by (simp split: list.split fault.split)
  fix a u assume r: "fst (?g v) = Inr a" and u: "evolves A (snd (?g v)) u"
  show "Q a u"
  proof (cases "faults v")
    case Nil
    with r u post [OF v] show ?thesis by simp
  next
    case (Cons x fs)
    with r u post [of "v\<lparr>faults := fs\<rparr>" a u] skip v evolves_trans show ?thesis
      by (cases x) auto
  qed
qed

lemma ok_query:
  assumes "\<And>v u. evolves A w v \<Longrightarrow> evolves A v u \<Longrightarrow> Q (f v) u"
  shows "ok A Q (query f) w"
  unfolding query_def by (rule ok_remote) (use assms evolves_refl evolves_inv in auto)

lemma ok_command:
  assumes "\<And>v. evolves A w v \<Longrightarrow> evolves A v (f v)"
    and "\<And>v u. evolves A w v \<Longrightarrow> evolves A (f v) u \<Longrightarrow> Q () u"
  shows "ok A Q (command f) w"
  unfolding command_def by (rule ok_remote) (use assms in auto)

lemma ok_transaction:
  assumes step: "\<And>v. evolves A w v \<Longrightarrow> evolves A v (snd (f v))"
    and post: "\<And>v a u. evolves A w v \<Longrightarrow> fst (f v) = Inr a \<Longrightarrow> evolves A (snd (f v)) u \<Longrightarrow> Q a u"
  shows "ok A Q (transaction f) w"
  unfolding transaction_def
proof (rule ok_remote)
  fix v assume v: "evolves A w v"
  let ?g = "\<lambda>v. case f v of (Inl e, v') \<Rightarrow> (Inl e, v\<lparr>entropy := entropy v'\<rparr>) | (Inr a, v') \<Rightarrow> (Inr a, v')"
  have "entropy v \<le> entropy (snd (f v))" using step [OF v] by (simp add: evolves_def grows_def)
  with step [OF v] v show "evolves A v (snd (?g v))"
    by (auto split: prod.split sum.split intro: evolves_entropy evolves_inv)
  fix a u assume "fst (?g v) = Inr a" "evolves A (snd (?g v)) u"
  with post [OF v] show "Q a u" by (auto split: prod.splits sum.splits)
qed

section \<open>Reading jobs\<close>

text \<open>What a caller knows of a job it has read.\<close>

definition readable :: "JobWithReport \<Rightarrow> world \<Rightarrow> bool" where
  "readable jr w \<longleftrightarrow> job_ok (jr_row jr) \<and> seen (jr_row jr) w
     \<and> (\<forall>(s, fs) \<in> set (jr_sections jr). s_jobId s = j_id (jr_row jr)
          \<and> (\<forall>f \<in> set fs. f_sectionId f = s_id s))"

lemma readable_include: "inv A w \<Longrightarrow> j \<in> set (jobs w) \<Longrightarrow> readable (JOB_REPORT_INCLUDE w j) w"
  by (auto simp: readable_def JOB_REPORT_INCLUDE_def sectionsOf_def findingsOf_def seen_def
      inv_def jobs_inv_def intro!: bexI [of _ j])

lemma readable_stable: "readable jr w \<Longrightarrow> evolves A w v \<Longrightarrow> readable jr v"
  by (auto simp: readable_def intro: seen_stable)

lemma jr_row_include [simp]: "jr_row (JOB_REPORT_INCLUDE w j) = j"
  by (simp add: JOB_REPORT_INCLUDE_def)

lemma ok_find:
  assumes "\<And>j. P j \<Longrightarrow> R j"
  shows "ok A (\<lambda>r v. \<forall>jr. r = Some jr \<longrightarrow> R (jr_row jr) \<and> readable jr v)
    (query (\<lambda>w. map_option (JOB_REPORT_INCLUDE w) (find P (jobs w)))) w"
proof (rule ok_query, intro allI impI)
  fix v u jr
  assume v: "evolves A w v" and u: "evolves A v u"
    and "map_option (JOB_REPORT_INCLUDE v) (find P (jobs v)) = Some jr"
  then obtain j where j: "find P (jobs v) = Some j" "jr = JOB_REPORT_INCLUDE v j" by auto
  with find_SomeD [OF j(1)] assms readable_include [OF evolves_inv(1) [OF v]]
    readable_stable [OF _ u]
  show "R (jr_row jr) \<and> readable jr u" by auto
qed

lemma ok_findScoped: "ok A (\<lambda>r v. \<forall>jr. r = Some jr \<longrightarrow>
    (j_id (jr_row jr) = jobId \<and> visible userId (jr_row jr)) \<and> readable jr v) (findScoped userId jobId) w"
  unfolding findScoped_def by (rule ok_find) simp

lemma ok_findByIdempotencyKey: "ok A (\<lambda>r v. \<forall>jr. r = Some jr \<longrightarrow>
    (visible userId (jr_row jr) \<and> j_idempotencyKey (jr_row jr) = Some key) \<and> readable jr v)
    (findByIdempotencyKey userId key) w"
  unfolding findByIdempotencyKey_def by (rule ok_find) simp

lemma ok_findById: "ok A (\<lambda>r v. \<forall>jr. r = Some jr \<longrightarrow> j_id (jr_row jr) = jobId \<and> readable jr v)
    (findById jobId) w"
  unfolding findById_def by (rule ok_find) simp

lemma ok_rawById: "ok A (\<lambda>_ _. True) (rawById jobId) w"
  unfolding rawById_def by (rule ok_query) simp

lemma listing_in: "j \<in> set (listing w userId) \<longleftrightarrow> j \<in> set (jobs w) \<and> visible userId j"
  by (simp add: listing_def)

lemma ok_listScoped:
  "ok A (\<lambda>r v. \<forall>jr \<in> set r. visible userId (jr_row jr) \<and> readable jr v)
    (listScoped A userId cursor limit) w"
  unfolding listScoped_def
proof (rule ok_remote)
  fix v assume v: "evolves A w v"
  show "evolves A v (snd (case pageOf A cursor limit (listing v userId) of
      Inl e \<Rightarrow> Inl e | Inr js \<Rightarrow> Inr (map (JOB_REPORT_INCLUDE v) js), v))"
    using v evolves_refl evolves_inv by simp
  fix r u
  assume "fst (case pageOf A cursor limit (listing v userId) of
      Inl e \<Rightarrow> Inl e | Inr js \<Rightarrow> Inr (map (JOB_REPORT_INCLUDE v) js), v) = Inr r"
    and "evolves A (snd (case pageOf A cursor limit (listing v userId) of
      Inl e \<Rightarrow> Inl e | Inr js \<Rightarrow> Inr (map (JOB_REPORT_INCLUDE v) js), v)) u"
  then obtain js where js: "pageOf A cursor limit (listing v userId) = Inr js"
    "r = map (JOB_REPORT_INCLUDE v) js" and u: "evolves A v u"
    by (auto split: sum.splits)
  show "\<forall>jr \<in> set r. visible userId (jr_row jr) \<and> readable jr u"
    using pageOf_subset [OF js(1)] readable_include [OF evolves_inv(1) [OF v]]
      readable_stable [OF _ u] js(2)
    by (auto simp: listing_in subset_iff)
qed

section \<open>Writing jobs\<close>

lemma touch_simps [simp]:
  "job_keeps j (touch w k) = job_keeps j k" "job_ok (touch w k) = job_ok k"
  "j_pdfKey (touch w k) = j_pdfKey k" "j_deletedAt (touch w k) = j_deletedAt k"
  "j_status (touch w k) = j_status k" "j_id (touch w k) = j_id k" "j_userId (touch w k) = j_userId k"
  by (simp_all add: touch_def job_keeps_def job_ok_def)

text \<open>A change of a row that leaves keys, owner and deletion mark alone and does not set READY.\<close>

definition minor :: "(job_row \<Rightarrow> job_row) \<Rightarrow> bool" where
  "minor f \<longleftrightarrow> (\<forall>j. job_keeps j (f j) \<and> j_pdfKey (f j) = j_pdfKey j
     \<and> (j_deletedAt (f j) = None \<longrightarrow> j_deletedAt j = None)
     \<and> (j_status (f j) = READY \<longrightarrow> j_status j = READY))"

lemma evolves_minor: "inv A w \<Longrightarrow> minor f \<Longrightarrow> evolves A w (w\<lparr>jobs := upd P f (jobs w)\<rparr>)"
  by (rule evolves_jobs_minor) (auto simp: minor_def)

lemma minor_touch [simp]: "minor (\<lambda>j. touch w (f j)) = minor f" "minor (touch w)"
  by (simp_all add: minor_def)

lemma evolves_updateJob:
  assumes "inv A v" and "evolves A v (v\<lparr>jobs := upd (\<lambda>j. j_id j = i) (\<lambda>j. touch v (f j)) (jobs v)\<rparr>)"
  shows "evolves A v (snd (if i \<notin> j_id ` set (jobs v) then (Inl (prismaKnown A ''P2025''), v)
    else (Inr (), v\<lparr>jobs := upd (\<lambda>j. j_id j = i) (\<lambda>j. touch v (f j)) (jobs v)\<rparr>)))"
  using assms evolves_refl by simp

lemma ok_updateJob: "minor f \<Longrightarrow> ok A (\<lambda>_ _. True) (updateJob A i f) w"
  unfolding updateJob_def
  by (rule ok_remote, rule evolves_updateJob) (auto intro: evolves_minor evolves_inv)

lemma ok_setStatus: "st \<noteq> READY \<Longrightarrow> ok A (\<lambda>_ _. True) (setStatus A i st m) w"
  unfolding setStatus_def
  by (rule ok_updateJob) (auto simp: minor_def job_keeps_def Let_def split: field.split)

lemma ok_saveTranscript: "ok A (\<lambda>_ _. True) (saveTranscript A i t) w"
  unfolding saveTranscript_def by (rule ok_updateJob) (auto simp: minor_def job_keeps_def)

lemma ok_updateLabelScoped: "ok A (\<lambda>_ _. True) (updateLabelScoped A u i l) w"
  unfolding updateLabelScoped_def
proof (rule ok_remote)
  fix v assume v: "evolves A w v"
  have m: "minor (\<lambda>j. j\<lparr>j_label := l\<rparr>)" for l by (simp add: minor_def job_keeps_def)
  show "evolves A v (snd (case l of
       Null \<Rightarrow> (Inl (prismaValidation A), v)
     | Undefined \<Rightarrow> (Inr (), v\<lparr>jobs := upd (\<lambda>j. j_id j = i \<and> visible u j) (touch v) (jobs v)\<rparr>)
     | Given l \<Rightarrow> (Inr (), v\<lparr>jobs := upd (\<lambda>j. j_id j = i \<and> visible u j)
                     (\<lambda>j. touch v (j\<lparr>j_label := l\<rparr>)) (jobs v)\<rparr>)))"
    using evolves_inv(1) [OF v] evolves_minor [OF _ minor_touch(2)]
      evolves_minor [OF _ iffD2 [OF minor_touch(1) m]]
    by (auto split: field.split intro: evolves_refl)
qed simp

text \<open>Setting READY needs the job's own PDF key, and the object there unless the job is deleted.\<close>

definition pdfThere :: "js \<Rightarrow> js \<Rightarrow> world \<Rightarrow> bool" where
  "pdfThere u i w \<longleftrightarrow> owns (jobs w) u i
     \<and> (bucket w (pdfKey u i) \<noteq> None \<or> isDeleted i (jobs w))"

lemma pdfThere_stable: "pdfThere u i w \<Longrightarrow> evolves A w v \<Longrightarrow> pdfThere u i v"
proof -
  assume p: "pdfThere u i w" and e: "evolves A w v"
  from p obtain j where j: "j \<in> set (jobs w)" "j_id j = i" "j_userId j = u"
    by (auto simp: pdfThere_def owns_def)
  from e have "objects_kept (jobs w) (bucket w) (jobs v) (bucket v)"
    by (simp add: evolves_def grows_def)
  with j have "bucket w (pdfKey u i) \<noteq> None \<longrightarrow> bucket v (pdfKey u i) \<noteq> None \<or> isDeleted i (jobs v)"
    by (auto simp: objects_kept_def)
  with p owns_stable [OF _ e] isDeleted_stable [OF _ e] show "pdfThere u i v"
    unfolding pdfThere_def by blast
qed

lemma isDeleted_row: "inv A w \<Longrightarrow> isDeleted i (jobs w) \<Longrightarrow> j \<in> set (jobs w) \<Longrightarrow> j_id j = i \<Longrightarrow>
    j_deletedAt j \<noteq> None"
  by (auto simp: isDeleted_def inv_def jobs_inv_def distinct_map inj_on_def)

lemma ok_setPdfReady:
  assumes "pdfThere u i w"
  shows "ok A (\<lambda>_ _. True) (setPdfReady A i (pdfKey u i)) w"
  unfolding setPdfReady_def updateJob_def
proof (rule ok_remote, rule evolves_updateJob)
  fix v assume v: "evolves A w v"
  show i: "inv A v" by (rule evolves_inv [OF v])
  have p: "pdfThere u i v" by (rule pdfThere_stable [OF assms v])
  let ?f = "\<lambda>j. touch v (j\<lparr>j_pdfKey := Some (pdfKey u i), j_status := READY, j_errorMessage := None\<rparr>)"
  show "evolves A v (v\<lparr>jobs := upd (\<lambda>j. j_id j = i) ?f (jobs v)\<rparr>)"
  proof (rule evolves_jobs_upd [OF i])
    fix j assume j: "j \<in> set (jobs v)" "j_id j = i"
    have u: "j_userId j = u" using owns_unique [OF i _ j] p by (simp add: pdfThere_def)
    have "job_ok j" using i j by (simp add: inv_def jobs_inv_def)
    with u j show "job_keeps j (?f j) \<and> job_ok (?f j)"
      unfolding touch_simps by (auto simp: job_keeps_def job_ok_def)
    assume "j_deletedAt (?f j) = None"
    with isDeleted_row [OF i _ j] have "\<not> isDeleted i (jobs v)" by auto
    with p u j show "bucket v (pdfKey (j_userId j) (j_id j)) \<noteq> None" by (simp add: pdfThere_def)
  qed
qed simp

lemma ok_createDraft:
  assumes "47 \<notin> set i"
  shows "ok A (\<lambda>jr v. j_id (jr_row jr) = i \<and> visible u (jr_row jr) \<and> readable jr v)
    (createDraft A i u label (audioKey u i) key) w"
  unfolding createDraft_def
proof (rule ok_remote)
  fix v assume v: "evolves A w v"
  let ?row = "draftRow i u label (audioKey u i) key (clock v)"
  let ?dup = "\<exists>j \<in> set (jobs v). conflicts i u key j"
  let ?v' = "v\<lparr>jobs := jobs v @ [?row]\<rparr>"
  let ?f = "\<lambda>w. let row = draftRow i u label (audioKey u i) key (clock w) in
     if \<exists>j \<in> set (jobs w). conflicts i u key j
     then (Inl (prismaKnown A ''P2002''), w)
     else if u \<notin> u_id ` set (users w) then (Inl (prismaKnown A ''P2003''), w)
     else (let w' = w\<lparr>jobs := jobs w @ [row]\<rparr> in (Inr (JOB_REPORT_INCLUDE w' row), w'))"
  have row: "j_id ?row = i" "j_userId ?row = u" "j_idempotencyKey ?row = key" "j_pdfKey ?row = None"
    "j_deletedAt ?row = None" "job_ok ?row"
    using assms by (simp_all add: draftRow_def job_ok_def)
  have new: "evolves A v ?v'" if "\<not> ?dup" "u \<in> u_id ` set (users v)"
  proof (rule evolves_new_job)
    show "inv A v" by (rule evolves_inv [OF v])
    show "j_id ?row \<notin> j_id ` set (jobs v)" using that(1) row by (auto simp: conflicts_def)
    show "(j_userId ?row, j_idempotencyKey ?row) \<notin> (\<lambda>j. (j_userId j, j_idempotencyKey j)) ` set (jobs v)"
      if "j_idempotencyKey ?row \<noteq> None"
      using that \<open>\<not> ?dup\<close> unfolding conflicts_def row by blast
  qed (use that row in simp_all)
  show "evolves A v (snd (?f v))"
    using new evolves_refl [OF evolves_inv(1) [OF v]] by (simp add: Let_def)
  fix jr x assume r: "fst (?f v) = Inr jr" and x: "evolves A (snd (?f v)) x"
  from r have c: "\<not> ?dup" "u \<in> u_id ` set (users v)" and jr: "jr = JOB_REPORT_INCLUDE ?v' ?row"
    by (auto simp: Let_def split: if_splits)
  have "?f v = (Inr jr, ?v')" using c jr by (simp only: Let_def if_False not_True_eq_False if_True)
  with x have x: "evolves A ?v' x" by simp
  have "readable jr ?v'" unfolding jr
    by (rule readable_include [OF evolves_inv(1) [OF new [OF c]]]) simp
  from readable_stable [OF this x] jr row
  show "j_id (jr_row jr) = i \<and> visible u (jr_row jr) \<and> readable jr x" by simp
qed

lemma ok_softDeleteScoped:
  "ok A (\<lambda>n v. n \<noteq> 0 \<longrightarrow> isDeleted i (jobs v)) (softDeleteScoped u i) w"
  unfolding softDeleteScoped_def
proof (rule ok_remote)
  fix v assume v: "evolves A w v"
  let ?P = "\<lambda>j. j_id j = i \<and> visible u j"
  let ?f = "\<lambda>j. touch v (j\<lparr>j_deletedAt := Some (clock v)\<rparr>)"
  let ?v' = "v\<lparr>jobs := upd ?P ?f (jobs v)\<rparr>"
  show "evolves A v (snd (Inr (length (filter ?P (jobs v))), ?v'))"
    unfolding snd_conv
  proof (rule evolves_jobs_upd)
    fix j assume j: "j \<in> set (jobs v)" "?P j"
    have "job_ok j" using evolves_inv(1) [OF v] j by (simp add: inv_def jobs_inv_def)
    with j show "job_keeps j (?f j) \<and> job_ok (?f j)"
      unfolding touch_simps by (auto simp: job_keeps_def job_ok_def)
  qed (use evolves_inv [OF v] in simp_all)
  fix n u' assume n: "fst (Inr (length (filter ?P (jobs v))), ?v') = Inr n"
    and e: "evolves A (snd (Inr (length (filter ?P (jobs v))), ?v')) u'"
  show "n \<noteq> 0 \<longrightarrow> isDeleted i (jobs u')"
  proof
    assume "n \<noteq> 0"
    with n have "\<exists>j \<in> set (jobs v). ?P j" by (auto simp: filter_empty_conv)
    then obtain j where "j \<in> set (jobs v)" "?P j" by blast
    then have "?f j \<in> set (upd ?P ?f (jobs v))" "j_id (?f j) = i" "j_deletedAt (?f j) \<noteq> None"
      unfolding in_set_upd touch_simps by auto
    then have "isDeleted i (jobs ?v')" unfolding isDeleted_def by (intro bexI [of _ "?f j"]) simp_all
    then show "isDeleted i (jobs u')" by (rule isDeleted_stable) (use e in simp)
  qed
qed

section \<open>Events and parked jobs\<close>

lemma evolves_events: "inv A w \<Longrightarrow> evolves A w (w\<lparr>events := events w @ es\<rparr>)"
  and evolves_dlq: "inv A w \<Longrightarrow> evolves A w (w\<lparr>dlq := dlq w @ ds\<rparr>)"
  by (simp_all add: evolves_def inv_def grows_def extends_refl extends_append)

lemma ok_addEvent: "ok A (\<lambda>_ _. True) (addEvent A i stage st m) w"
  unfolding addEvent_def
  by (rule ok_remote) (auto intro: evolves_events evolves_refl evolves_inv)

section \<open>Reports\<close>

text \<open>The report tables may be rewritten as long as they stay well formed.\<close>

lemma evolves_report:
  assumes "inv A w" and "report_tables A n secs fs" and "s_jobId ` set secs \<subseteq> j_id ` set (jobs w)"
    and "entropy w \<le> n"
  shows "evolves A w (w\<lparr>entropy := n, sections := secs, findings := fs\<rparr>)"
  using assms by (simp add: evolves_def inv_def grows_def extends_refl)

definition txLawful :: "app \<Rightarrow> 'a tx \<Rightarrow> bool" where
  "txLawful A f \<longleftrightarrow> (\<forall>w. inv A w \<longrightarrow> evolves A w (snd (f w)))"

lemma txLawful_bind:
  assumes "txLawful A f" and "\<And>a. txLawful A (g a)"
  shows "txLawful A (txBind f g)"
  unfolding txLawful_def
proof (intro allI impI)
  fix w assume w: "inv A w"
  then have 1: "evolves A w (snd (f w))" using assms(1) by (simp add: txLawful_def)
  show "evolves A w (snd (txBind f g w))"
  proof (cases "f w")
    case (Pair r w')
    with 1 have e: "evolves A w w'" by simp
    have "evolves A w' (snd (g a w'))" for a
      using assms(2) evolves_inv(1) [OF e] by (simp add: txLawful_def)
    with Pair e evolves_trans show ?thesis
      by (cases r) (auto simp: txBind_def)
  qed
qed

lemma txLawful_Ret: "txLawful A (\<lambda>w. (Inr a, w))"
  by (simp add: txLawful_def evolves_refl)

text \<open>Removing the findings of a job, and then its sections.\<close>

lemma txLawful_delete:
  "txLawful A (\<lambda>w. deleteSections i (snd (deleteFindings i w)))"
  unfolding txLawful_def
proof (intro allI impI)
  fix w assume w: "inv A w"
  let ?fs = "filter (\<lambda>f. \<not> (\<exists>s \<in> set (sections w). s_id s = f_sectionId f \<and> s_jobId s = i)) (findings w)"
  let ?ss = "filter (\<lambda>s. s_jobId s \<noteq> i) (sections w)"
  have "report_tables A (entropy w) ?ss ?fs"
    using report_inv_deleted [of A w i] w
    by (simp add: report_inv_def inv_def deleteSections_def deleteFindings_def)
  moreover have "s_jobId ` set ?ss \<subseteq> j_id ` set (jobs w)" using w by (auto simp: inv_def)
  ultimately have "evolves A w (w\<lparr>entropy := entropy w, sections := ?ss, findings := ?fs\<rparr>)"
    by (intro evolves_report w) auto
  moreover have "snd (deleteSections i (snd (deleteFindings i w)))
      = w\<lparr>entropy := entropy w, sections := ?ss, findings := ?fs\<rparr>"
    by (rule world.equality) (simp_all add: deleteSections_def deleteFindings_def)
  ultimately show "evolves A w (snd (deleteSections i (snd (deleteFindings i w))))" by simp
qed

lemma txBind_delete: "txBind (deleteFindings i) (\<lambda>_. txBind (deleteSections i) (\<lambda>_. f))
    = txBind (\<lambda>w. deleteSections i (snd (deleteFindings i w))) (\<lambda>_. f)"
  by (rule ext) (simp add: txBind_def deleteFindings_def deleteSections_def)

lemma evolves_createSection:
  assumes "inv A w"
  shows "evolves A w (snd (createSection A i title n w))"
    and "fst (createSection A i title n w) = Inr sid \<Longrightarrow>
      sid \<in> s_id ` set (sections (snd (createSection A i title n w)))"
proof -
  let ?s = "\<lparr>s_id = uuid A (entropy w), s_jobId = i, s_title = title, s_sortOrder = n\<rparr>"
  have r: "report_inv A w" using assms by (simp add: inv_def report_inv_def)
  have "evolves A w (w\<lparr>entropy := Suc (entropy w), sections := sections w @ [?s], findings := findings w\<rparr>)"
    if "uuid A (entropy w) \<notin> s_id ` set (sections w)" "i \<in> j_id ` set (jobs w)"
  proof (rule evolves_report [OF assms])
    show "report_tables A (Suc (entropy w)) (sections w @ [?s]) (findings w)"
      using report_inv_add_section [OF r, of ?s] that by (simp add: report_inv_def)
    show "s_jobId ` set (sections w @ [?s]) \<subseteq> j_id ` set (jobs w)"
      using that(2) assms by (simp add: inv_def)
  qed simp
  then show "evolves A w (snd (createSection A i title n w))"
    using evolves_entropy [OF assms, of "Suc (entropy w)"] by (simp add: createSection_def Let_def)
  show "fst (createSection A i title n w) = Inr sid \<Longrightarrow>
      sid \<in> s_id ` set (sections (snd (createSection A i title n w)))"
    by (auto simp: createSection_def Let_def split: if_splits)
qed

lemma evolves_createFindings:
  assumes "inv A w" and "sid \<in> s_id ` set (sections w)"
  shows "evolves A w (snd (createFindings A sid fs w))"
proof -
  let ?r = "findingRows A sid (entropy w) 0 fs"
  have r: "report_inv A w" using assms by (simp add: inv_def report_inv_def)
  have "evolves A w (w\<lparr>entropy := entropy w + length fs, sections := sections w,
      findings := findings w @ ?r\<rparr>)" if d: "distinct (map f_id (findings w @ ?r))"
  proof (rule evolves_report [OF assms(1)])
    show "report_tables A (entropy w + length fs) (sections w) (findings w @ ?r)"
      using report_inv_add_findings [OF r assms(2) d] by (simp add: report_inv_def)
    show "s_jobId ` set (sections w) \<subseteq> j_id ` set (jobs w)" using assms(1) by (simp add: inv_def)
  qed simp
  then show ?thesis
    using evolves_entropy [OF assms(1), of "entropy w + length fs"]
    by (simp add: createFindings_def Let_def del: map_append)
qed

lemma txLawful_insertSections: "txLawful A (insertSections A i n secs)"
proof (induction secs arbitrary: n)
  case Nil
  show ?case by (simp add: txLawful_Ret)
next
  case (Cons sec rest)
  let ?rest = "insertSections A i (n + 1) rest"
  let ?cf = "\<lambda>sid. if length (rs_findings sec) > 0 then createFindings A sid (rs_findings sec)
      else (\<lambda>w. (Inr (), w))"
  show ?case
    unfolding txLawful_def
  proof (intro allI impI)
    fix w assume w: "inv A w"
    obtain r w' where c: "createSection A i (rs_title sec) n w = (r, w')" by (metis prod.exhaust)
    have e: "evolves A w w'" using evolves_createSection(1) [OF w] c by (metis snd_conv)
    show "evolves A w (snd (insertSections A i n (sec # rest) w))"
    proof (cases r)
      case (Inl x)
      with c e show ?thesis by (simp add: txBind_def)
    next
      case (Inr sid)
      with c have sid: "sid \<in> s_id ` set (sections w')"
        using evolves_createSection(2) [OF w, of i "rs_title sec" n sid] by simp
      have f: "evolves A w' (snd (?cf sid w'))"
        using evolves_createFindings [OF evolves_inv(1) [OF e] sid] evolves_refl [OF evolves_inv(1) [OF e]]
        by simp
      obtain r2 w2 where c2: "?cf sid w' = (r2, w2)" by (metis prod.exhaust)
      with f have e2: "evolves A w w2" using evolves_trans [OF e] by simp
      have e3: "evolves A w2 (snd (?rest w2))"
        using Cons.IH evolves_inv(1) [OF e2] by (simp add: txLawful_def)
      have "snd (insertSections A i n (sec # rest) w) = (case r2 of Inl _ \<Rightarrow> w2 | Inr _ \<Rightarrow> snd (?rest w2))"
        using c Inr c2 by (auto simp only: insertSections.simps txBind_def prod.case sum.case snd_conv split: sum.split)
      with e2 evolves_trans [OF e2 e3] show ?thesis by (simp split: sum.split)
    qed
  qed
qed

lemma txLawful_replace:
  "txLawful A f \<Longrightarrow> txLawful A (txBind (deleteFindings i) (\<lambda>_. txBind (deleteSections i) (\<lambda>_. f)))"
  unfolding txBind_delete by (rule txLawful_bind [OF txLawful_delete])

lemma ok_transaction_lawful: "txLawful A f \<Longrightarrow> ok A (\<lambda>_ _. True) (transaction f) w"
  by (rule ok_transaction) (auto simp: txLawful_def intro: evolves_inv)

lemma ok_replaceReport: "ok A (\<lambda>_ _. True) (replaceReport A i secs) w"
  unfolding replaceReport_def
  by (intro ok_transaction_lawful txLawful_replace txLawful_insertSections)

lemma txLawful_setLabel: "txLawful A (setLabel A u i l)"
proof -
  have "minor (\<lambda>j. case l of Given l \<Rightarrow> j\<lparr>j_label := l\<rparr> | _ \<Rightarrow> j)"
    by (auto simp: minor_def job_keeps_def split: field.split)
  then show ?thesis
    by (auto simp: txLawful_def setLabel_def intro: evolves_refl evolves_minor)
qed

lemma ok_replaceReportScoped: "ok A (\<lambda>_ _. True) (replaceReportScoped A u i l secs) w"
proof -
  have l: "txLawful A (txBind (deleteFindings i) (\<lambda>_. txBind (deleteSections i) (\<lambda>_.
      txBind (insertSections A i 0 secs) (\<lambda>_. setLabel A u i l))))"
    by (intro txLawful_replace txLawful_bind txLawful_insertSections txLawful_setLabel)
  show ?thesis
    unfolding replaceReportScoped_def
    by (rule ok_transaction_lawful) (use l in \<open>auto simp: txLawful_def intro: evolves_refl\<close>)
qed

section \<open>Objects\<close>

lemma slashless: "inv A w \<Longrightarrow> j \<in> set (jobs w) \<Longrightarrow> 47 \<notin> set (j_id j) \<and> 47 \<notin> set (j_userId j)"
  by (fastforce simp: inv_def jobs_inv_def job_ok_def users_inv_def)

lemma evolves_bucket:
  assumes "inv A w"
    and "\<And>j. j \<in> set (jobs w) \<Longrightarrow> bucket w (pdfKey (j_userId j) (j_id j)) \<noteq> None \<Longrightarrow>
      m (pdfKey (j_userId j) (j_id j)) \<noteq> None \<or> j_deletedAt j \<noteq> None"
  shows "evolves A w (w\<lparr>bucket := m\<rparr>)"
proof (rule evolvesI [OF assms(1)])
  have "pdf_stored (jobs w) (bucket w)" using assms(1) by (simp add: inv_def)
  then have "pdf_stored (jobs w) m" unfolding pdf_stored_def using assms(2) by blast
  then show "inv A (w\<lparr>bucket := m\<rparr>)" using assms(1) by (simp add: inv_def)
  have "objects_kept (jobs w) (bucket w) (jobs w) m"
    using assms(2) by (fastforce simp: objects_kept_def isDeleted_def)
  then show "grows w (w\<lparr>bucket := m\<rparr>)" by (simp add: grows_def extends_refl)
qed

lemma ok_objectExists: "ok A (\<lambda>_ _. True) (objectExists k) w"
  unfolding objectExists_def by (rule ok_query) simp

lemma ok_getObjectStream: "ok A (\<lambda>_ _. True) (getObjectStream A k) w"
  unfolding getObjectStream_def
  by (rule ok_remote) (auto split: option.split intro: evolves_refl evolves_inv)

lemma ok_putObject_pdf:
  assumes "owns (jobs w) u i"
  shows "ok A (\<lambda>_ v. pdfThere u i v) (putObject (pdfKey u i) body ct) w"
  unfolding putObject_def
proof (rule ok_command)
  fix v assume v: "evolves A w v"
  let ?v' = "v\<lparr>bucket := (bucket v)(pdfKey u i \<mapsto> \<lparr>o_body = body, o_contentType = ct\<rparr>)\<rparr>"
  show "evolves A v ?v'" by (rule evolves_bucket [OF evolves_inv(1) [OF v]]) simp
  fix x assume "evolves A ?v' x"
  moreover have "pdfThere u i ?v'" using owns_stable [OF assms v] by (simp add: pdfThere_def)
  ultimately show "pdfThere u i x" using pdfThere_stable by blast
qed

text \<open>The objects of a deleted job may be removed; no other job has the same keys.\<close>

lemma ok_deleteObjects:
  assumes "owns (jobs w) u i" and "isDeleted i (jobs w)"
    and "set ks \<subseteq> {[], audioKey u i, pdfKey u i}"
  shows "ok A (\<lambda>_ _. True) (deleteObjects ks) w"
proof -
  let ?present = "filter (\<lambda>k. length k > 0) ks"
  have "ok A (\<lambda>_ _. True) (command (\<lambda>w. w\<lparr>bucket := (bucket w) |` (- set ?present)\<rparr>)) w"
  proof (rule ok_command)
    fix v assume v: "evolves A w v"
    note inv = evolves_inv(1) [OF v]
    show "evolves A v (v\<lparr>bucket := (bucket v) |` (- set ?present)\<rparr>)"
    proof (rule evolves_bucket [OF inv])
      fix j assume j: "j \<in> set (jobs v)" and b: "bucket v (pdfKey (j_userId j) (j_id j)) \<noteq> None"
      obtain j0 where j0: "j0 \<in> set (jobs v)" "j_id j0 = i" "j_userId j0 = u"
        using owns_stable [OF assms(1) v] by (auto simp: owns_def)
      show "((bucket v) |` (- set ?present)) (pdfKey (j_userId j) (j_id j)) \<noteq> None \<or> j_deletedAt j \<noteq> None"
      proof (cases "pdfKey (j_userId j) (j_id j) \<in> set ?present")
        case True
        then have "pdfKey (j_userId j) (j_id j) = pdfKey u i"
          using assms(3) by (auto dest!: subsetD simp: audioKey_neq_pdfKey [symmetric])
        with slashless [OF inv j] slashless [OF inv j0(1)] j0 pdfKey_inj have "j_id j = i" by blast
        with isDeleted_row [OF inv isDeleted_stable [OF assms(2) v] j] show ?thesis by simp
      next
        case False
        with b show ?thesis by (simp add: restrict_map_def)
      qed
    qed
  qed simp
  then show ?thesis by (simp add: deleteObjects_def Let_def)
qed

lemma ok_presignAudioUpload: "ok A (\<lambda>r _. pu_key r = audioKey u i) (presignAudioUpload A u i) w"
  unfolding presignAudioUpload_def Let_def by (rule ok_bind [OF ok_now]) simp

lemma ok_presignPdfDownload: "ok A (\<lambda>_ _. True) (presignPdfDownload A k) w"
  unfolding presignPdfDownload_def Let_def by (rule ok_bind [OF ok_now]) simp

section \<open>The queue\<close>

lemma evolves_queue: "inv A w \<Longrightarrow> queue_ok (jobs w) q \<Longrightarrow> evolves A w (w\<lparr>queue := q\<rparr>)"
  by (simp add: evolves_def inv_def grows_def extends_refl)

lemma ok_getJob: "ok A (\<lambda>_ _. True) (getJob i) w"
  unfolding getJob_def by (rule ok_query) simp

lemma ok_getState: "ok A (\<lambda>_ _. True) (getState b) w"
  unfolding getState_def by (rule ok_query) simp

lemma queue_ok_filter: "queue_ok js q \<Longrightarrow> queue_ok js (filter P q)"
  by (simp add: queue_ok_def distinct_map_filter)

lemma ok_removeJob: "ok A (\<lambda>_ _. True) (removeJob A b) w"
  unfolding removeJob_def
proof (rule ok_remote)
  fix v assume v: "evolves A w v"
  have "queue_ok (jobs v) (queue v)" using evolves_inv(1) [OF v] by (simp add: inv_def)
  then show "evolves A v (snd (if \<exists>c \<in> set (queue v). b_id c = b_id b \<and> b_state c = BActive
     then (Inl (PlainError (libraryMessage A (lit ''locked''))), v)
     else (Inr (), v\<lparr>queue := filter (\<lambda>c. b_id c \<noteq> b_id b) (queue v)\<rparr>)))"
    using evolves_inv(1) [OF v] by (simp add: evolves_refl evolves_queue queue_ok_filter)
qed simp

lemma ok_addJob:
  assumes "owns (jobs w) (pj_userId d) (pj_jobId d)"
  shows "ok A (\<lambda>_ _. True) (addJob d (pj_jobId d) n) w"
  unfolding addJob_def
proof (rule ok_command)
  fix v assume v: "evolves A w v"
  let ?b = "\<lparr>b_id = pj_jobId d, b_data = d, b_attempts = n, b_attemptsMade = 0, b_state = BWaiting\<rparr>"
  have "queue_ok (jobs v) (queue v)" using evolves_inv(1) [OF v] by (simp add: inv_def)
  then have "queue_ok (jobs v) (queue v @ [?b])" if "pj_jobId d \<notin> b_id ` set (queue v)"
    using that owns_stable [OF assms v] by (auto simp: queue_ok_def)
  then show "evolves A v (if pj_jobId d \<in> b_id ` set (queue v) then v
      else v\<lparr>queue := queue v @ [?b]\<rparr>)"
    using evolves_inv(1) [OF v] by (simp add: evolves_refl evolves_queue)
qed simp

lemma ok_enqueueProcessing:
  assumes "owns (jobs w) (pj_userId d) (pj_jobId d)"
  shows "ok A (\<lambda>_ _. True) (enqueueProcessing A d) w"
  unfolding enqueueProcessing_def Let_def
proof (rule ok_bind [OF ok_getJob])
  fix b v assume v: "evolves A w v"
  note own = owns_stable [OF assms v]
  show "ok A (\<lambda>_ _. True) (case b of None \<Rightarrow> addJob d (pj_jobId d) (nat (jobMaxAttempts (ai (cfg A))))
    | Some b \<Rightarrow> bindP (getState b) (\<lambda>state. if state = Some BCompleted \<or> state = Some BFailed
        then seqP (removeJob A b) (addJob d (pj_jobId d) (nat (jobMaxAttempts (ai (cfg A)))))
        else Ret ())) v"
  proof (cases b)
    case None
    then show ?thesis using ok_addJob [OF own] by simp
  next
    case (Some c)
    have "ok A (\<lambda>_ _. True) (seqP (removeJob A c) (addJob d (pj_jobId d) n)) x"
      if "evolves A v x" for x n
      by (rule ok_seq [OF ok_removeJob]) (rule ok_addJob, meson own that owns_stable)
    then show ?thesis using Some
      by (auto intro!: ok_bind [OF ok_getState])
  qed
qed

end
