(* ===== verification/Jobs_Service.thy ===== *)
theory Jobs_Service
  imports Safety
begin

text \<open>
  The jobs API behind the controller: the mapper of \<^verbatim>\<open>server/src/jobs/job.mapper.ts\<close> and the methods of
  \<^verbatim>\<open>server/src/jobs/jobs.service.ts\<close>, with what they do without interference (every branch), what they
  return whatever else happens at the same time, pagination, and edits.
\<close>

section \<open>The mapper\<close>

definition findingToDto :: "finding_row \<Rightarrow> FindingDto" where
  "findingToDto f = \<lparr>fd_id = f_id f, fd_text = f_text f, fd_severity = severityToApi (f_severity f),
     fd_sortOrder = f_sortOrder f\<rparr>"

definition sectionToDto :: "section_row \<times> finding_row list \<Rightarrow> SectionDto" where
  "sectionToDto p = \<lparr>sd_id = s_id (fst p), sd_title = s_title (fst p), sd_sortOrder = s_sortOrder (fst p),
     sd_findings = map findingToDto (sort_key f_sortOrder (snd p))\<rparr>"

definition jobToDto :: "JobWithReport \<Rightarrow> js option \<Rightarrow> JobDto" where
  "jobToDto jr pdfUrl = (let job = jr_row jr in
     \<lparr>jd_id = j_id job, jd_label = j_label job, jd_status = j_status job,
      jd_transcript = j_transcript job, jd_errorMessage = j_errorMessage job,
      jd_sections = map sectionToDto (sort_key (s_sortOrder \<circ> fst) (jr_sections jr)),
      jd_pdfUrl = pdfUrl, jd_createdAt = j_createdAt job, jd_updatedAt = j_updatedAt job\<rparr>)"

section \<open>The service\<close>

definition IN_FLIGHT :: "JobStatus set" where
  "IN_FLIGHT = {QUEUED, TRANSCRIBING, COMPILING, RENDERING}"

definition jobNotFound :: err where
  "jobNotFound = HttpException NotFound (lit ''Job not found.'')"

definition requireOwned :: "js \<Rightarrow> js \<Rightarrow> JobWithReport io" where
  "requireOwned userId jobId = bindP (findScoped userId jobId) (\<lambda>job.
     case job of None \<Rightarrow> Throw jobNotFound | Some jr \<Rightarrow> Ret jr)"

definition maybePdfUrl :: "app \<Rightarrow> job_row \<Rightarrow> js option io" where
  "maybePdfUrl A job =
     (if j_status job \<noteq> READY \<or> \<not> truthy_opt (j_pdfKey job) then Ret None
      else bindP (presignPdfDownload A (the (j_pdfKey job))) (\<lambda>r. Ret (Some (pd_url r))))"

definition toReportInput :: "UpdateSectionDto list option \<Rightarrow> ReportSectionInput list" where
  "toReportInput secs =
     map (\<lambda>s. \<lparr>rs_title = us_title s,
                rs_findings = map (\<lambda>f. \<lparr>rf_text = uf_text f, rf_severity = severityFromApi (uf_severity f)\<rparr>)
                  (sort_key uf_sortOrder (us_findings s))\<rparr>)
       (sort_key us_sortOrder (case secs of None \<Rightarrow> [] | Some ss \<Rightarrow> ss))"

definition create :: "app \<Rightarrow> js \<Rightarrow> CreateJobDto \<Rightarrow> js option \<Rightarrow> CreateJobResponseDto io" where
  "create A userId dto idempotencyKey =
     (let draft =
        bindP draw (\<lambda>n.
          let i = uuid A n; key = audioKey userId i in
          bindP (createDraft A i userId (cj_label dto) key idempotencyKey) (\<lambda>job.
          bindP (presignAudioUpload A userId i) (\<lambda>upload.
            Ret \<lparr>cr_job = jobToDto job None, cr_audioUploadUrl = upload\<rparr>)))
      in
      if truthy_opt idempotencyKey then
        bindP (findByIdempotencyKey userId (the idempotencyKey)) (\<lambda>existing.
          case existing of
            Some jr \<Rightarrow>
              bindP (presignAudioUpload A userId (j_id (jr_row jr))) (\<lambda>upload.
                Ret \<lparr>cr_job = jobToDto jr None, cr_audioUploadUrl = upload\<rparr>)
          | None \<Rightarrow> draft)
      else draft)"

text \<open>\<^verbatim>\<open>jobs[jobs.length - 1].id\<close> of an empty array throws; it is read only for a full page.\<close>

definition lastOfEmpty :: err where
  "lastOfEmpty = PlainError (lit ''Cannot read properties of undefined (reading 'id')'')"

definition list :: "app \<Rightarrow> js \<Rightarrow> js option \<Rightarrow> nat \<Rightarrow> PaginatedJobs io" where
  "list A userId cursor limit = bindP (listScoped A userId cursor limit) (\<lambda>js.
     let items = map (\<lambda>jr. jobToDto jr None) js in
     if length js = limit then
       (if js = [] then Throw lastOfEmpty
        else Ret \<lparr>pg_items = items, pg_nextCursor = Some (j_id (jr_row (last js)))\<rparr>)
     else Ret \<lparr>pg_items = items, pg_nextCursor = None\<rparr>)"

definition findOne :: "app \<Rightarrow> js \<Rightarrow> js \<Rightarrow> JobDto io" where
  "findOne A userId jobId = bindP (requireOwned userId jobId) (\<lambda>job.
     bindP (maybePdfUrl A (jr_row job)) (\<lambda>url. Ret (jobToDto job url)))"

definition update :: "app \<Rightarrow> js \<Rightarrow> js \<Rightarrow> UpdateJobDto \<Rightarrow> JobDto io" where
  "update A userId jobId dto = bindP (requireOwned userId jobId) (\<lambda>_.
     seqP
       (if uj_sections dto \<noteq> Undefined then
          replaceReportScoped A userId jobId (uj_label dto)
            (toReportInput (case uj_sections dto of Given ss \<Rightarrow> Some ss | _ \<Rightarrow> None))
        else if uj_label dto \<noteq> Undefined then updateLabelScoped A userId jobId (uj_label dto)
        else Ret ())
       (findOne A userId jobId))"

definition audioMissing :: err where
  "audioMissing = HttpException BadRequest (lit ''Audio has not been uploaded yet.'')"

definition process :: "app \<Rightarrow> js \<Rightarrow> js \<Rightarrow> JobDto io" where
  "process A userId jobId = bindP (requireOwned userId jobId) (\<lambda>job.
     let row = jr_row job in
     if j_status row = READY then bindP (maybePdfUrl A row) (\<lambda>url. Ret (jobToDto job url))
     else if j_status row \<in> IN_FLIGHT then Ret (jobToDto job None)
     else
       (let key = (case j_audioKey row of Some k \<Rightarrow> k | None \<Rightarrow> audioKey userId jobId) in
        bindP (objectExists key) (\<lambda>uploaded.
          if \<not> uploaded then Throw audioMissing
          else
            seqP (setStatus A jobId QUEUED Null)
           (seqP (enqueueProcessing A \<lparr>pj_jobId = jobId, pj_userId = userId\<rparr>)
           (bindP (findScoped userId jobId) (\<lambda>refreshed.
              Ret (jobToDto (case refreshed of Some r \<Rightarrow> r | None \<Rightarrow> job) None)))))))"

definition presentKeys :: "job_row \<Rightarrow> js list" where
  "presentKeys job = map the (filter truthy_opt [j_audioKey job, j_pdfKey job])"

definition remove :: "js \<Rightarrow> js \<Rightarrow> unit io" where
  "remove userId jobId = bindP (requireOwned userId jobId) (\<lambda>job.
     bindP (softDeleteScoped userId jobId) (\<lambda>count.
       if count = 0 then Throw jobNotFound
       else catchP (deleteObjects (presentKeys (jr_row job))) (\<lambda>err. Ret ())))"

definition pdfNotReady :: err where
  "pdfNotReady = HttpException Conflict (lit ''PDF is not ready for this job.'')"

definition getPdfUrl :: "app \<Rightarrow> js \<Rightarrow> js \<Rightarrow> PdfUrlDto io" where
  "getPdfUrl A userId jobId = bindP (requireOwned userId jobId) (\<lambda>job.
     if j_status (jr_row job) \<noteq> READY \<or> \<not> truthy_opt (j_pdfKey (jr_row job)) then Throw pdfNotReady
     else presignPdfDownload A (the (j_pdfKey (jr_row job))))"

section \<open>Under interference\<close>

text \<open>What a response may speak of: a job of the user.\<close>

definition dtoOf :: "js \<Rightarrow> JobDto \<Rightarrow> world \<Rightarrow> bool" where
  "dtoOf u d w \<longleftrightarrow> owns (jobs w) u (jd_id d)"

lemma jobToDto_id [simp]: "jd_id (jobToDto jr url) = j_id (jr_row jr)"
  by (simp add: jobToDto_def Let_def)

lemma readable_dto: "readable jr w \<Longrightarrow> j_userId (jr_row jr) = u \<Longrightarrow> dtoOf u (jobToDto jr url) w"
  by (auto simp: dtoOf_def readable_def dest: seen_owns)

lemma ok_requireOwned: "ok A (\<lambda>jr v. (j_id (jr_row jr) = i \<and> visible u (jr_row jr)) \<and> readable jr v)
    (requireOwned u i) w"
  unfolding requireOwned_def
  by (rule ok_bind [OF ok_findScoped]) (auto split: option.split intro: readable_stable)

lemma ok_maybePdfUrl: "ok A (\<lambda>_ _. True) (maybePdfUrl A row) w"
  unfolding maybePdfUrl_def by (auto intro!: ok_bind [OF ok_presignPdfDownload])

lemma ok_Ret_dto:
  "readable jr w \<Longrightarrow> j_userId (jr_row jr) = u \<Longrightarrow> ok A (\<lambda>d v. dtoOf u d v) (Ret (jobToDto jr url)) w"
  by (auto intro: readable_stable readable_dto)

lemma ok_findOne: "ok A (\<lambda>d v. jd_id d = i \<and> dtoOf u d v) (findOne A u i) w"
  unfolding findOne_def
proof (rule ok_bind [OF ok_requireOwned])
  fix jr v assume jr: "(j_id (jr_row jr) = i \<and> visible u (jr_row jr)) \<and> readable jr v"
  show "ok A (\<lambda>d v. jd_id d = i \<and> dtoOf u d v)
      (bindP (maybePdfUrl A (jr_row jr)) (\<lambda>url. Ret (jobToDto jr url))) v"
    by (rule ok_bind [OF ok_maybePdfUrl]) (use jr in \<open>auto intro: readable_stable readable_dto\<close>)
qed

lemma ok_update: "ok A (\<lambda>d v. jd_id d = i \<and> dtoOf u d v) (update A u i dto) w"
  unfolding update_def
  by (rule ok_bind [OF ok_requireOwned], rule ok_seq [where P = "\<lambda>_ _. True"])
    (auto intro: ok_replaceReportScoped ok_updateLabelScoped ok_findOne)

lemma ok_list: "ok A (\<lambda>p v. \<forall>d \<in> set (pg_items p). dtoOf u d v) (list A u c n) w"
  unfolding list_def
  by (rule ok_bind [OF ok_listScoped])
    (auto simp: Let_def intro!: readable_dto intro: readable_stable)

lemma ok_create:
  assumes "uuid_source_ok A"
  shows "ok A (\<lambda>r v. dtoOf u (cr_job r) v \<and> pu_key (cr_audioUploadUrl r) = audioKey u (jd_id (cr_job r)))
    (create A u dto key) w"
proof -
  let ?Q = "\<lambda>r v. dtoOf u (cr_job r) v \<and> pu_key (cr_audioUploadUrl r) = audioKey u (jd_id (cr_job r))"
  let ?draft = "bindP draw (\<lambda>n. let i = uuid A n; key' = audioKey u i in
          bindP (createDraft A i u (cj_label dto) key' key) (\<lambda>job.
          bindP (presignAudioUpload A u i) (\<lambda>upload.
            Ret \<lparr>cr_job = jobToDto job None, cr_audioUploadUrl = upload\<rparr>)))"
  have upload: "ok A ?Q (bindP (presignAudioUpload A u (j_id (jr_row jr))) (\<lambda>upload.
      Ret \<lparr>cr_job = jobToDto jr None, cr_audioUploadUrl = upload\<rparr>)) v"
    if "readable jr v" "j_userId (jr_row jr) = u" for jr v
    by (rule ok_bind [OF ok_presignAudioUpload])
      (use that in \<open>auto intro: readable_stable readable_dto\<close>)
  have draft: "ok A ?Q ?draft v" for v
  proof (rule ok_bind [OF ok_draw])
    fix n v
    have "47 \<notin> set (uuid A n)" using assms by (simp add: uuid_source_ok_def)
    then show "ok A ?Q (let i = uuid A n; key' = audioKey u i in
          bindP (createDraft A i u (cj_label dto) key' key) (\<lambda>job.
          bindP (presignAudioUpload A u i) (\<lambda>upload.
            Ret \<lparr>cr_job = jobToDto job None, cr_audioUploadUrl = upload\<rparr>))) v"
      unfolding Let_def
    proof (rule ok_bind [OF ok_createDraft])
      fix jr v
      assume "j_id (jr_row jr) = uuid A n \<and> visible u (jr_row jr) \<and> readable jr v"
      then show "ok A ?Q (bindP (presignAudioUpload A u (uuid A n)) (\<lambda>upload.
          Ret \<lparr>cr_job = jobToDto jr None, cr_audioUploadUrl = upload\<rparr>)) v"
        using upload [of jr v] by simp
    qed
  qed
  show ?thesis
    unfolding create_def Let_def
    using draft [unfolded Let_def] upload
    by (auto intro!: ok_bind [OF ok_findByIdempotencyKey] split: option.split)
qed

text \<open>The part of \<^verbatim>\<open>process\<close> from the row's update on.\<close>

lemma ok_start:
  assumes jr: "(j_id (jr_row jr) = i \<and> visible u (jr_row jr)) \<and> readable jr x"
  shows "ok A (\<lambda>d v. jd_id d = i \<and> dtoOf u d v) (seqP (setStatus A i QUEUED Null)
      (seqP (enqueueProcessing A \<lparr>pj_jobId = i, pj_userId = u\<rparr>)
      (bindP (findScoped u i) (\<lambda>refreshed.
        Ret (jobToDto (case refreshed of Some r \<Rightarrow> r | None \<Rightarrow> jr) None))))) x"
proof (rule ok_seq [OF ok_setStatus])
  fix y assume "evolves A x y"
  with jr have y: "readable jr y" by (auto intro: readable_stable)
  then have own: "owns (jobs y) u i" using jr by (auto simp: readable_def dest: seen_owns)
  show "ok A (\<lambda>d v. jd_id d = i \<and> dtoOf u d v) (seqP (enqueueProcessing A \<lparr>pj_jobId = i, pj_userId = u\<rparr>)
    (bindP (findScoped u i) (\<lambda>refreshed. Ret (jobToDto (case refreshed of Some r \<Rightarrow> r | None \<Rightarrow> jr) None)))) y"
  proof (rule ok_seq [OF ok_enqueueProcessing])
    fix z assume "evolves A y z"
    with y have "readable jr z" by (rule readable_stable)
    then show "ok A (\<lambda>d v. jd_id d = i \<and> dtoOf u d v) (bindP (findScoped u i) (\<lambda>refreshed.
        Ret (jobToDto (case refreshed of Some r \<Rightarrow> r | None \<Rightarrow> jr) None))) z"
      by (intro ok_bind [OF ok_findScoped])
        (use jr in \<open>auto split: option.split intro: readable_stable readable_dto\<close>)
  qed (use own in simp)
qed simp

lemma ok_process: "ok A (\<lambda>d v. jd_id d = i \<and> dtoOf u d v) (process A u i) w"
  unfolding process_def Let_def
proof (rule ok_bind [OF ok_requireOwned])
  fix jr v assume jr: "(j_id (jr_row jr) = i \<and> visible u (jr_row jr)) \<and> readable jr v"
  let ?Q = "\<lambda>d v. jd_id d = i \<and> dtoOf u d v"
  let ?start = "\<lambda>uploaded. if \<not> uploaded then Throw audioMissing
          else seqP (setStatus A i QUEUED Null)
           (seqP (enqueueProcessing A \<lparr>pj_jobId = i, pj_userId = u\<rparr>)
           (bindP (findScoped u i) (\<lambda>refreshed.
              Ret (jobToDto (case refreshed of Some r \<Rightarrow> r | None \<Rightarrow> jr) None))))"
  have "ok A ?Q (bindP (maybePdfUrl A (jr_row jr)) (\<lambda>url. Ret (jobToDto jr url))) v"
    by (rule ok_bind [OF ok_maybePdfUrl]) (use jr in \<open>auto intro: readable_stable readable_dto\<close>)
  moreover have "ok A ?Q (Ret (jobToDto jr None)) v"
    using jr by (auto intro: readable_stable readable_dto)
  moreover have "ok A ?Q (?start uploaded) x" if "evolves A v x" for uploaded x
    using ok_start [of jr i u x A] jr readable_stable [OF _ that] by simp
  then have "ok A ?Q (bindP (objectExists k) ?start) v" for k
    by (intro ok_bind [OF ok_objectExists])
  ultimately show "ok A ?Q (if j_status (jr_row jr) = READY then bindP (maybePdfUrl A (jr_row jr)) (\<lambda>url. Ret (jobToDto jr url))
     else if j_status (jr_row jr) \<in> IN_FLIGHT then Ret (jobToDto jr None)
     else bindP (objectExists (case j_audioKey (jr_row jr) of Some k \<Rightarrow> k | None \<Rightarrow> audioKey u i)) ?start) v"
    by simp
qed

lemma presentKeys_of:
  "job_ok row \<Longrightarrow> set (presentKeys row) \<subseteq> {[], audioKey (j_userId row) (j_id row), pdfKey (j_userId row) (j_id row)}"
  by (auto simp: presentKeys_def job_ok_def truthy_opt_def split: option.splits)

lemma ok_remove: "ok A (\<lambda>_ v. isDeleted i (jobs v)) (remove u i) w"
  unfolding remove_def
proof (rule ok_bind [OF ok_requireOwned])
  fix jr v assume jr: "(j_id (jr_row jr) = i \<and> visible u (jr_row jr)) \<and> readable jr v"
  show "ok A (\<lambda>_ v. isDeleted i (jobs v)) (bindP (softDeleteScoped u i) (\<lambda>count.
       if count = 0 then Throw jobNotFound
       else catchP (deleteObjects (presentKeys (jr_row jr))) (\<lambda>err. Ret ()))) v"
  proof (rule ok_bind [OF ok_softDeleteScoped])
    fix n x assume n: "n \<noteq> 0 \<longrightarrow> isDeleted i (jobs x)" and x: "evolves A v x"
    have own: "owns (jobs x) u i"
      using jr x seen_stable seen_owns by (fastforce simp: readable_def)
    have "ok A (\<lambda>_ v. isDeleted i (jobs v)) (catchP (deleteObjects (presentKeys (jr_row jr))) (\<lambda>err. Ret ())) x"
      if d: "isDeleted i (jobs x)"
    proof (rule ok_catch)
      have keys: "set (presentKeys (jr_row jr)) \<subseteq> {[], audioKey u i, pdfKey u i}"
        using presentKeys_of [of "jr_row jr"] jr by (auto simp: readable_def)
      show "wpr (evolves A) (\<lambda>_ v. isDeleted i (jobs v)) (\<lambda>_ _. True)
          (deleteObjects (presentKeys (jr_row jr))) x"
        by (rule wpr_mono [OF ev.wpr_frame [OF ok_deleteObjects [OF own d keys]]])
          (use d isDeleted_stable in blast)+
      fix y assume "evolves A x y"
      with d have "isDeleted i (jobs y)" by (rule isDeleted_stable)
      then show "ok A (\<lambda>_ v. isDeleted i (jobs v)) (Ret ()) y"
        by (intro ok_Ret) (rule isDeleted_stable)
    qed
    with n show "ok A (\<lambda>_ v. isDeleted i (jobs v)) (if n = 0 then Throw jobNotFound
       else catchP (deleteObjects (presentKeys (jr_row jr))) (\<lambda>err. Ret ())) x" by simp
  qed
qed

lemma ok_getPdfUrl: "ok A (\<lambda>_ _. True) (getPdfUrl A u i) w"
  unfolding getPdfUrl_def
  by (rule ok_bind [OF ok_requireOwned]) (auto intro: ok_presignPdfDownload)

end
