(* ===== verification/Jobs_Behaviour.thy ===== *)
theory Jobs_Behaviour
  imports Jobs_Service
begin

text \<open>
  What each method of the jobs service does when no call fails and nobody else acts: results and
  state on every branch, pagination over all pages, edits read back, idempotent creation; and what
  a failing call can leave behind.
\<close>

section \<open>Running the service\<close>

abbreviation ownRow :: "world \<Rightarrow> js \<Rightarrow> js \<Rightarrow> job_row option" where
  "ownRow w u i \<equiv> find (\<lambda>j. j_id j = i \<and> visible u j) (jobs w)"

lemma run_findScoped [simp]: "faults w = [] \<Longrightarrow>
    run (findScoped u i) w = (Inr (map_option (JOB_REPORT_INCLUDE w) (ownRow w u i)), w)"
  by (simp add: findScoped_def)

lemma run_requireOwned: "faults w = [] \<Longrightarrow>
    run (requireOwned u i) w = (case ownRow w u i of None \<Rightarrow> (Inl jobNotFound, w)
      | Some j \<Rightarrow> (Inr (JOB_REPORT_INCLUDE w j), w))"
  by (simp add: requireOwned_def split: option.split)

text \<open>The signed link of a READY job.\<close>

definition pdfLink :: "app \<Rightarrow> world \<Rightarrow> job_row \<Rightarrow> js option" where
  "pdfLink A w j = (if j_status j = READY \<and> truthy_opt (j_pdfKey j)
     then Some (getSignedUrl A (GetOp (r2_bucket (r2 (cfg A))) (the (j_pdfKey j)))
            (presignGetTtl (r2 (cfg A))) (clock w))
     else None)"

lemma run_maybePdfUrl [simp]: "run (maybePdfUrl A j) w = (Inr (pdfLink A w j), w)"
  by (simp add: maybePdfUrl_def pdfLink_def)

lemma run_findOne: "faults w = [] \<Longrightarrow> run (findOne A u i) w = (case ownRow w u i of
      None \<Rightarrow> (Inl jobNotFound, w)
    | Some j \<Rightarrow> (Inr (jobToDto (JOB_REPORT_INCLUDE w j) (pdfLink A w j)), w))"
  by (simp add: findOne_def run_requireOwned split: option.split)

text \<open>
  C8. A job that is not the caller's, or that is deleted, does not exist for the caller: reading it,
  editing it, starting its processing, asking for its PDF and deleting it all answer with the
  same 404 error and change nothing at all.
\<close>

theorem foreign_job_not_found:
  assumes "faults w = []" and "\<forall>j \<in> set (jobs w). j_id j = i \<longrightarrow> j_userId j \<noteq> u \<or> j_deletedAt j \<noteq> None"
  shows "run (findOne A u i) w = (Inl jobNotFound, w) \<and> run (update A u i dto) w = (Inl jobNotFound, w)
    \<and> run (process A u i) w = (Inl jobNotFound, w) \<and> run (getPdfUrl A u i) w = (Inl jobNotFound, w)
    \<and> run (remove u i) w = (Inl jobNotFound, w)"
proof -
  have "ownRow w u i = None" using assms(2) by (auto simp: find_None_iff)
  with assms(1) show ?thesis
    by (simp add: run_findOne update_def process_def getPdfUrl_def remove_def run_requireOwned)
qed

theorem foreign_job_not_found_witness:
  "run (findOne sampleApp (lit ''u2'') (lit ''j1'')) (emptyWorld\<lparr>jobs := [sampleJob]\<rparr>)
     = (Inl jobNotFound, emptyWorld\<lparr>jobs := [sampleJob]\<rparr>)"
proof -
  have "faults (emptyWorld\<lparr>jobs := [sampleJob]\<rparr>) = []" by (simp add: emptyWorld_def)
  moreover have "\<forall>j \<in> set (jobs (emptyWorld\<lparr>jobs := [sampleJob]\<rparr>)). j_id j = lit ''j1'' \<longrightarrow>
      j_userId j \<noteq> lit ''u2'' \<or> j_deletedAt j \<noteq> None"
    by (simp add: sampleJob_def)
  ultimately show ?thesis by (rule foreign_job_not_found [THEN conjunct1])
qed

section \<open>The PDF link\<close>

lemma run_getPdfUrl_ready:
  assumes "faults w = []" and "inv A w" and "ownRow w u i = Some j" and "j_status j = READY"
  shows "run (getPdfUrl A u i) w = (Inr \<lparr>pd_url = getSignedUrl A (GetOp (r2_bucket (r2 (cfg A))) (pdfKey u i))
           (presignGetTtl (r2 (cfg A))) (clock w),
         pd_expiresInSeconds = nat (presignGetTtl (r2 (cfg A)))\<rparr>, w) \<and> bucket w (pdfKey u i) \<noteq> None"
proof -
  from find_SomeD [OF assms(3)] have j: "j \<in> set (jobs w)" "j_id j = i" "visible u j" by auto
  then have "job_ok j" and st: "pdf_stored (jobs w) (bucket w)"
    using assms(2) by (auto simp: inv_def jobs_inv_def)
  with j assms(4) have "j_pdfKey j = Some (pdfKey u i)" by (auto simp: job_ok_def)
  moreover from this st j have "bucket w (pdfKey u i) \<noteq> None" by (auto simp: pdf_stored_def)
  ultimately show ?thesis using assms(1,3,4) by (simp add: getPdfUrl_def run_requireOwned)
qed

text \<open>
  The PDF link of a job is handed out exactly when the job is READY, for the key of that very
  job, and then the object is in the bucket; otherwise the answer is the 409 error. Nothing changes.
\<close>

theorem pdf_link_valid:
  assumes "faults w = []" and "inv A w" and "ownRow w u i = Some j"
  shows "if j_status j = READY
    then run (getPdfUrl A u i) w = (Inr \<lparr>pd_url = getSignedUrl A (GetOp (r2_bucket (r2 (cfg A))) (pdfKey u i))
           (presignGetTtl (r2 (cfg A))) (clock w),
         pd_expiresInSeconds = nat (presignGetTtl (r2 (cfg A)))\<rparr>, w) \<and> bucket w (pdfKey u i) \<noteq> None
    else run (getPdfUrl A u i) w = (Inl pdfNotReady, w)"
  using run_getPdfUrl_ready [OF assms] assms(1,3)
  by (simp add: getPdfUrl_def run_requireOwned)

theorem pdf_link_valid_witness:
  "bucket sampleWorld (pdfKey (lit ''u1'') (lit ''j2'')) \<noteq> None"
proof -
  have "ownRow sampleWorld (lit ''u1'') (lit ''j2'') = Some sampleReady" by simp
  from pdf_link_valid [OF _ sample_inv this] show ?thesis by simp
qed

section \<open>Starting the pipeline\<close>

definition startable :: "JobStatus \<Rightarrow> bool" where
  "startable s \<longleftrightarrow> s \<noteq> READY \<and> s \<notin> IN_FLIGHT"

lemma startable_iff: "startable s \<longleftrightarrow> s \<in> {CREATED, UPLOADING, FAILED}"
  by (cases s) (auto simp: startable_def IN_FLIGHT_def)

definition queuedRow :: "world \<Rightarrow> job_row \<Rightarrow> job_row" where
  "queuedRow w j = touch w (j\<lparr>j_status := QUEUED, j_errorMessage := None\<rparr>)"

lemma run_setQueued: "faults w = [] \<Longrightarrow> i \<in> j_id ` set (jobs w) \<Longrightarrow>
    run (setStatus A i QUEUED Null) w = (Inr (), w\<lparr>jobs := upd (\<lambda>j. j_id j = i) (queuedRow w) (jobs w)\<rparr>)"
  by (simp add: setStatus_def updateJob_def run_remote Let_def queuedRow_def [abs_def])

lemma queuedRow_simps [simp]:
  "j_id (queuedRow w j) = j_id j" "j_userId (queuedRow w j) = j_userId j"
  "j_deletedAt (queuedRow w j) = j_deletedAt j" "j_status (queuedRow w j) = QUEUED"
  "j_errorMessage (queuedRow w j) = None" "j_label (queuedRow w j) = j_label j"
  "j_pdfKey (queuedRow w j) = j_pdfKey j" "j_audioKey (queuedRow w j) = j_audioKey j"
  "j_transcript (queuedRow w j) = j_transcript j"
  by (simp_all add: queuedRow_def touch_def)

lemma ownRow_queued:
  assumes "ownRow w u i = Some j" and "distinct (map j_id (jobs w))"
  shows "find (\<lambda>j. j_id j = i \<and> visible u j) (upd (\<lambda>j. j_id j = i) (queuedRow w) (jobs w))
    = Some (queuedRow w j)"
proof -
  from find_SomeD [OF assms(1)] have j: "j \<in> set (jobs w)" "j_id j = i" "visible u j" by auto
  let ?js = "upd (\<lambda>j. j_id j = i) (queuedRow w) (jobs w)"
  have "map j_id ?js = map j_id (jobs w)" by (rule map_upd) simp
  moreover have "queuedRow w j \<in> set ?js" using j by (auto simp: in_set_upd)
  ultimately show ?thesis
    using j assms(2) by (intro find_distinct [where k = j_id]) auto
qed

lemma run_process_queued:
  assumes "faults w = []" and "inv A w" and "ownRow w u i = Some j"
    and "startable (j_status j)" and "bucket w (audioKey u i) \<noteq> None"
    and "run (enqueueProcessing A \<lparr>pj_jobId = i, pj_userId = u\<rparr>)
        (w\<lparr>jobs := upd (\<lambda>j. j_id j = i) (queuedRow w) (jobs w)\<rparr>)
      = (Inr (), w\<lparr>jobs := upd (\<lambda>j. j_id j = i) (queuedRow w) (jobs w), queue := q\<rparr>)"
    and w': "w' = w\<lparr>jobs := upd (\<lambda>j. j_id j = i) (queuedRow w) (jobs w), queue := q\<rparr>"
  shows "run (process A u i) w = (Inr (jobToDto (JOB_REPORT_INCLUDE w' (queuedRow w j)) None), w')"
proof -
  from find_SomeD [OF assms(3)] have j: "j \<in> set (jobs w)" "j_id j = i" "visible u j" by auto
  then have audio: "j_audioKey j = Some (audioKey u i)" and dist: "distinct (map j_id (jobs w))"
    using assms(2) by (auto simp: inv_def jobs_inv_def job_ok_def)
  have "i \<in> j_id ` set (jobs w)" using j by auto
  note set = run_setQueued [OF assms(1) this]
  have own: "ownRow w' u i = Some (queuedRow w j)" using ownRow_queued [OF assms(3) dist] by (simp add: w')
  show ?thesis
    using assms(1,3-6) audio set own by (simp add: w' process_def run_requireOwned startable_def Let_def)
qed

lemma run_process_start:
  assumes "faults w = []" and "inv A w" and "ownRow w u i = Some j"
    and "startable (j_status j)" and "bucket w (audioKey u i) \<noteq> None"
    and "run (enqueueProcessing A \<lparr>pj_jobId = i, pj_userId = u\<rparr>)
        (w\<lparr>jobs := upd (\<lambda>j. j_id j = i) (queuedRow w) (jobs w)\<rparr>)
      = (Inr (), w\<lparr>jobs := upd (\<lambda>j. j_id j = i) (queuedRow w) (jobs w), queue := q\<rparr>)"
  shows "\<exists>d. run (process A u i) w = (Inr d, w\<lparr>jobs := upd (\<lambda>j. j_id j = i) (queuedRow w) (jobs w), queue := q\<rparr>)
    \<and> jd_id d = i \<and> jd_status d = QUEUED \<and> jd_errorMessage d = None"
  unfolding run_process_queued [OF assms refl]
  using find_SomeD [OF assms(3)] by (auto simp: jobToDto_def Let_def JOB_REPORT_INCLUDE_def)

text \<open>
  C9. Starting the processing of the caller's own job, on every branch: a READY or running job is
  returned as it is and nothing changes; a job without uploaded audio is refused with 400 and
  nothing changes; otherwise the job's row becomes QUEUED with its error cleared, the returned job says
  so, and a live queue job carries its id.
\<close>

theorem process_branches:
  assumes "faults w = []" and "inv A w" and "ownRow w u i = Some j"
  shows "if \<not> startable (j_status j) then run (process A u i) w =
        (Inr (jobToDto (JOB_REPORT_INCLUDE w j) (pdfLink A w j)), w)
    else if bucket w (audioKey u i) = None then run (process A u i) w = (Inl audioMissing, w)
    else \<exists>d q. run (process A u i) w =
          (Inr d, w\<lparr>jobs := upd (\<lambda>j. j_id j = i) (queuedRow w) (jobs w), queue := q\<rparr>)
        \<and> jd_id d = i \<and> jd_status d = QUEUED \<and> jd_errorMessage d = None
        \<and> (\<exists>b \<in> set q. b_id b = i \<and> b_state b \<notin> {BCompleted, BFailed})"
proof -
  from find_SomeD [OF assms(3)] have j: "j \<in> set (jobs w)" "j_id j = i" "visible u j" by auto
  then have audio: "j_audioKey j = Some (audioKey u i)" and qi: "queue_inv w"
    using assms(2) by (auto simp: inv_def jobs_inv_def job_ok_def queue_ok_def queue_inv_def)
  consider (ready) "j_status j = READY" | (running) "j_status j \<in> IN_FLIGHT"
    | (silent) "startable (j_status j)" "bucket w (audioKey u i) = None"
    | (start) "startable (j_status j)" "bucket w (audioKey u i) \<noteq> None"
    unfolding startable_def by blast
  then show ?thesis
  proof cases
    case ready
    then show ?thesis using assms(1,3)
      by (simp add: process_def run_requireOwned startable_def Let_def)
  next
    case running
    then have "j_status j \<noteq> READY" by (auto simp: IN_FLIGHT_def)
    with running show ?thesis using assms(1,3)
      by (simp add: process_def run_requireOwned startable_def Let_def pdfLink_def)
  next
    case silent
    then show ?thesis using assms(1,3) audio
      by (simp add: process_def run_requireOwned startable_def Let_def)
  next
    case start
    let ?w1 = "w\<lparr>jobs := upd (\<lambda>j. j_id j = i) (queuedRow w) (jobs w)\<rparr>"
    have "faults ?w1 = []" "queue_inv ?w1" using assms(1) qi by (simp_all add: queue_inv_def)
    from enqueue_queued [OF this, of A "\<lparr>pj_jobId = i, pj_userId = u\<rparr>"]
    obtain q where q: "run (enqueueProcessing A \<lparr>pj_jobId = i, pj_userId = u\<rparr>) ?w1
          = (Inr (), ?w1\<lparr>queue := q\<rparr>)"
      and b: "\<exists>b \<in> set q. b_id b = i \<and> b_state b \<notin> {BCompleted, BFailed}" by auto
    from run_process_start [OF assms start q] start b show ?thesis by auto
  qed
qed

theorem process_branches_witness:
  "\<exists>d w'. run (process sampleApp (lit ''u1'') (lit ''j1'')) sampleWorld = (Inr d, w') \<and> jd_status d = QUEUED"
proof -
  have "ownRow sampleWorld (lit ''u1'') (lit ''j1'') = Some sampleJob" by simp
  from process_branches [OF _ sample_inv this]
  have "\<exists>d q. run (process sampleApp (lit ''u1'') (lit ''j1'')) sampleWorld = (Inr d, q) \<and> jd_status d = QUEUED"
    if "bucket sampleWorld (audioKey (lit ''u1'') (lit ''j1'')) \<noteq> None"
    using that by (auto simp: startable_iff)
  then show ?thesis by (simp add: sampleWorld_def)
qed

section \<open>Pagination\<close>

text \<open>
  A client that starts without a cursor and follows \<^verbatim>\<open>nextCursor\<close> until it is null; \<open>fuel\<close> bounds the
  number of requests.
\<close>

fun allPages :: "app \<Rightarrow> js \<Rightarrow> nat \<Rightarrow> nat \<Rightarrow> js option \<Rightarrow> world \<Rightarrow> (err + JobDto list) option" where
  "allPages A u limit 0 cursor w = None"
| "allPages A u limit (Suc fuel) cursor w =
     (case run (list A u cursor limit) w of
        (Inl e, w') \<Rightarrow> Some (Inl e)
      | (Inr p, w') \<Rightarrow>
          (case pg_nextCursor p of
             None \<Rightarrow> Some (Inr (pg_items p))
           | Some c \<Rightarrow> (case allPages A u limit fuel (Some c) w' of
                         Some (Inr ds) \<Rightarrow> Some (Inr (pg_items p @ ds))
                       | r \<Rightarrow> r)))"

lemma run_list: "faults w = [] \<Longrightarrow> 0 < limit \<Longrightarrow> pageOf A c limit (listing w u) = Inr js \<Longrightarrow>
    run (list A u c limit) w = (Inr \<lparr>pg_items = map (\<lambda>j. jobToDto (JOB_REPORT_INCLUDE w j) None) js,
      pg_nextCursor = if length js = limit then Some (j_id (last js)) else None\<rparr>, w)"
  by (auto simp: list_def listScoped_def run_remote Let_def last_map comp_def)

lemma pageOf_rest:
  assumes "distinct (map j_id (xs @ [x] @ ys))" and "j_id x \<noteq> []"
  shows "pageOf A (Some (j_id x)) n (xs @ [x] @ ys) = Inr (take n ys)"
proof -
  have "dropWhile (\<lambda>j. j_id j \<noteq> j_id x) (xs @ [x] @ ys) = [x] @ ys"
    using assms(1) by (subst dropWhile_append2) (auto, metis imageI)
  with assms(2) show ?thesis by (simp add: pageOf_def)
qed

lemma allPages_from:
  assumes "faults w = []" and "0 < limit" and "[] \<notin> j_id ` set (jobs w)"
    and "distinct (map j_id (listing w u))"
  shows "listing w u = xs @ ys \<Longrightarrow> pageOf A cursor limit (listing w u) = Inr (take limit ys) \<Longrightarrow>
    length ys < fuel \<Longrightarrow>
    allPages A u limit fuel cursor w = Some (Inr (map (\<lambda>j. jobToDto (JOB_REPORT_INCLUDE w j) None) ys))"
proof (induction fuel arbitrary: xs ys cursor)
  case (Suc fuel)
  note page = run_list [OF assms(1,2) Suc.prems(2)]
  show ?case
  proof (cases "length (take limit ys) = limit")
    case False
    then have "length ys < limit" by simp
    with page show ?thesis by simp
  next
    case True
    let ?a = "take limit ys" and ?b = "drop limit ys"
    let ?x = "last ?a"
    have ne: "?a \<noteq> []" using True assms(2) by auto
    then have split: "listing w u = (xs @ butlast ?a) @ [?x] @ ?b"
      using Suc.prems(1) by (metis append.assoc append_butlast_last_id append_take_drop_id)
    have "?x \<in> set (listing w u)" using split by simp
    then have "j_id ?x \<noteq> []" using assms(3) listing_in by force
    then have follow: "pageOf A (Some (j_id ?x)) limit (listing w u) = Inr (take limit ?b)"
      using pageOf_rest [of "xs @ butlast ?a" ?x ?b] split assms(4) by metis
    have "listing w u = (xs @ ?a) @ ?b" using Suc.prems(1) by simp
    moreover have "length ?b < fuel" using Suc.prems(3) True assms(2) by simp
    ultimately have "allPages A u limit fuel (Some (j_id ?x)) w
        = Some (Inr (map (\<lambda>j. jobToDto (JOB_REPORT_INCLUDE w j) None) ?b))"
      using Suc.IH follow by blast
    with page True show ?thesis
      by (simp flip: map_append)
  qed
qed simp

text \<open>
  C27. Following \<^verbatim>\<open>nextCursor\<close> page by page, for any page size, returns every live job of the user
  exactly once, newest first (ties by id), and no job of anyone else, and it stops after at most one more
  request than there are jobs.
\<close>

theorem pagination_complete:
  assumes "faults w = []" and "inv A w" and "0 < limit" and "[] \<notin> j_id ` set (jobs w)"
  shows "allPages A u limit (Suc (length (listing w u))) None w
      = Some (Inr (map (\<lambda>j. jobToDto (JOB_REPORT_INCLUDE w j) None) (listing w u)))
    \<and> set (listing w u) = {j \<in> set (jobs w). visible u j} \<and> distinct (map j_id (listing w u))
    \<and> sorted (map (\<lambda>j. (j_createdAt j, j_id j)) (rev (listing w u)))"
proof (intro conjI)
  let ?k = "\<lambda>j. (j_createdAt j, j_id j)"
  have "distinct (map j_id (filter (visible u) (jobs w)))"
    using assms(2) by (simp add: inv_def jobs_inv_def distinct_map_filter)
  moreover have "mset (map j_id (listing w u)) = mset (map j_id (filter (visible u) (jobs w)))"
    by (simp add: listing_def)
  ultimately show d: "distinct (map j_id (listing w u))"
    using mset_eq_imp_distinct_iff by blast
  show "allPages A u limit (Suc (length (listing w u))) None w
      = Some (Inr (map (\<lambda>j. jobToDto (JOB_REPORT_INCLUDE w j) None) (listing w u)))"
    by (rule allPages_from [OF assms(1,3,4) d, where xs = "[]"]) (simp_all add: pageOf_def)
  show "set (listing w u) = {j \<in> set (jobs w). visible u j}"
    by (auto simp: listing_in)
  show "sorted (map ?k (rev (listing w u)))" by (simp add: listing_def)
qed

theorem pagination_complete_witness:
  "\<exists>ds. allPages sampleApp (lit ''u1'') 1 (Suc 2) None sampleWorld = Some (Inr ds) \<and> length ds = 2"
proof -
  have l: "length (listing sampleWorld (lit ''u1'')) = 2" by (simp add: listing_def)
  have f: "faults sampleWorld = []" "0 < (1::nat)" "[] \<notin> j_id ` set (jobs sampleWorld)" by simp_all
  from pagination_complete [OF f(1) sample_inv f(2,3), of "lit ''u1''", THEN conjunct1] l
  show ?thesis by (metis length_map)
qed

section \<open>Edits\<close>

lemma txBind_assoc: "txBind (txBind f g) h = txBind f (\<lambda>a. txBind (g a) h)"
  by (rule ext) (simp add: txBind_def split: prod.split sum.split)

definition relabel :: "js field \<Rightarrow> world \<Rightarrow> job_row \<Rightarrow> job_row" where
  "relabel l w j = touch w (case l of Given t \<Rightarrow> j\<lparr>j_label := t\<rparr> | _ \<Rightarrow> j)"

lemma relabel_simps [simp]:
  "j_id (relabel l w j) = j_id j" "j_userId (relabel l w j) = j_userId j"
  "j_deletedAt (relabel l w j) = j_deletedAt j" "j_status (relabel l w j) = j_status j"
  "j_label (relabel l w j) = (case l of Given t \<Rightarrow> t | _ \<Rightarrow> j_label j)"
  by (auto simp: relabel_def touch_def split: field.split)

lemma run_replaceReportScoped:
  assumes "faults w = []" and "inj (uuid A)" and "inv A w" and "ownRow w u i = Some j" and "l \<noteq> Null"
  shows "run (replaceReportScoped A u i l secs) w = (Inr (),
    (replaced A i secs w)\<lparr>jobs := upd (\<lambda>j. j_id j = i \<and> j_userId j = u)
       (relabel l (replaced A i secs w)) (jobs w)\<rparr>)"
proof -
  from find_SomeD [OF assms(4)] have j: "j \<in> set (jobs w)" "j_id j = i" "visible u j" by auto
  have r: "report_inv A w" using assms(3) by (simp add: inv_def report_inv_def)
  have "i \<in> j_id ` set (jobs w)" using j by auto
  note body = replace_body [OF assms(2) r this, of secs]
  have "setLabel A u i l (replaced A i secs w) = (Inr (), (replaced A i secs w)\<lparr>jobs :=
      upd (\<lambda>j. j_id j = i \<and> j_userId j = u) (relabel l (replaced A i secs w)) (jobs w)\<rparr>)"
    using j assms(5) by (auto simp: setLabel_def relabel_def [abs_def])
  with body have "txBind (txBind (deleteFindings i) (\<lambda>_. txBind (deleteSections i) (\<lambda>_.
        insertSections A i 0 secs))) (\<lambda>_. setLabel A u i l) w =
      (Inr (), (replaced A i secs w)\<lparr>jobs := upd (\<lambda>j. j_id j = i \<and> j_userId j = u)
         (relabel l (replaced A i secs w)) (jobs w)\<rparr>)"
    by (simp add: txBind_def)
  then show ?thesis
    using assms(1) by (simp add: replaceReportScoped_def run_transaction txBind_assoc) (use j in blast)
qed

lemma reportRows_dto:
  "map (\<lambda>s. (sd_title s, map (\<lambda>f. (fd_text f, fd_severity f)) (sd_findings s)))
     (map sectionToDto (reportRows A i n k secs))
   = map (\<lambda>s. (rs_title s, map (\<lambda>f. (rf_text f, severityToApi (rf_severity f))) (rs_findings s))) secs"
proof (induction secs arbitrary: n k)
  case (Cons sec rest)
  have "map (\<lambda>f. (fd_text f, fd_severity f)) (map findingToDto (findingRows A sid n k fs))
      = map (\<lambda>f. (rf_text f, severityToApi (rf_severity f))) fs" for sid n k fs
    by (induction fs arbitrary: n k) (auto simp: findingToDto_def)
  with Cons.IH show ?case
    by (simp add: sectionToDto_def sort_key_sorted findingRows_sorted)
qed simp

lemma include_jobs_update:
  "jr_sections (JOB_REPORT_INCLUDE (w\<lparr>jobs := js\<rparr>) j) = jr_sections (JOB_REPORT_INCLUDE w j)"
  by (simp add: JOB_REPORT_INCLUDE_def sectionsOf_def findingsOf_def)

text \<open>
  C26. An edit reads back as it was written: when a \<^verbatim>\<open>PATCH\<close> with sections succeeds on the caller's
  live job, the job it returns shows exactly the given titles, texts and severities, sections and
  findings in the order of their given \<^verbatim>\<open>sortOrder\<close> (ties as submitted), with the new label if one was given,
  and the status untouched.
\<close>

theorem edit_roundtrip:
  assumes "faults w = []" and "inj (uuid A)" and "inv A w" and "ownRow w u i = Some j"
    and "uj_sections dto = Given secs" and "uj_label dto \<noteq> Null"
  shows "\<exists>d w'. run (update A u i dto) w = (Inr d, w')
    \<and> map (\<lambda>s. (sd_title s, map (\<lambda>f. (fd_text f, fd_severity f)) (sd_findings s))) (jd_sections d)
      = map (\<lambda>s. (us_title s, map (\<lambda>f. (uf_text f, uf_severity f)) (sort_key uf_sortOrder (us_findings s))))
          (sort_key us_sortOrder secs)
    \<and> jd_label d = (case uj_label dto of Given l \<Rightarrow> l | _ \<Rightarrow> j_label j) \<and> jd_status d = j_status j"
proof -
  from find_SomeD [OF assms(4)] have j: "j \<in> set (jobs w)" "j_id j = i" "visible u j" by auto
  have r: "report_inv A w" using assms(3) by (simp add: inv_def report_inv_def)
  let ?in = "toReportInput (Some secs)" and ?l = "uj_label dto"
  let ?r = "replaced A i ?in w"
  let ?js = "upd (\<lambda>j. j_id j = i \<and> j_userId j = u) (relabel ?l ?r) (jobs w)"
  let ?w = "?r\<lparr>jobs := ?js\<rparr>" and ?j = "relabel ?l ?r j"
  have "map j_id ?js = map j_id (jobs w)" by (rule map_upd) simp
  moreover have "?j \<in> set ?js" using j by (auto simp: in_set_upd)
  ultimately have own: "ownRow ?w u i = Some ?j"
    using j assms(3) by (auto simp: inv_def jobs_inv_def intro!: find_distinct [where k = j_id])
  let ?d = "jobToDto (JOB_REPORT_INCLUDE ?w ?j) (pdfLink A ?w ?j)"
  have "run (update A u i dto) w = (Inr ?d, ?w)"
    using assms(1,4,5) run_replaceReportScoped [OF assms(1-4,6), of ?in] own
    by (simp add: update_def run_requireOwned run_findOne)
  moreover have "jr_sections (JOB_REPORT_INCLUDE ?w ?j) = reportRows A i (entropy w) 0 ?in"
    using include_replaced [OF assms(2) r, of ?j i ?in] j by (simp add: include_jobs_update)
  then have "jd_sections ?d = map sectionToDto (reportRows A i (entropy w) 0 ?in)"
    using reportRows_sorted [of A i "entropy w" 0 ?in]
    by (simp add: jobToDto_def Let_def sort_key_sorted)
  then have "map (\<lambda>s. (sd_title s, map (\<lambda>f. (fd_text f, fd_severity f)) (sd_findings s))) (jd_sections ?d)
      = map (\<lambda>s. (rs_title s, map (\<lambda>f. (rf_text f, severityToApi (rf_severity f))) (rs_findings s))) ?in"
    by (simp only: reportRows_dto)
  then have "map (\<lambda>s. (sd_title s, map (\<lambda>f. (fd_text f, fd_severity f)) (sd_findings s))) (jd_sections ?d)
      = map (\<lambda>s. (us_title s, map (\<lambda>f. (uf_text f, uf_severity f)) (sort_key uf_sortOrder (us_findings s))))
          (sort_key us_sortOrder secs)"
    by (simp add: toReportInput_def comp_def)
  moreover have "jd_label ?d = (case ?l of Given l \<Rightarrow> l | _ \<Rightarrow> j_label j)" "jd_status ?d = j_status j"
    by (simp_all add: jobToDto_def Let_def)
  ultimately show ?thesis by blast
qed

theorem edit_roundtrip_witness:
  "\<exists>d w'. run (update sampleApp (lit ''u1'') (lit ''j2'')
       \<lparr>uj_label = Undefined, uj_sections = Given
          [\<lparr>us_title = lit ''B'', us_sortOrder = 2, us_findings = []\<rparr>,
           \<lparr>us_title = lit ''A'', us_sortOrder = 1, us_findings = []\<rparr>]\<rparr>) sampleWorld = (Inr d, w')
     \<and> map (\<lambda>s. (sd_title s, map (\<lambda>f. (fd_text f, fd_severity f)) (sd_findings s))) (jd_sections d)
       = [(lit ''A'', []), (lit ''B'', [])]"
proof -
  let ?secs = "[\<lparr>us_title = lit ''B'', us_sortOrder = 2, us_findings = []\<rparr>,
    \<lparr>us_title = lit ''A'', us_sortOrder = 1, us_findings = []\<rparr>]"
  have o: "ownRow sampleWorld (lit ''u1'') (lit ''j2'') = Some sampleReady" by simp
  from edit_roundtrip [OF _ sample_inj sample_inv o,
      of "\<lparr>uj_label = Undefined, uj_sections = Given ?secs\<rparr>" ?secs]
  show ?thesis by auto
qed

section \<open>Creation\<close>

lemma run_createDraft:
  assumes "faults w = []" and "\<not> (\<exists>j \<in> set (jobs w). conflicts i u key j)" and "u \<in> u_id ` set (users w)"
  shows "run (createDraft A i u l k key) w =
    (let w' = w\<lparr>jobs := jobs w @ [draftRow i u l k key (clock w)]\<rparr> in
     (Inr (JOB_REPORT_INCLUDE w' (draftRow i u l k key (clock w))), w'))"
  using assms by (simp add: createDraft_def run_remote Let_def)

text \<open>
  Creating is idempotent per key: the first \<^verbatim>\<open>POST\<close> with an unused idempotency key appends exactly one
  CREATED job, for which the response presigns the upload of that job's audio key; a second \<^verbatim>\<open>POST\<close>
  with the same key, whatever its body, returns the same job and the same upload key, and changes nothing.
\<close>

theorem create_idempotent:
  assumes "faults w = []" and "u \<in> u_id ` set (users w)" and "key \<noteq> []"
    and "uuid A (entropy w) \<notin> j_id ` set (jobs w)"
    and "\<forall>j \<in> set (jobs w). j_userId j = u \<longrightarrow> j_idempotencyKey j \<noteq> Some key"
  shows "\<exists>r w' row. run (create A u dto (Some key)) w = (Inr r, w') \<and> jobs w' = jobs w @ [row]
    \<and> jd_id (cr_job r) = j_id row \<and> j_status row = CREATED \<and> jd_label (cr_job r) = cj_label dto
    \<and> pu_key (cr_audioUploadUrl r) = audioKey u (j_id row)
    \<and> (\<forall>dto2. \<exists>r2. run (create A u dto2 (Some key)) w' = (Inr r2, w')
          \<and> cr_job r2 = cr_job r \<and> pu_key (cr_audioUploadUrl r2) = pu_key (cr_audioUploadUrl r))"
proof -
  let ?i = "uuid A (entropy w)"
  let ?row = "draftRow ?i u (cj_label dto) (audioKey u ?i) (Some key) (clock w)"
  let ?w1 = "w\<lparr>entropy := Suc (entropy w)\<rparr>"
  let ?w' = "?w1\<lparr>jobs := jobs w @ [?row]\<rparr>"
  let ?P = "\<lambda>j. visible u j \<and> j_idempotencyKey j = Some key"
  have row: "j_id ?row = ?i" "j_status ?row = CREATED" "j_label ?row = cj_label dto" "?P ?row"
    by (simp_all add: draftRow_def)
  have none: "find ?P (jobs w) = None" using assms(5) by (auto simp: find_None_iff)
  with row have again: "find ?P (jobs ?w') = Some ?row" by simp
  have "\<not> (\<exists>j \<in> set (jobs ?w1). conflicts ?i u (Some key) j)"
    using assms(4,5) by (auto simp: conflicts_def) (metis imageI)
  from run_createDraft [OF _ this] have
    "run (createDraft A ?i u (cj_label dto) (audioKey u ?i) (Some key)) ?w1
      = (Inr (JOB_REPORT_INCLUDE ?w' ?row), ?w')"
    using assms(1,2) by (simp add: Let_def)
  with none assms(1,3) obtain r where r: "run (create A u dto (Some key)) w = (Inr r, ?w')"
    "cr_job r = jobToDto (JOB_REPORT_INCLUDE ?w' ?row) None" "pu_key (cr_audioUploadUrl r) = audioKey u ?i"
    by (auto simp: create_def Let_def findByIdempotencyKey_def)
  have "\<exists>r2. run (create A u dto2 (Some key)) ?w' = (Inr r2, ?w')
      \<and> cr_job r2 = cr_job r \<and> pu_key (cr_audioUploadUrl r2) = pu_key (cr_audioUploadUrl r)" for dto2
    using again assms(1,3) r row(1) by (simp add: create_def Let_def findByIdempotencyKey_def)
  moreover have "jd_label (cr_job r) = cj_label dto" "jd_id (cr_job r) = ?i"
    using r(2) row by (simp_all add: jobToDto_def Let_def)
  ultimately show ?thesis using r row
    by (intro exI [of _ r] exI [of _ ?w'] exI [of _ ?row]) simp
qed

theorem create_idempotent_witness:
  "\<exists>r w' row. run (create sampleApp (lit ''u1'') \<lparr>cj_label = lit ''Oak St''\<rparr> (Some (lit ''k''))) sampleWorld
     = (Inr r, w') \<and> jobs w' = [sampleJob, sampleReady, row]"
proof -
  have "lit ''u1'' \<in> u_id ` set (users sampleWorld)" by (simp add: sampleWorld_def)
  moreover have "uuid sampleApp (entropy sampleWorld) \<notin> j_id ` set (jobs sampleWorld)"
    by (simp add: sampleApp_def) (simp add: lit_unfold)
  ultimately show ?thesis
    using create_idempotent [of sampleWorld "lit ''u1''" "lit ''k''" sampleApp "\<lparr>cj_label = lit ''Oak St''\<rparr>"]
    by auto
qed

text \<open>
  A deleted job keeps its idempotency key occupied: when the user's job with that key has been deleted,
  a \<^verbatim>\<open>POST\<close> with the key finds nothing to replay, runs into the unique index and fails with P2002, and no
  job is created.
\<close>

theorem deleted_key_conflicts:
  assumes "faults w = []" and "key \<noteq> []" and "j \<in> set (jobs w)" and "j_userId j = u"
    and "j_idempotencyKey j = Some key" and "\<forall>k \<in> set (jobs w). visible u k \<longrightarrow> j_idempotencyKey k \<noteq> Some key"
  shows "run (create A u dto (Some key)) w = (Inl (prismaKnown A ''P2002''), w\<lparr>entropy := Suc (entropy w)\<rparr>)"
proof -
  have "find (\<lambda>j. visible u j \<and> j_idempotencyKey j = Some key) (jobs w) = None"
    using assms(6) by (auto simp: find_None_iff)
  moreover have "\<exists>j \<in> set (jobs w). conflicts (uuid A (entropy w)) u (Some key) j"
    using assms(3-5) by (auto simp: conflicts_def)
  ultimately show ?thesis using assms(1,2)
    by (simp add: create_def Let_def findByIdempotencyKey_def createDraft_def run_remote)
qed

theorem deleted_key_conflicts_witness:
  "fst (run (create sampleApp (lit ''u1'') \<lparr>cj_label = lit ''Again''\<rparr> (Some (lit ''k'')))
     (emptyWorld\<lparr>jobs := [sampleJob\<lparr>j_idempotencyKey := Some (lit ''k''), j_deletedAt := Some 5\<rparr>]\<rparr>))
   = Inl (prismaKnown sampleApp ''P2002'')"
proof -
  let ?j = "sampleJob\<lparr>j_idempotencyKey := Some (lit ''k''), j_deletedAt := Some 5\<rparr>"
  let ?w = "emptyWorld\<lparr>jobs := [?j]\<rparr>"
  have "faults ?w = []" "lit ''k'' \<noteq> []" "?j \<in> set (jobs ?w)" "j_userId ?j = lit ''u1''"
    "j_idempotencyKey ?j = Some (lit ''k'')"
    "\<forall>k \<in> set (jobs ?w). visible (lit ''u1'') k \<longrightarrow> j_idempotencyKey k \<noteq> Some (lit ''k'')"
    by (simp_all add: emptyWorld_def)
  from deleted_key_conflicts [OF this] show ?thesis by simp
qed

section \<open>Deletion\<close>

text \<open>
  Deleting the caller's live job: it is marked deleted and is gone for every later read, its audio object
  (and its PDF, if it has one) is removed from the bucket, and no other object and no other job is touched.
\<close>

theorem remove_effect:
  assumes "faults w = []" and "inv A w" and "ownRow w u i = Some j"
  shows "\<exists>w'. run (remove u i) w = (Inr (), w') \<and> run (findOne A u i) w' = (Inl jobNotFound, w')
    \<and> bucket w' (audioKey u i) = None \<and> (j_pdfKey j \<noteq> None \<longrightarrow> bucket w' (pdfKey u i) = None)
    \<and> (\<forall>k. k \<noteq> audioKey u i \<and> k \<noteq> pdfKey u i \<longrightarrow> bucket w' k = bucket w k)
    \<and> filter (\<lambda>k. j_id k \<noteq> i) (jobs w') = filter (\<lambda>k. j_id k \<noteq> i) (jobs w)"
proof -
  from find_SomeD [OF assms(3)] have j: "j \<in> set (jobs w)" "j_id j = i" "visible u j" by auto
  then have ok: "job_ok j" using assms(2) by (simp add: inv_def jobs_inv_def)
  let ?P = "\<lambda>j. j_id j = i \<and> visible u j"
  let ?js = "upd ?P (\<lambda>j. touch w (j\<lparr>j_deletedAt := Some (clock w)\<rparr>)) (jobs w)"
  let ?w1 = "w\<lparr>jobs := ?js\<rparr>"
  let ?n = "length (filter ?P (jobs w))"
  have n: "filter ?P (jobs w) \<noteq> []" using j by (auto simp: filter_empty_conv)
  have del: "run (softDeleteScoped u i) w = (Inr ?n, ?w1)"
    using assms(1) by (simp add: softDeleteScoped_def run_remote)
  let ?ks = "presentKeys j"
  have ks: "set ?ks = {audioKey u i} \<union> (if j_pdfKey j = None then {} else {pdfKey u i})"
    using ok j by (auto simp: presentKeys_def job_ok_def)
  let ?w2 = "?w1\<lparr>bucket := (bucket w) |` (- (set ?ks - {[]}))\<rparr>"
  have "\<not> set ?ks \<subseteq> {[]}" using ks by simp
  then have obj: "run (deleteObjects ?ks) ?w1 = (Inr (), ?w2)"
    using assms(1) by (simp add: run_deleteObjects)
  have "run (remove u i) w = (Inr (), ?w2)"
    using assms(1,3) n del obj by (simp add: remove_def run_requireOwned)
  moreover have "\<not> ?P (if ?P k then touch w (k\<lparr>j_deletedAt := Some (clock w)\<rparr>) else k)" for k
    by (cases "?P k") simp_all
  then have "find ?P ?js = None" unfolding find_None_iff upd_def set_map by blast
  then have "run (findOne A u i) ?w2 = (Inl jobNotFound, ?w2)"
    using assms(1) by (simp add: run_findOne)
  moreover have "filter (\<lambda>k. j_id k \<noteq> i) (upd ?P f js) = filter (\<lambda>k. j_id k \<noteq> i) js"
    if "\<And>j. j_id (f j) = j_id j" for f js
    using that by (induction js) auto
  then have "filter (\<lambda>k. j_id k \<noteq> i) ?js = filter (\<lambda>k. j_id k \<noteq> i) (jobs w)" by simp
  ultimately show ?thesis using ks by (intro exI [of _ ?w2]) (auto simp: restrict_map_def)
qed

theorem remove_effect_witness:
  "\<exists>w'. run (remove (lit ''u1'') (lit ''j2'')) sampleWorld = (Inr (), w')
     \<and> bucket w' (pdfKey (lit ''u1'') (lit ''j2'')) = None"
proof -
  have "ownRow sampleWorld (lit ''u1'') (lit ''j2'') = Some sampleReady" by simp
  from remove_effect [OF _ sample_inv this] show ?thesis by auto
qed

section \<open>A lost enqueue\<close>

text \<open>
  C40. When the first call to Redis fails after the job's row was set to QUEUED, \<^verbatim>\<open>process\<close> reports the error but
  leaves the job QUEUED and the queue as it was; from then on every further \<^verbatim>\<open>process\<close> takes the job for running
  and answers success without ever enqueueing it.
\<close>

theorem lost_enqueue_strands_job:
  assumes "faults w = [Works, Works, Works, LostRequest m]" and "inv A w" and "ownRow w u i = Some j"
    and "startable (j_status j)" and "bucket w (audioKey u i) \<noteq> None"
  shows "\<exists>w'. run (process A u i) w = (Inl (PlainError m), w') \<and> queue w' = queue w
    \<and> ownRow w' u i = Some (queuedRow w j)
    \<and> run (process A u i) w' = (Inr (jobToDto (JOB_REPORT_INCLUDE w' (queuedRow w j)) None), w')"
proof -
  from find_SomeD [OF assms(3)] have j: "j \<in> set (jobs w)" "j_id j = i" "visible u j" by auto
  then have audio: "j_audioKey j = Some (audioKey u i)" and dist: "distinct (map j_id (jobs w))"
    using assms(2) by (auto simp: inv_def jobs_inv_def job_ok_def)
  let ?js = "upd (\<lambda>j. j_id j = i) (queuedRow w) (jobs w)"
  let ?w' = "w\<lparr>faults := [], jobs := ?js\<rparr>"
  have own: "find (\<lambda>j. j_id j = i \<and> visible u j) ?js = Some (queuedRow w j)"
    by (rule ownRow_queued [OF assms(3) dist])
  have id: "i \<in> j_id ` set (jobs w)" using j by auto
  have q: "queuedRow (w\<lparr>faults := fs\<rparr>) = queuedRow w" for fs
    by (rule ext) (simp add: queuedRow_def touch_def)
  have inc: "JOB_REPORT_INCLUDE (w\<lparr>faults := fs\<rparr>) j = JOB_REPORT_INCLUDE w j" for fs
    by (simp add: JOB_REPORT_INCLUDE_def sectionsOf_def findingsOf_def)
  have 1: "run (requireOwned u i) w = (Inr (JOB_REPORT_INCLUDE w j), w\<lparr>faults := [Works, Works, LostRequest m]\<rparr>)"
    using assms(1,3) inc by (simp add: requireOwned_def findScoped_def query_def remote_def)
  have 2: "run (objectExists (audioKey u i)) (w\<lparr>faults := [Works, Works, LostRequest m]\<rparr>)
      = (Inr True, w\<lparr>faults := [Works, LostRequest m]\<rparr>)"
    using assms(5) by (simp add: objectExists_def query_def remote_def)
  have 3: "run (setStatus A i QUEUED Null) (w\<lparr>faults := [Works, LostRequest m]\<rparr>)
      = (Inr (), w\<lparr>faults := [LostRequest m], jobs := ?js\<rparr>)"
    using id q [of "[LostRequest m]"]
    by (simp add: setStatus_def updateJob_def remote_def Let_def queuedRow_def [abs_def])
  have 4: "run (enqueueProcessing A d) (w\<lparr>faults := [LostRequest m], jobs := ?js\<rparr>)
      = (Inl (PlainError m), ?w')" for d
    by (simp add: enqueueProcessing_def getJob_def query_def remote_def Let_def)
  have "run (process A u i) w = (Inl (PlainError m), ?w')"
    using assms(4) audio by (simp add: process_def 1 2 3 4 startable_def Let_def)
  moreover have "run (process A u i) ?w' = (Inr (jobToDto (JOB_REPORT_INCLUDE ?w' (queuedRow w j)) None), ?w')"
    using own by (simp add: process_def run_requireOwned Let_def IN_FLIGHT_def)
  ultimately show ?thesis using own by (intro exI [of _ ?w']) simp
qed

theorem lost_enqueue_strands_job_witness:
  "\<exists>w'. run (process sampleApp (lit ''u1'') (lit ''j1''))
       (sampleWorld\<lparr>faults := [Works, Works, Works, LostRequest (lit ''redis down'')]\<rparr>)
     = (Inl (PlainError (lit ''redis down'')), w') \<and> queue w' = []"
proof -
  let ?w = "sampleWorld\<lparr>faults := [Works, Works, Works, LostRequest (lit ''redis down'')]\<rparr>"
  have i: "inv sampleApp ?w" using evolves_inv(1) [OF evolves_faults [OF sample_inv]] .
  have o: "ownRow ?w (lit ''u1'') (lit ''j1'') = Some sampleJob" by simp
  have "bucket ?w (audioKey (lit ''u1'') (lit ''j1'')) \<noteq> None" by (simp add: sampleWorld_def)
  from lost_enqueue_strands_job [OF _ i o _ this, of "lit ''redis down''"] show ?thesis
    by (auto simp: startable_iff)
qed

end
