(* ===== verification/Auth.thy ===== *)
theory Auth
  imports Safety
begin

text \<open>
  Sign-in and sessions: \<^verbatim>\<open>users/users.service.ts\<close>, \<^verbatim>\<open>auth/token.service.ts\<close>, the two Apple verifiers of
  \<^verbatim>\<open>auth/apple\<close>, \<^verbatim>\<open>auth/auth.service.ts\<close>, and the guard of \<^verbatim>\<open>common/auth/jwt-auth.guard.ts\<close>. Signing and
  verifying JWTs, digests and random bytes are parameters of the model.
\<close>

section \<open>Users\<close>

text \<open>\<^verbatim>\<open>prisma.user.upsert\<close> by \<^verbatim>\<open>appleSub\<close>; an e-mail is written when it is truthy.\<close>

definition upsertByApple :: "app \<Rightarrow> js \<Rightarrow> js option \<Rightarrow> user_row io" where
  "upsertByApple A appleSub email = remote (\<lambda>w.
     case find (\<lambda>u. u_appleSub u = appleSub) (users w) of
       Some u \<Rightarrow>
         (let u' = u\<lparr>u_email := (if truthy_opt email then email else u_email u), u_updatedAt := clock w\<rparr> in
          (Inr u', w\<lparr>users := upd (\<lambda>v. u_appleSub v = appleSub) (\<lambda>_. u') (users w)\<rparr>))
     | None \<Rightarrow>
         (let i = uuid A (entropy w); w1 = w\<lparr>entropy := Suc (entropy w)\<rparr>;
              u = \<lparr>u_id = i, u_appleSub = appleSub, u_email = email, u_createdAt = clock w, u_updatedAt = clock w\<rparr> in
          if i \<in> u_id ` set (users w) then (Inl (prismaKnown A ''P2002''), w1)
          else (Inr u, w1\<lparr>users := users w @ [u]\<rparr>)))"

definition findUserById :: "js \<Rightarrow> user_row option io" where
  "findUserById i = query (\<lambda>w. find (\<lambda>u. u_id u = i) (users w))"

section \<open>Tokens\<close>

definition JWT_AUDIENCE :: js where
  "JWT_AUDIENCE = lit ''fieldnote-app''"

definition hashRefreshToken :: "app \<Rightarrow> js \<Rightarrow> js" where
  "hashRefreshToken A token = hmacSha256Hex A (refreshSecret (jwt (cfg A))) token"

text \<open>\<^verbatim>\<open>Math.floor(Date.now() / 1000)\<close> seconds; the claims in the order they are set.\<close>

definition accessClaims :: "app \<Rightarrow> js \<Rightarrow> js \<Rightarrow> nat \<Rightarrow> (js \<times> json) list" where
  "accessClaims A userId appleSub s =
     [(lit ''type'', JStr (lit ''access'')), (lit ''appleSub'', JStr appleSub), (lit ''sub'', JStr userId),
      (lit ''iss'', JStr (appBaseUrl (cfg A))), (lit ''aud'', JStr JWT_AUDIENCE),
      (lit ''iat'', JNum (js_of_nat s)), (lit ''exp'', JNum (js_of_int (int s + accessTtl (jwt (cfg A)))))]"

definition issueAccessToken :: "app \<Rightarrow> js \<Rightarrow> js \<Rightarrow> js io" where
  "issueAccessToken A userId appleSub = bindP now (\<lambda>t.
     let s = t div 1000 in
     Ret (signJwt A (accessSecret (jwt (cfg A))) (accessClaims A userId appleSub s)))"

record refresh_token =
  rt_token :: js
  rt_hash :: js
  rt_expiresAt :: int

definition generateRefreshToken :: "app \<Rightarrow> refresh_token io" where
  "generateRefreshToken A = bindP draw (\<lambda>n. bindP now (\<lambda>t.
     let token = randomToken A n in
     Ret \<lparr>rt_token = token, rt_hash = hashRefreshToken A token,
          rt_expiresAt = int t + refreshTtl (jwt (cfg A)) * 1000\<rparr>))"

section \<open>Apple identities\<close>

record AppleIdentity =
  ai_sub :: js
  ai_email :: "js option"
  ai_emailVerified :: bool
  ai_isPrivateEmail :: bool

definition claim :: "(js \<times> json) list \<Rightarrow> string \<Rightarrow> json option" where
  "claim claims k = map_of claims (lit k)"

definition strClaim :: "(js \<times> json) list \<Rightarrow> string \<Rightarrow> js option" where
  "strClaim claims k = (case claim claims k of Some (JStr s) \<Rightarrow> Some s | _ \<Rightarrow> None)"

text \<open>\<^verbatim>\<open>c === true || c === 'true'\<close>\<close>

definition trueClaim :: "(js \<times> json) list \<Rightarrow> string \<Rightarrow> bool" where
  "trueClaim claims k \<longleftrightarrow> claim claims k = Some (JBool True) \<or> claim claims k = Some (JStr (lit ''true''))"

definition devVerify :: "app \<Rightarrow> js \<Rightarrow> AppleIdentity io" where
  "devVerify A identityToken =
     (let claims = decodeJwt A identityToken;
          sub = (case claims of None \<Rightarrow> None | Some cs \<Rightarrow> strClaim cs ''sub'');
          email = (case claims of None \<Rightarrow> None | Some cs \<Rightarrow> strClaim cs ''email'') in
      Ret \<lparr>ai_sub = (if truthy_opt sub then the sub
                     else lit ''dev-'' @ js_slice0 32 (sha256Hex A identityToken)),
           ai_email = email, ai_emailVerified = True, ai_isPrivateEmail = False\<rparr>)"

definition APPLE_ISSUER :: js where
  "APPLE_ISSUER = lit ''https://appleid.apple.com''"

definition unauthorized :: "string \<Rightarrow> err" where
  "unauthorized m = HttpException Unauthorized (lit m)"

text \<open>
  The verified claims of an Apple token are typed: subject, e-mail and nonce are strings where
  present. The check of the token runs against Apple's keys over the network, the parameter \<open>appleJwtVerify\<close>.
\<close>

definition realVerify :: "app \<Rightarrow> js \<Rightarrow> js option \<Rightarrow> AppleIdentity io" where
  "realVerify A identityToken expectedNonce = bindP now (\<lambda>t.
     case appleJwtVerify A APPLE_ISSUER (clientId (apple (cfg A))) t identityToken of
       None \<Rightarrow> Throw (unauthorized ''Apple identity token failed verification.'')
     | Some claims \<Rightarrow>
         if \<not> truthy_opt (strClaim claims ''sub'') then Throw (unauthorized ''Apple identity token missing subject.'')
         else if \<not> truthy_opt expectedNonce then Throw (unauthorized ''Apple sign-in is missing the required nonce.'')
         else
           (let hashed = sha256Hex A (the expectedNonce) in
            if strClaim claims ''nonce'' \<noteq> expectedNonce \<and> strClaim claims ''nonce'' \<noteq> Some hashed
            then Throw (unauthorized ''Apple identity token nonce mismatch.'')
            else Ret \<lparr>ai_sub = the (strClaim claims ''sub''), ai_email = strClaim claims ''email'',
                      ai_emailVerified = trueClaim claims ''email_verified'',
                      ai_isPrivateEmail = trueClaim claims ''is_private_email''\<rparr>))"

text \<open>The provider of \<^verbatim>\<open>auth.module.ts\<close>.\<close>

definition appleVerifier :: "app \<Rightarrow> js \<Rightarrow> js option \<Rightarrow> AppleIdentity io" where
  "appleVerifier A identityToken nonce =
     (if devBypass (apple (cfg A)) then devVerify A identityToken else realVerify A identityToken nonce)"

section \<open>The auth service\<close>

text \<open>\<^verbatim>\<open>refreshToken.create\<close>: the primary key, the unique digest and the foreign key are checked.\<close>

definition createToken :: "app \<Rightarrow> js \<Rightarrow> js \<Rightarrow> int \<Rightarrow> unit tx" where
  "createToken A userId hash expiresAt = (\<lambda>w.
     let i = uuid A (entropy w); w1 = w\<lparr>entropy := Suc (entropy w)\<rparr> in
     if i \<in> t_id ` set (tokens w) \<or> hash \<in> t_tokenHash ` set (tokens w)
     then (Inl (prismaKnown A ''P2002''), w1)
     else if userId \<notin> u_id ` set (users w) then (Inl (prismaKnown A ''P2003''), w1)
     else (Inr (), w1\<lparr>tokens := tokens w @
       [\<lparr>t_id = i, t_userId = userId, t_tokenHash = hash, t_expiresAt = expiresAt, t_revokedAt = None,
         t_replacedByTokenHash = None, t_createdAt = clock w\<rparr>]\<rparr>))"

definition tokenResponse :: "app \<Rightarrow> js \<Rightarrow> js \<Rightarrow> js \<Rightarrow> TokenResponseDto" where
  "tokenResponse A access refresh userId =
     \<lparr>tr_accessToken = access, tr_refreshToken = refresh, tr_tokenType = lit ''Bearer'',
      tr_expiresIn = nat (accessTtl (jwt (cfg A))), tr_userId = userId\<rparr>"

definition issueTokenPair :: "app \<Rightarrow> js \<Rightarrow> js \<Rightarrow> TokenResponseDto io" where
  "issueTokenPair A userId appleSub = bindP (generateRefreshToken A) (\<lambda>r.
     seqP (remote (createToken A userId (rt_hash r) (rt_expiresAt r)))
    (bindP (issueAccessToken A userId appleSub) (\<lambda>access.
       Ret (tokenResponse A access (rt_token r) userId))))"

definition signInWith ::
    "(js \<Rightarrow> js option \<Rightarrow> AppleIdentity io) \<Rightarrow> app \<Rightarrow> js \<Rightarrow> js option \<Rightarrow> js option \<Rightarrow> TokenResponseDto io" where
  "signInWith verify A identityToken nonce email = bindP (verify identityToken nonce) (\<lambda>identity.
     bindP (upsertByApple A (ai_sub identity)
       (case ai_email identity of Some e \<Rightarrow> Some e | None \<Rightarrow> email)) (\<lambda>user.
     issueTokenPair A (u_id user) (u_appleSub user)))"

definition signInWithApple :: "app \<Rightarrow> js \<Rightarrow> js option \<Rightarrow> js option \<Rightarrow> TokenResponseDto io" where
  "signInWithApple A = signInWith (appleVerifier A) A"

definition findTokenByHash :: "js \<Rightarrow> token_row option io" where
  "findTokenByHash hash = query (\<lambda>w. find (\<lambda>t. t_tokenHash t = hash) (tokens w))"

text \<open>\<^verbatim>\<open>updateMany({ where: { userId, revokedAt: null }, data: { revokedAt: new Date() } })\<close>\<close>

definition revokeChain :: "js \<Rightarrow> unit io" where
  "revokeChain userId = command (\<lambda>w. w\<lparr>tokens := upd (\<lambda>t. t_userId t = userId \<and> t_revokedAt t = None)
     (\<lambda>t. t\<lparr>t_revokedAt := Some (clock w)\<rparr>) (tokens w)\<rparr>)"

definition retireToken :: "app \<Rightarrow> js \<Rightarrow> js \<Rightarrow> unit tx" where
  "retireToken A hash nextHash = (\<lambda>w.
     if hash \<notin> t_tokenHash ` set (tokens w) then (Inl (prismaKnown A ''P2025''), w)
     else (Inr (), w\<lparr>tokens := upd (\<lambda>t. t_tokenHash t = hash)
       (\<lambda>t. t\<lparr>t_revokedAt := Some (clock w), t_replacedByTokenHash := Some nextHash\<rparr>) (tokens w)\<rparr>))"

text \<open>\<^verbatim>\<open>refresh\<close>, from the point on where the record has been read.\<close>

definition refreshFound :: "app \<Rightarrow> js \<Rightarrow> token_row option \<Rightarrow> TokenResponseDto io" where
  "refreshFound A hash record =
     (case record of
        None \<Rightarrow> Throw (unauthorized ''Invalid refresh token.'')
      | Some rec \<Rightarrow>
          if t_revokedAt rec \<noteq> None then
            seqP (revokeChain (t_userId rec)) (Throw (unauthorized ''Refresh token already used.''))
          else bindP now (\<lambda>t.
            if t_expiresAt rec \<le> int t then Throw (unauthorized ''Refresh token expired.'')
            else bindP (findUserById (t_userId rec)) (\<lambda>found.
              case found of
                None \<Rightarrow> Throw (unauthorized ''User no longer exists.'')
              | Some user \<Rightarrow>
                  bindP (generateRefreshToken A) (\<lambda>nxt.
                  seqP (transaction (txBind (retireToken A hash (rt_hash nxt)) (\<lambda>_.
                          createToken A (u_id user) (rt_hash nxt) (rt_expiresAt nxt))))
                 (bindP (issueAccessToken A (u_id user) (u_appleSub user)) (\<lambda>access.
                    Ret (tokenResponse A access (rt_token nxt) (u_id user))))))))"

definition refresh :: "app \<Rightarrow> js \<Rightarrow> TokenResponseDto io" where
  "refresh A refreshToken =
     (let hash = hashRefreshToken A refreshToken in bindP (findTokenByHash hash) (refreshFound A hash))"

section \<open>The guard\<close>

record AuthenticatedUser =
  au_userId :: js
  au_appleSub :: js

text \<open>\<^verbatim>\<open>header.split(' ')\<close>; the first two pieces are the scheme and the value.\<close>

definition extractToken :: "js option \<Rightarrow> js option" where
  "extractToken header =
     (if \<not> truthy_opt header then None
      else (case js_split 32 (the header) of
              scheme # v # _ \<Rightarrow> if js_lower scheme = lit ''bearer'' \<and> truthy v then Some v else None
            | _ \<Rightarrow> None))"

definition canActivate :: "app \<Rightarrow> js option \<Rightarrow> AuthenticatedUser io" where
  "canActivate A header =
     (case extractToken header of
        None \<Rightarrow> Throw (unauthorized ''Missing bearer token.'')
      | Some token \<Rightarrow> bindP now (\<lambda>t.
          case jwtVerify A (accessSecret (jwt (cfg A))) (appBaseUrl (cfg A)) JWT_AUDIENCE t token of
            None \<Rightarrow> Throw (unauthorized ''Invalid or expired access token.'')
          | Some payload \<Rightarrow>
              if claim payload ''type'' \<noteq> Some (JStr (lit ''access'')) \<or> strClaim payload ''sub'' = None
              then Throw (unauthorized ''Invalid or expired access token.'')
              else Ret \<lparr>au_userId = the (strClaim payload ''sub''),
                        au_appleSub = (case strClaim payload ''appleSub'' of Some s \<Rightarrow> s | None \<Rightarrow> [])\<rparr>))"

section \<open>Users and tokens under interference\<close>

lemma evolves_users_change:
  assumes "inv A w" and "users_inv us" and "extends user_keeps (users w) us"
  shows "evolves A w (w\<lparr>users := us\<rparr>)"
proof (rule evolvesI [OF assms(1)])
  have "u_id u \<in> u_id ` set us" if "u \<in> set (users w)" for u
    using extends_in [OF assms(3) that] unfolding user_keeps_def by (metis imageI)
  then have ids: "u_id ` set (users w) \<subseteq> u_id ` set us" by blast
  have "tokens_inv us (tokens w)" "jobs_inv us (jobs w)"
    using assms(1) ids unfolding inv_def tokens_inv_def jobs_inv_def by (meson subset_trans)+
  then show "inv A (w\<lparr>users := us\<rparr>)" using assms(1,2) by (simp add: inv_def)
  show "grows w (w\<lparr>users := us\<rparr>)" using assms(3) by (simp add: grows_def extends_refl)
qed

lemma evolves_tokens_change:
  assumes "inv A w" and "tokens_inv (users w) ts" and "extends token_keeps (tokens w) ts"
  shows "evolves A w (w\<lparr>tokens := ts\<rparr>)"
  using assms by (simp add: evolves_def inv_def grows_def extends_refl)

lemma evolves_tokens_upd:
  assumes "inv A w" and "\<And>t. token_keeps t (f t)"
  shows "evolves A w (w\<lparr>tokens := upd P f (tokens w)\<rparr>)"
proof (rule evolves_tokens_change [OF assms(1)])
  show "extends token_keeps (tokens w) (upd P f (tokens w))"
    by (rule extends_upd) (use assms(2) in auto)
  have k: "t_id (f t) = t_id t" "t_tokenHash (f t) = t_tokenHash t" "t_userId (f t) = t_userId t" for t
    using assms(2) [of t] by (auto simp: token_keeps_def)
  have m: "map t_id (upd P f (tokens w)) = map t_id (tokens w)"
    "map t_tokenHash (upd P f (tokens w)) = map t_tokenHash (tokens w)"
    "map t_userId (upd P f (tokens w)) = map t_userId (tokens w)"
    by (rule map_upd, simp add: k)+
  then have "t_userId ` set (upd P f (tokens w)) = t_userId ` set (tokens w)" by (metis set_map)
  with m show "tokens_inv (users w) (upd P f (tokens w))"
    using assms(1) by (simp add: inv_def tokens_inv_def)
qed

lemma txLawful_createToken: "txLawful A (createToken A u h x)"
  unfolding txLawful_def
proof (intro allI impI)
  fix w assume w: "inv A w"
  let ?i = "uuid A (entropy w)" and ?w1 = "w\<lparr>entropy := Suc (entropy w)\<rparr>"
  let ?t = "\<lparr>t_id = ?i, t_userId = u, t_tokenHash = h, t_expiresAt = x, t_revokedAt = None,
    t_replacedByTokenHash = None, t_createdAt = clock w\<rparr>"
  have e: "evolves A w ?w1" by (rule evolves_entropy [OF w]) simp
  have "evolves A ?w1 (?w1\<lparr>tokens := tokens w @ [?t]\<rparr>)"
    if "?i \<notin> t_id ` set (tokens w)" "h \<notin> t_tokenHash ` set (tokens w)" "u \<in> u_id ` set (users w)"
  proof (rule evolves_tokens_change [OF evolves_inv(1) [OF e]])
    show "tokens_inv (users ?w1) (tokens w @ [?t])"
      using that w by (auto simp: inv_def tokens_inv_def)
  qed (simp add: extends_append)
  with e have "evolves A w (?w1\<lparr>tokens := tokens w @ [?t]\<rparr>)"
    if "?i \<notin> t_id ` set (tokens w)" "h \<notin> t_tokenHash ` set (tokens w)" "u \<in> u_id ` set (users w)"
    using that evolves_trans by blast
  with e show "evolves A w (snd (createToken A u h x w))"
    by (simp add: createToken_def Let_def)
qed

lemma txLawful_retireToken: "txLawful A (retireToken A h n)"
  by (auto simp: txLawful_def retireToken_def token_keeps_def intro!: evolves_refl evolves_tokens_upd)

lemma ok_remote_lawful: "txLawful A f \<Longrightarrow> ok A (\<lambda>_ _. True) (remote f) w"
  by (rule ok_remote) (auto simp: txLawful_def intro: evolves_inv)

lemma ok_revokeChain: "ok A (\<lambda>_ _. True) (revokeChain u) w"
  unfolding revokeChain_def
  by (rule ok_command) (auto simp: token_keeps_def intro!: evolves_tokens_upd intro: evolves_inv)

text \<open>Updating the user of an Apple subject, and adding one.\<close>

lemma evolves_user_update:
  assumes inv: "inv A v" and u: "u \<in> set (users v)" "u_appleSub u = sub"
    and k: "user_keeps u u'" "u_id u' = u_id u" "u_appleSub u' = u_appleSub u"
  shows "evolves A v (v\<lparr>users := upd (\<lambda>x. u_appleSub x = sub) (\<lambda>_. u') (users v)\<rparr>)"
proof (rule evolves_users_change [OF inv])
  let ?us = "upd (\<lambda>x. u_appleSub x = sub) (\<lambda>_. u') (users v)"
  have only: "x = u" if "x \<in> set (users v)" "u_appleSub x = sub" for x
    using that u inv by (auto simp: inv_def users_inv_def distinct_map inj_on_def)
  have ids: "map u_id ?us = map u_id (users v)" "map u_appleSub ?us = map u_appleSub (users v)"
    by (rule map_upd_set, drule (1) only, simp add: k)+
  have "u_id ` set ?us = u_id ` set (users v)" using arg_cong [OF ids(1), of set] by simp
  with inv have "\<forall>i \<in> u_id ` set ?us. 47 \<notin> set i" by (simp add: inv_def users_inv_def)
  then show "users_inv ?us" using ids inv unfolding users_inv_def inv_def ball_simps by simp
  show "extends user_keeps (users v) ?us" by (rule extends_upd) (use only k in auto)
qed

lemma evolves_user_new:
  assumes inv: "inv A v" and u: "u_id u = uuid A (entropy v)" "uuid A (entropy v) \<notin> u_id ` set (users v)"
    and new: "u_appleSub u \<notin> u_appleSub ` set (users v)"
  shows "evolves A v (v\<lparr>entropy := Suc (entropy v), users := users v @ [u]\<rparr>)"
proof -
  let ?w1 = "v\<lparr>entropy := Suc (entropy v)\<rparr>"
  have e: "evolves A v ?w1" by (rule evolves_entropy [OF inv]) simp
  have "evolves A ?w1 (?w1\<lparr>users := users v @ [u]\<rparr>)"
  proof (rule evolves_users_change [OF evolves_inv(1) [OF e]])
    show "users_inv (users v @ [u])"
      using u new inv by (auto simp: inv_def users_inv_def uuid_source_ok_def)
  qed (simp add: extends_append)
  with e show ?thesis using evolves_trans by fastforce
qed

lemma ok_upsertByApple:
  "ok A (\<lambda>u v. userSeen u v \<and> u_appleSub u = sub) (upsertByApple A sub email) w"
  unfolding upsertByApple_def
proof (rule ok_remote)
  fix v assume v: "evolves A w v"
  note inv = evolves_inv(1) [OF v]
  let ?f = "\<lambda>w. case find (\<lambda>u. u_appleSub u = sub) (users w) of
       Some u \<Rightarrow>
         (let u' = u\<lparr>u_email := (if truthy_opt email then email else u_email u), u_updatedAt := clock w\<rparr> in
          (Inr u', w\<lparr>users := upd (\<lambda>v. u_appleSub v = sub) (\<lambda>_. u') (users w)\<rparr>))
     | None \<Rightarrow>
         (let i = uuid A (entropy w); w1 = w\<lparr>entropy := Suc (entropy w)\<rparr>;
              u = \<lparr>u_id = i, u_appleSub = sub, u_email = email, u_createdAt = clock w, u_updatedAt = clock w\<rparr> in
          if i \<in> u_id ` set (users w) then (Inl (prismaKnown A ''P2002''), w1)
          else (Inr u, w1\<lparr>users := users w @ [u]\<rparr>))"
  have r: "evolves A v (snd (?f v)) \<and> (\<forall>u. fst (?f v) = Inr u \<longrightarrow> u \<in> set (users (snd (?f v))) \<and> u_appleSub u = sub)"
  proof (cases "find (\<lambda>u. u_appleSub u = sub) (users v)")
    case (Some u)
    let ?u = "u\<lparr>u_email := (if truthy_opt email then email else u_email u), u_updatedAt := clock v\<rparr>"
    from find_SomeD [OF Some] have u: "u \<in> set (users v)" "u_appleSub u = sub" by auto
    have "user_keeps u ?u" by (cases email) (auto simp: user_keeps_def)
    from evolves_user_update [OF inv u this] u Some show ?thesis by (auto simp: Let_def in_set_upd)
  next
    case None
    let ?u = "\<lparr>u_id = uuid A (entropy v), u_appleSub = sub, u_email = email, u_createdAt = clock v, u_updatedAt = clock v\<rparr>"
    have "sub \<notin> u_appleSub ` set (users v)" using None by (auto simp: find_None_iff)
    with evolves_user_new [OF inv, of ?u] evolves_entropy [OF inv, of "Suc (entropy v)"] None show ?thesis
      by (simp add: Let_def)
  qed
  then show "evolves A v (snd (?f v))" by blast
  fix u x assume u: "fst (?f v) = Inr u" and x: "evolves A (snd (?f v)) x"
  from u r have "u \<in> set (users (snd (?f v)))" and sub: "u_appleSub u = sub" by blast+
  then have "userSeen u (snd (?f v))" unfolding userSeen_def by (intro bexI [of _ u] keeps_refl)
  with sub userSeen_stable [OF _ x] show "userSeen u x \<and> u_appleSub u = sub" by blast
qed

lemma ok_findUserById: "ok A (\<lambda>r v. \<forall>u. r = Some u \<longrightarrow> u_id u = i \<and> userSeen u v) (findUserById i) w"
  unfolding findUserById_def
proof (rule ok_query, intro allI impI)
  fix v x u assume x: "evolves A v x" and f: "find (\<lambda>u. u_id u = i) (users v) = Some u"
  from find_SomeD [OF f] have "userSeen u v" by (auto simp: userSeen_def intro!: bexI [of _ u])
  with find_SomeD [OF f] userSeen_stable [OF _ x] show "u_id u = i \<and> userSeen u x" by simp
qed

lemma ok_generateRefreshToken: "ok A (\<lambda>_ _. True) (generateRefreshToken A) w"
  unfolding generateRefreshToken_def Let_def
  by (rule ok_bind [OF ok_draw], rule ok_bind [OF ok_now]) simp

lemma ok_issueAccessToken: "ok A (\<lambda>_ _. True) (issueAccessToken A u s) w"
  unfolding issueAccessToken_def Let_def by (rule ok_bind [OF ok_now]) simp

lemma ok_issueTokenPair: "ok A (\<lambda>r _. tr_userId r = u) (issueTokenPair A u s) w"
  unfolding issueTokenPair_def
  by (rule ok_bind [OF ok_generateRefreshToken], rule ok_seq [OF ok_remote_lawful [OF txLawful_createToken]],
      rule ok_bind [OF ok_issueAccessToken]) (simp add: tokenResponse_def)

lemma ok_findTokenByHash: "ok A (\<lambda>_ _. True) (findTokenByHash h) w"
  unfolding findTokenByHash_def by (rule ok_query) simp

lemma ok_canActivate: "ok A (\<lambda>_ _. True) (canActivate A h) w"
  unfolding canActivate_def
  by (auto split: option.split intro!: ok_bind [OF ok_now])

text \<open>A session result speaks of a registered user.\<close>

definition registered :: "js \<Rightarrow> js \<Rightarrow> world \<Rightarrow> bool" where
  "registered i sub w \<longleftrightarrow> (\<exists>u \<in> set (users w). u_id u = i \<and> u_appleSub u = sub)"

lemma userSeen_registered: "userSeen u w \<longleftrightarrow> userSeen u w \<and> registered (u_id u) (u_appleSub u) w"
  by (auto simp: userSeen_def registered_def user_keeps_def)

text \<open>Rotation for a user that was read.\<close>

lemma ok_rotate:
  assumes "userSeen user v"
  shows "ok A (\<lambda>r v. \<exists>sub. registered (tr_userId r) sub v)
      (bindP (generateRefreshToken A) (\<lambda>nxt.
        seqP (transaction (txBind (retireToken A h (rt_hash nxt)) (\<lambda>_.
                createToken A (u_id user) (rt_hash nxt) (rt_expiresAt nxt))))
       (bindP (issueAccessToken A (u_id user) (u_appleSub user)) (\<lambda>access.
          Ret (tokenResponse A access (rt_token nxt) (u_id user)))))) v"
proof (rule ok_bind [OF ok_generateRefreshToken],
    rule ok_seq [OF ok_transaction_lawful [OF txLawful_bind [OF txLawful_retireToken txLawful_createToken]]],
    rule ok_bind [OF ok_issueAccessToken], rule ok_Ret)
  fix nxt x y z acc q
  assume "evolves A v x" "evolves A x y" "evolves A y z" "evolves A z q"
  then have "evolves A v q" using evolves_trans by blast
  then have "userSeen user q" using assms userSeen_stable by blast
  then show "\<exists>sub. registered (tr_userId (tokenResponse A acc (rt_token nxt) (u_id user))) sub q"
    using userSeen_registered by (auto simp: tokenResponse_def)
qed

lemma ok_refresh: "ok A (\<lambda>r v. \<exists>sub. registered (tr_userId r) sub v) (refresh A t) w"
proof -
  have found: "ok A (\<lambda>r v. \<exists>sub. registered (tr_userId r) sub v)
      (bindP (findUserById i) (\<lambda>found. case found of
          None \<Rightarrow> Throw (unauthorized ''User no longer exists.'')
        | Some user \<Rightarrow> bindP (generateRefreshToken A) (\<lambda>nxt.
            seqP (transaction (txBind (retireToken A h (rt_hash nxt)) (\<lambda>_.
                    createToken A (u_id user) (rt_hash nxt) (rt_expiresAt nxt))))
           (bindP (issueAccessToken A (u_id user) (u_appleSub user)) (\<lambda>access.
              Ret (tokenResponse A access (rt_token nxt) (u_id user))))))) v" for i h v
    by (rule ok_bind [OF ok_findUserById]) (auto split: option.split intro: ok_rotate)
  show ?thesis
    unfolding refresh_def Let_def
    by (rule ok_bind [OF ok_findTokenByHash], unfold refreshFound_def)
      (auto split: option.split intro!: ok_seq [OF ok_revokeChain] ok_bind [OF ok_now] found)
qed

section \<open>The verifier interface\<close>

text \<open>
  \<^verbatim>\<open>AppleTokenVerifier\<close> as the auth service relies on it: a verifier changes nothing, whatever it answers,
  and the identity it returns has a subject.
\<close>

locale apple_token_verifier =
  fixes A :: app and verify :: "js \<Rightarrow> js option \<Rightarrow> AppleIdentity io"
  assumes verify_pure: "snd (run (verify t n) w) = w"
    and verify_sub: "fst (run (verify t n) w) = Inr identity \<Longrightarrow> ai_sub identity \<noteq> []"
    and verify_ok: "ok A (\<lambda>identity _. ai_sub identity \<noteq> []) (verify t n) w"
begin

lemma sign_in_ok: "ok A (\<lambda>r v. \<exists>sub. sub \<noteq> [] \<and> registered (tr_userId r) sub v) (signInWith verify A t n e) w"
  unfolding signInWith_def
proof (rule ok_bind [OF verify_ok], rule ok_bind [OF ok_upsertByApple])
  fix identity v user x
  assume i: "ai_sub identity \<noteq> []" and u: "userSeen user x \<and> u_appleSub user = ai_sub identity"
  show "ok A (\<lambda>r v. \<exists>sub. sub \<noteq> [] \<and> registered (tr_userId r) sub v)
      (issueTokenPair A (u_id user) (u_appleSub user)) x"
  proof (rule wpr_mono [OF ev.wpr_frame [OF ok_issueTokenPair]])
    fix r y assume r: "tr_userId r = u_id user \<and> evolves A x y"
    with u userSeen_stable have "userSeen user y" by blast
    with r u i show "\<exists>sub. sub \<noteq> [] \<and> registered (tr_userId r) sub y"
      using userSeen_registered by metis
  qed simp
qed

lemma sign_in_refused: "run (verify t n) w = (Inl err, v) \<Longrightarrow> run (signInWith verify A t n e) w = (Inl err, w)"
  using verify_pure [of t n w] by (simp add: signInWith_def)

end

lemma strClaim_truthy: "truthy_opt (strClaim cs k) \<Longrightarrow> the (strClaim cs k) \<noteq> []"
  by (auto simp: truthy_opt_def split: option.splits)

interpretation dev: apple_token_verifier A "\<lambda>t n. devVerify A t" for A
proof
  show "ok A (\<lambda>i _. ai_sub i \<noteq> []) (devVerify A t) w" for t w
    by (auto simp: devVerify_def Let_def truthy_opt_def split: option.splits if_splits)
  show "fst (run (devVerify A t) w) = Inr i \<Longrightarrow> ai_sub i \<noteq> []" for t w i
    by (auto simp: devVerify_def Let_def truthy_opt_def split: option.splits if_splits)
qed (simp add: devVerify_def Let_def)

interpretation real: apple_token_verifier A "realVerify A" for A
proof
  show "ok A (\<lambda>i _. ai_sub i \<noteq> []) (realVerify A t n) w" for t n w
    unfolding realVerify_def
    by (rule ok_bind [OF ok_now]) (auto simp: Let_def strClaim_truthy split: option.splits)
  show "fst (run (realVerify A t n) w) = Inr i \<Longrightarrow> ai_sub i \<noteq> []" for t n w i
    by (auto simp: realVerify_def Let_def strClaim_truthy split: option.splits if_splits)
  show "snd (run (realVerify A t n) w) = w" for t n w
    by (auto simp: realVerify_def Let_def split: option.splits)
qed

interpretation apple: apple_token_verifier A "appleVerifier A" for A
  by unfold_locales
    (auto simp: appleVerifier_def dev.verify_pure real.verify_pure dev.verify_ok real.verify_ok
      dest: dev.verify_sub real.verify_sub split: if_splits)

lemma ok_signInWithApple:
  "ok A (\<lambda>r v. \<exists>sub. sub \<noteq> [] \<and> registered (tr_userId r) sub v) (signInWithApple A t n e) w"
  unfolding signInWithApple_def by (rule apple.sign_in_ok)

end
