(* ===== verification/Jwt.thy ===== *)
theory Jwt
  imports Auth
begin

text \<open>
  What access tokens rest on: the documented behaviour of \<^verbatim>\<open>SignJWT\<close> and \<^verbatim>\<open>jwtVerify\<close> (\<^verbatim>\<open>jose\<close>, HS256) on payloads of
  strings and numbers, and a concrete library that has it.
\<close>

section \<open>The law\<close>

fun flat :: "json \<Rightarrow> bool" where
  "flat (JStr s) = True"
| "flat (JNum s) = True"
| "flat v = False"

text \<open>
  A token verified with the key it was signed with gives its payload back exactly when the payload names the
  expected issuer and audience and the expiry is later than now (whole seconds). Payload keys are distinct, the
  expiry is an integer, no \<^verbatim>\<open>nbf\<close> is set. The compact form of a token is not empty and has no space.
\<close>

definition joseHS256 :: "app \<Rightarrow> bool" where
  "joseHS256 A \<longleftrightarrow> (\<forall>key claims issuer audience t e.
     distinct (map fst claims) \<longrightarrow> (\<forall>(k, v) \<in> set claims. flat v) \<longrightarrow> claim claims ''nbf'' = None \<longrightarrow>
     claim claims ''exp'' = Some (JNum (js_of_int e)) \<longrightarrow>
     jwtVerify A key issuer audience t (signJwt A key claims) =
       (if claim claims ''iss'' = Some (JStr issuer) \<and> claim claims ''aud'' = Some (JStr audience) \<and> int (t div 1000) < e
        then Some claims else None)
     \<and> signJwt A key claims \<noteq> [] \<and> 32 \<notin> set (signJwt A key claims))"

section \<open>A library with this law\<close>

text \<open>Integers from their decimal form.\<close>

definition natOf :: "js \<Rightarrow> nat" where
  "natOf s = foldl (\<lambda>a c. 10 * a + (unat c - 48)) 0 s"

definition intOf :: "js \<Rightarrow> int" where
  "intOf s = (case s of c # r \<Rightarrow> if c = 45 then - int (natOf r) else int (natOf s) | [] \<Rightarrow> 0)"

lemma unat_digit: "d < 10 \<Longrightarrow> unat (48 + of_nat d :: jschar) = 48 + d"
  by (subst unat_word_ariths(1)) (simp add: unat_of_nat)

lemma natOf_snoc: "natOf (s @ [c]) = 10 * natOf s + (unat c - 48)"
  by (simp add: natOf_def)

lemma natOf_js_of_nat: "natOf (js_of_nat n) = n"
proof (induction n rule: js_of_nat.induct)
  case (1 n)
  have last: "unat (48 + of_nat (n mod 10) :: jschar) - 48 = n mod 10" by (subst unat_digit) simp_all
  show ?case
  proof (cases "n < 10")
    case True
    then have "js_of_nat n = [] @ [48 + of_nat (n mod 10)]" by (subst js_of_nat.simps) simp
    then have "natOf (js_of_nat n) = 10 * natOf [] + n mod 10" by (simp only: natOf_snoc last)
    with True show ?thesis by (simp add: natOf_def)
  next
    case False
    then have "js_of_nat n = js_of_nat (n div 10) @ [48 + of_nat (n mod 10)]" by (subst js_of_nat.simps) simp
    then have "natOf (js_of_nat n) = 10 * natOf (js_of_nat (n div 10)) + n mod 10" by (simp only: natOf_snoc last)
    with 1 [OF False] show ?thesis by simp
  qed
qed

lemma hd_js_of_nat: "hd (js_of_nat n) \<noteq> 45"
proof (induction n rule: js_of_nat.induct)
  case (1 n)
  show ?case
  proof (cases "n < 10")
    case True
    have "unat (48 + of_nat n :: jschar) \<noteq> unat (45 :: jschar)" by (subst unat_digit [OF True]) simp
    then have "(48 + of_nat n :: jschar) \<noteq> 45" by metis
    with True show ?thesis by (subst js_of_nat.simps) (simp only: if_True list.sel not_False_eq_True)
  next
    case False
    then have "hd (js_of_nat n) = hd (js_of_nat (n div 10))" by (subst js_of_nat.simps) simp
    with 1 [OF False] show ?thesis by simp
  qed
qed

lemma intOf_js_of_int: "intOf (js_of_int i) = i"
proof (cases "i < 0")
  case True
  then show ?thesis by (simp add: js_of_int_def intOf_def lit_unfold natOf_js_of_nat)
next
  case False
  with hd_js_of_nat [of "nat i"] natOf_js_of_nat [of "nat i"] js_of_nat_not_Nil [of "nat i"] show ?thesis
    by (cases "js_of_nat (nat i)") (simp_all add: js_of_int_def intOf_def)
qed

text \<open>
  A token spells out key and payload. Strings end with 0; a space is written 5, any other unit after a 1.
\<close>

definition putUnit :: "jschar \<Rightarrow> js" where
  "putUnit c = (if c = 32 then [5] else [1, c])"

definition putStr :: "js \<Rightarrow> js" where
  "putStr s = concat (map putUnit s) @ [0]"

fun getStr :: "js \<Rightarrow> js \<times> js" where
  "getStr [] = ([], [])"
| "getStr (x # r) =
     (if x = 0 then ([], r)
      else if x = 5 then (case getStr r of (s, q) \<Rightarrow> (32 # s, q))
      else (case r of [] \<Rightarrow> ([], []) | c # r' \<Rightarrow> (case getStr r' of (s, q) \<Rightarrow> (c # s, q))))"

fun putVal :: "json \<Rightarrow> js" where
  "putVal (JStr s) = 2 # putStr s"
| "putVal (JNum s) = 3 # putStr s"
| "putVal v = [2, 0]"

definition putClaims :: "(js \<times> json) list \<Rightarrow> js" where
  "putClaims cs = concat (map (\<lambda>(k, v). putStr k @ putVal v) cs)"

fun getClaims :: "nat \<Rightarrow> js \<Rightarrow> (js \<times> json) list" where
  "getClaims 0 s = []"
| "getClaims (Suc n) s =
     (case getStr s of
        (k, []) \<Rightarrow> []
      | (k, x # q) \<Rightarrow> (case getStr q of (v, r) \<Rightarrow> (k, if x = 2 then JStr v else JNum v) # getClaims n r))"

definition spellSign :: "js \<Rightarrow> (js \<times> json) list \<Rightarrow> js" where
  "spellSign key claims = putStr key @ putClaims claims"

definition spellVerify :: "js \<Rightarrow> js \<Rightarrow> js \<Rightarrow> nat \<Rightarrow> js \<Rightarrow> (js \<times> json) list option" where
  "spellVerify key issuer audience t token =
     (case getStr token of (k, r) \<Rightarrow>
        let cs = getClaims (length r) r in
        if k = key \<and> claim cs ''iss'' = Some (JStr issuer) \<and> claim cs ''aud'' = Some (JStr audience)
           \<and> (case claim cs ''exp'' of Some (JNum e) \<Rightarrow> int (t div 1000) < intOf e | _ \<Rightarrow> True)
        then Some cs else None)"

lemma getStr_putStr: "getStr (putStr s @ r) = (s, r)"
  by (induction s) (simp_all add: putStr_def putUnit_def)

lemma getClaims_putClaims:
  "\<forall>(k, v) \<in> set cs. flat v \<Longrightarrow> length cs \<le> n \<Longrightarrow> getClaims n (putClaims cs) = cs"
proof (induction cs arbitrary: n)
  case Nil
  show ?case by (cases n) (simp_all add: putClaims_def)
next
  case (Cons c cs)
  obtain k v where c: "c = (k, v)" by (cases c)
  with Cons obtain m where m: "n = Suc m" "length cs \<le> m" by (cases n) auto
  have "getClaims m (putClaims cs) = cs" using Cons m by auto
  moreover have "flat v" using Cons.prems(1) c by simp
  ultimately show ?case
    by (cases v) (simp_all add: c m putClaims_def getStr_putStr)
qed

lemma length_putClaims: "length cs \<le> length (putClaims cs)"
  by (induction cs) (auto simp: putClaims_def putStr_def)

lemma no_space:
  "32 \<notin> set (putStr s)" "32 \<notin> set (putVal v)" "32 \<notin> set (putClaims cs)"
proof -
  show s: "32 \<notin> set (putStr s)" for s by (auto simp: putStr_def putUnit_def)
  show v: "32 \<notin> set (putVal v)" for v by (cases v) (simp_all add: s)
  show "32 \<notin> set (putClaims cs)" by (auto simp: putClaims_def s v)
qed

definition sampleJose :: app where
  "sampleJose = sampleApp\<lparr>signJwt := spellSign, jwtVerify := spellVerify\<rparr>"

lemma joseHS256_sample: "joseHS256 sampleJose"
proof -
  have "spellVerify key issuer audience t (spellSign key claims) =
      (if claim claims ''iss'' = Some (JStr issuer) \<and> claim claims ''aud'' = Some (JStr audience) \<and> int (t div 1000) < e
       then Some claims else None)"
    if "\<forall>(k, v) \<in> set claims. flat v" "claim claims ''exp'' = Some (JNum (js_of_int e))"
    for key claims issuer audience t e
    using getClaims_putClaims [OF that(1) length_putClaims] that(2)
    by (simp add: spellVerify_def spellSign_def getStr_putStr Let_def intOf_js_of_int)
  moreover have "spellSign key claims \<noteq> []" "32 \<notin> set (spellSign key claims)" for key claims
    using no_space by (simp_all add: spellSign_def putStr_def)
  ultimately show ?thesis unfolding joseHS256_def sampleJose_def by auto
qed

end
