(* ===== verification/Auth_Behaviour.thy ===== *)
theory Auth_Behaviour
  imports Jwt
begin

text \<open>
  What sign-in, rotation and the guard do: rotation and reuse detection of refresh tokens, what two
  concurrent rotations of one token do, the soundness of the production verifier, one account per
  Apple subject, and issued access tokens accepted by the guard.
\<close>

section \<open>Running the token operations\<close>

lemma run_findTokenByHash [simp]: "faults w = [] \<Longrightarrow>
    run (findTokenByHash h) w = (Inr (find (\<lambda>t. t_tokenHash t = h) (tokens w)), w)"
  by (simp add: findTokenByHash_def)

lemma run_findUserById [simp]: "faults w = [] \<Longrightarrow>
    run (findUserById i) w = (Inr (find (\<lambda>u. u_id u = i) (users w)), w)"
  by (simp add: findUserById_def)

lemma run_generateRefreshToken [simp]:
  "run (generateRefreshToken A) w = (Inr \<lparr>rt_token = randomToken A (entropy w),
     rt_hash = hashRefreshToken A (randomToken A (entropy w)),
     rt_expiresAt = int (clock w) + refreshTtl (jwt (cfg A)) * 1000\<rparr>, w\<lparr>entropy := Suc (entropy w)\<rparr>)"
  by (simp add: generateRefreshToken_def Let_def)

lemma run_issueAccessToken [simp]:
  "run (issueAccessToken A u s) w =
     (Inr (signJwt A (accessSecret (jwt (cfg A))) (accessClaims A u s (clock w div 1000))), w)"
  by (simp add: issueAccessToken_def Let_def)

text \<open>The next random token and the next row id are new.\<close>

definition fresh_token :: "app \<Rightarrow> world \<Rightarrow> bool" where
  "fresh_token A w \<longleftrightarrow> hashRefreshToken A (randomToken A (entropy w)) \<notin> t_tokenHash ` set (tokens w)
     \<and> uuid A (Suc (entropy w)) \<notin> t_id ` set (tokens w)"

definition newToken :: "app \<Rightarrow> world \<Rightarrow> js \<Rightarrow> token_row" where
  "newToken A w u = \<lparr>t_id = uuid A (Suc (entropy w)), t_userId = u,
     t_tokenHash = hashRefreshToken A (randomToken A (entropy w)),
     t_expiresAt = int (clock w) + refreshTtl (jwt (cfg A)) * 1000, t_revokedAt = None,
     t_replacedByTokenHash = None, t_createdAt = clock w\<rparr>"

lemma newToken_simps [simp]:
  "t_tokenHash (newToken A w u) = hashRefreshToken A (randomToken A (entropy w))"
  "t_revokedAt (newToken A w u) = None" "t_userId (newToken A w u) = u"
  "t_expiresAt (newToken A w u) = int (clock w) + refreshTtl (jwt (cfg A)) * 1000"
  by (simp_all add: newToken_def)

definition retired :: "app \<Rightarrow> world \<Rightarrow> token_row \<Rightarrow> token_row" where
  "retired A w t = t\<lparr>t_revokedAt := Some (clock w),
     t_replacedByTokenHash := Some (hashRefreshToken A (randomToken A (entropy w)))\<rparr>"

definition accessFor :: "app \<Rightarrow> world \<Rightarrow> user_row \<Rightarrow> js" where
  "accessFor A w u = signJwt A (accessSecret (jwt (cfg A)))
     (accessClaims A (u_id u) (u_appleSub u) (clock w div 1000))"

definition rotated :: "app \<Rightarrow> world \<Rightarrow> js \<Rightarrow> js \<Rightarrow> world" where
  "rotated A w h u = w\<lparr>entropy := Suc (Suc (entropy w)),
     tokens := upd (\<lambda>t. t_tokenHash t = h) (retired A w) (tokens w) @ [newToken A w u]\<rparr>"

text \<open>What a refresh does once the record of a live token has been read, even if that reading is stale.\<close>

lemma run_refreshFound:
  assumes "faults w = []" and "t_revokedAt rec = None" and "int (clock w) < t_expiresAt rec"
    and "find (\<lambda>u. u_id u = t_userId rec) (users w) = Some user"
    and "h \<in> t_tokenHash ` set (tokens w)" and "fresh_token A w"
  shows "run (refreshFound A h (Some rec)) w =
    (Inr (tokenResponse A (accessFor A w user) (randomToken A (entropy w)) (t_userId rec)),
     rotated A w h (t_userId rec))"
proof -
  from find_SomeD [OF assms(4)] have u: "user \<in> set (users w)" "u_id user = t_userId rec" by auto
  let ?next = "hashRefreshToken A (randomToken A (entropy w))"
  let ?w1 = "w\<lparr>entropy := Suc (entropy w)\<rparr>"
  let ?old = "upd (\<lambda>t. t_tokenHash t = h) (retired A w) (tokens w)"
  have ret: "retireToken A h ?next ?w1 = (Inr (), ?w1\<lparr>tokens := ?old\<rparr>)"
    using assms(5) by (simp add: retireToken_def retired_def [abs_def])
  have keys: "map t_id ?old = map t_id (tokens w)" "map t_tokenHash ?old = map t_tokenHash (tokens w)"
    by (rule map_upd, simp add: retired_def)+
  then have "t_id ` set ?old = t_id ` set (tokens w)" "t_tokenHash ` set ?old = t_tokenHash ` set (tokens w)"
    by (metis set_map)+
  moreover have "t_userId rec \<in> u_id ` set (users w)" using u by force
  ultimately have "createToken A (t_userId rec) ?next (int (clock w) + refreshTtl (jwt (cfg A)) * 1000)
      (?w1\<lparr>tokens := ?old\<rparr>) = (Inr (), rotated A w h (t_userId rec))"
    using assms(6) by (simp add: createToken_def fresh_token_def Let_def rotated_def newToken_def)
  with ret have tx: "txBind (retireToken A h ?next) (\<lambda>_. createToken A (t_userId rec) ?next
      (int (clock w) + refreshTtl (jwt (cfg A)) * 1000)) ?w1 = (Inr (), rotated A w h (t_userId rec))"
    by (simp add: txBind_def)
  have "clock (rotated A w h i) = clock w" for i by (simp add: rotated_def)
  with assms(1-4) u tx show ?thesis
    by (simp add: refreshFound_def run_transaction accessFor_def)
qed

lemma user_of_token:
  assumes "inv A w" and "rec \<in> set (tokens w)"
  shows "\<exists>user. find (\<lambda>u. u_id u = t_userId rec) (users w) = Some user"
proof -
  have "t_userId rec \<in> u_id ` set (users w)" using assms by (auto simp: inv_def tokens_inv_def)
  then have "find (\<lambda>u. u_id u = t_userId rec) (users w) \<noteq> None" by (auto simp: find_None_iff)
  then show ?thesis by blast
qed

section \<open>Rotation and reuse\<close>

text \<open>
  C10. Rotation: presenting a live, unexpired refresh token revokes it, links it to its successor, and
  issues a new live token of the same user with a full lifetime; the raw token goes to the client, only its
  keyed digest is stored. Every other token is as before.
\<close>

theorem refresh_rotates:
  assumes "faults w = []" and "inv A w" and "fresh_token A w"
    and "rec \<in> set (tokens w)" and "t_tokenHash rec = hashRefreshToken A token"
    and "t_revokedAt rec = None" and "int (clock w) < t_expiresAt rec"
  shows "\<exists>r w' new. run (refresh A token) w = (Inr r, w') \<and> tr_userId r = t_userId rec
    \<and> tr_refreshToken r = randomToken A (entropy w)
    \<and> tokens w' = upd (\<lambda>t. t_tokenHash t = t_tokenHash rec) (retired A w) (tokens w) @ [new]
    \<and> t_tokenHash new = hashRefreshToken A (tr_refreshToken r) \<and> t_userId new = t_userId rec
    \<and> t_revokedAt new = None \<and> t_expiresAt new = int (clock w) + refreshTtl (jwt (cfg A)) * 1000"
proof -
  let ?h = "hashRefreshToken A token"
  have "distinct (map t_tokenHash (tokens w))" using assms(2) by (simp add: inv_def tokens_inv_def)
  with assms(4,5) have f: "find (\<lambda>t. t_tokenHash t = ?h) (tokens w) = Some rec"
    by (intro find_distinct [where k = t_tokenHash]) auto
  obtain user where user: "find (\<lambda>u. u_id u = t_userId rec) (users w) = Some user"
    using user_of_token [OF assms(2,4)] by blast
  have "?h \<in> t_tokenHash ` set (tokens w)" using assms(4,5) by force
  note run = run_refreshFound [OF assms(1,6,7) user this assms(3)]
  show ?thesis
    using assms(1,5) f run
    by (intro exI [of _ "newToken A w (t_userId rec)"] exI)
      (auto simp: refresh_def Let_def tokenResponse_def rotated_def newToken_def)
qed

text \<open>
  C11. Reuse detection: presenting a refresh token that has been revoked is refused with 401, and leaves the
  token's user without any live token, while the tokens of all other users stay as they are.
\<close>

theorem refresh_reuse_revokes_chain:
  assumes "faults w = []" and "inv A w"
    and "rec \<in> set (tokens w)" and "t_tokenHash rec = hashRefreshToken A token" and "t_revokedAt rec \<noteq> None"
  shows "\<exists>w'. run (refresh A token) w = (Inl (unauthorized ''Refresh token already used.''), w')
    \<and> (\<forall>t \<in> set (tokens w'). t_userId t = t_userId rec \<longrightarrow> t_revokedAt t \<noteq> None)
    \<and> filter (\<lambda>t. t_userId t \<noteq> t_userId rec) (tokens w') = filter (\<lambda>t. t_userId t \<noteq> t_userId rec) (tokens w)"
proof -
  have "distinct (map t_tokenHash (tokens w))" using assms(2) by (simp add: inv_def tokens_inv_def)
  with assms(3,4) have f: "find (\<lambda>t. t_tokenHash t = hashRefreshToken A token) (tokens w) = Some rec"
    by (intro find_distinct [where k = t_tokenHash]) auto
  let ?P = "\<lambda>t. t_userId t = t_userId rec \<and> t_revokedAt t = None"
  let ?g = "\<lambda>t. t\<lparr>t_revokedAt := Some (clock w)\<rparr>"
  let ?w' = "w\<lparr>tokens := upd ?P ?g (tokens w)\<rparr>"
  have "run (refresh A token) w = (Inl (unauthorized ''Refresh token already used.''), ?w')"
    using assms(1,5) f by (auto simp: refresh_def refreshFound_def revokeChain_def Let_def)
  moreover have "filter (\<lambda>t. t_userId t \<noteq> t_userId rec) (upd ?P ?g ts) = filter (\<lambda>t. t_userId t \<noteq> t_userId rec) ts"
    for ts :: "token_row list"
    by (induction ts) auto
  moreover have "\<forall>t \<in> set (upd ?P ?g ts). t_userId t = t_userId rec \<longrightarrow> t_revokedAt t \<noteq> None"
    for ts :: "token_row list"
    by (induction ts) auto
  ultimately show ?thesis by (intro exI [of _ ?w']) simp
qed

section \<open>Two rotations at once\<close>

text \<open>
  \<open>p\<close> makes its first call, then \<open>q\<close> runs to its end, then \<open>p\<close> goes on: one of the interleavings of two
  concurrent requests.
\<close>

fun overtaken :: "('w, 'e, 'a) prog \<Rightarrow> ('w, 'e, 'b) prog \<Rightarrow> 'w \<Rightarrow> ('e + 'a) \<times> ('e + 'b) \<times> 'w" where
  "overtaken (Step f) q w =
     (case f w of (p', w1) \<Rightarrow> case run q w1 of (rq, w2) \<Rightarrow> case run p' w2 of (rp, w3) \<Rightarrow> (rp, rq, w3))"
| "overtaken p q w = (case run q w of (rq, w1) \<Rightarrow> case run p w1 of (rp, w2) \<Rightarrow> (rp, rq, w2))"

lemma overtaken_call:
  "fst (f w) = Inr a \<Longrightarrow> overtaken (bindP (call f) k) q w =
     (case run q (snd (f w)) of (rq, w2) \<Rightarrow> case run (k a) w2 of (rp, w3) \<Rightarrow> (rp, rq, w3))"
  by (cases "f w") (simp add: call_def)

lemma overtaken_query:
  assumes "faults w = []"
  shows "overtaken (bindP (query f) k) q w =
     (case run q w of (rq, w2) \<Rightarrow> case run (k (f w)) w2 of (rp, w3) \<Rightarrow> (rp, rq, w3))"
  unfolding query_def remote_def by (subst overtaken_call [where a = "f w"]) (simp_all add: assms)

text \<open>
  C39. Single use is not enforced against concurrency: when a second refresh with the same live token runs
  between the first one's reading of the record and its update, both succeed, and the one presented token
  leaves two live successors.
\<close>

theorem concurrent_refresh_both_succeed:
  assumes "faults w = []" and "inv A w" and "fresh_token A w"
    and "fresh_token A (rotated A w (hashRefreshToken A token) (t_userId rec))"
    and "rec \<in> set (tokens w)" and "t_tokenHash rec = hashRefreshToken A token"
    and "t_revokedAt rec = None" and "int (clock w) < t_expiresAt rec"
  shows "\<exists>r1 r2 w'. overtaken (refresh A token) (refresh A token) w = (Inr r1, Inr r2, w')
    \<and> tr_refreshToken r1 = randomToken A (entropy w + 2) \<and> tr_refreshToken r2 = randomToken A (entropy w)
    \<and> (\<exists>t1 t2. drop (length (tokens w)) (tokens w') = [t2, t1]
        \<and> t_revokedAt t1 = None \<and> t_tokenHash t1 = hashRefreshToken A (tr_refreshToken r1)
        \<and> t_revokedAt t2 = None \<and> t_tokenHash t2 = hashRefreshToken A (tr_refreshToken r2))"
proof -
  let ?h = "hashRefreshToken A token"
  let ?w1 = "rotated A w ?h (t_userId rec)" 
  have dist: "distinct (map t_tokenHash (tokens w))" using assms(2) by (simp add: inv_def tokens_inv_def)
  with assms(5,6) have f: "find (\<lambda>t. t_tokenHash t = ?h) (tokens w) = Some rec"
    by (intro find_distinct [where k = t_tokenHash]) auto
  obtain user where user: "find (\<lambda>u. u_id u = t_userId rec) (users w) = Some user"
    using user_of_token [OF assms(2,5)] by blast
  have h: "?h \<in> t_tokenHash ` set (tokens w)" using assms(5,6) by force
  note run1 = run_refreshFound [OF assms(1,7,8) user h assms(3)]
  have w1: "faults ?w1 = []" "int (clock ?w1) < t_expiresAt rec" "entropy ?w1 = entropy w + 2"
    "find (\<lambda>u. u_id u = t_userId rec) (users ?w1) = Some user"
    using assms(1,8) user by (simp_all add: rotated_def)
  have "map t_tokenHash (upd (\<lambda>t. t_tokenHash t = ?h) (retired A w) (tokens w)) = map t_tokenHash (tokens w)"
    by (rule map_upd) (simp add: retired_def)
  then have h1: "?h \<in> t_tokenHash ` set (tokens ?w1)"
    using h unfolding rotated_def by (simp, metis image_set)
  note run2 = run_refreshFound [OF w1(1) assms(7) w1(2,4) h1 assms(4)]
  let ?w2 = "rotated A ?w1 ?h (t_userId rec)"
  have "hashRefreshToken A (randomToken A (entropy w)) \<noteq> ?h"
    using assms(3) h by (auto simp: fresh_token_def)
  then have tok: "drop (length (tokens w)) (tokens ?w2) = [newToken A w (t_userId rec), newToken A ?w1 (t_userId rec)]"
    by (simp add: rotated_def)
  have run: "run (refresh A token) w = (Inr (tokenResponse A (accessFor A w user)
      (randomToken A (entropy w)) (t_userId rec)), ?w1)"
    using assms(1) f run1 by (simp add: refresh_def Let_def)
  have "overtaken (refresh A token) (refresh A token) w =
      (case run (refresh A token) w of (rq, w2) \<Rightarrow>
        case run (refreshFound A ?h (Some rec)) w2 of (rp, w3) \<Rightarrow> (rp, rq, w3))"
    by (simp only: refresh_def Let_def findTokenByHash_def overtaken_query [OF assms(1)] f)
  also have "\<dots> = (Inr (tokenResponse A (accessFor A ?w1 user) (randomToken A (entropy ?w1)) (t_userId rec)),
       Inr (tokenResponse A (accessFor A w user) (randomToken A (entropy w)) (t_userId rec)), ?w2)"
    by (simp only: run run2 prod.case)
  finally have "overtaken (refresh A token) (refresh A token) w =
      (Inr (tokenResponse A (accessFor A ?w1 user) (randomToken A (entropy ?w1)) (t_userId rec)),
       Inr (tokenResponse A (accessFor A w user) (randomToken A (entropy w)) (t_userId rec)), ?w2)" .
  then show ?thesis
    by (intro exI conjI) (assumption | rule tok | simp add: tokenResponse_def w1(3))+
qed

section \<open>Witnesses for rotation\<close>

definition sampleToken :: token_row where
  "sampleToken = \<lparr>t_id = lit ''t1'', t_userId = lit ''u1'', t_tokenHash = hashRefreshToken sampleApp (lit ''T''),
     t_expiresAt = 1000, t_revokedAt = None, t_replacedByTokenHash = None, t_createdAt = 0\<rparr>"

lemma sample_token_inv: "inv sampleApp (sampleWorld\<lparr>tokens := [sampleToken\<lparr>t_revokedAt := r\<rparr>]\<rparr>)"
  by (rule evolves_inv(1) [OF evolves_tokens_change [OF sample_inv]])
    (simp_all add: tokens_inv_def sampleToken_def extends_def, simp_all add: sampleWorld_def)

lemma sample_fresh:
  "fresh_token sampleApp (sampleWorld\<lparr>tokens := [sampleToken]\<rparr>)"
  "fresh_token sampleApp (rotated sampleApp (sampleWorld\<lparr>tokens := [sampleToken]\<rparr>)
     (hashRefreshToken sampleApp (lit ''T'')) (lit ''u1''))"
  by (simp_all add: fresh_token_def sampleToken_def hashRefreshToken_def sampleApp_def rotated_def
      retired_def newToken_def lit_unfold)

theorem refresh_rotates_witness:
  "\<exists>r w'. run (refresh sampleApp (lit ''T'')) (sampleWorld\<lparr>tokens := [sampleToken]\<rparr>) = (Inr r, w')
     \<and> tr_userId r = lit ''u1''"
proof -
  have "faults (sampleWorld\<lparr>tokens := [sampleToken]\<rparr>) = []" "inv sampleApp (sampleWorld\<lparr>tokens := [sampleToken]\<rparr>)"
    "sampleToken \<in> set (tokens (sampleWorld\<lparr>tokens := [sampleToken]\<rparr>))"
    "t_tokenHash sampleToken = hashRefreshToken sampleApp (lit ''T'')" "t_revokedAt sampleToken = None"
    "int (clock (sampleWorld\<lparr>tokens := [sampleToken]\<rparr>)) < t_expiresAt sampleToken"
    using sample_token_inv [of None] by (simp_all add: sampleToken_def)
  from refresh_rotates [OF this(1,2) sample_fresh(1) this(3-6)] show ?thesis
    by (auto simp: sampleToken_def)
qed

theorem refresh_reuse_revokes_chain_witness:
  "fst (run (refresh sampleApp (lit ''T'')) (sampleWorld\<lparr>tokens := [sampleToken\<lparr>t_revokedAt := Some 3\<rparr>]\<rparr>))
     = Inl (unauthorized ''Refresh token already used.'')"
proof -
  let ?w = "sampleWorld\<lparr>tokens := [sampleToken\<lparr>t_revokedAt := Some 3\<rparr>]\<rparr>"
  have "faults ?w = []" "sampleToken\<lparr>t_revokedAt := Some 3\<rparr> \<in> set (tokens ?w)"
    "t_tokenHash (sampleToken\<lparr>t_revokedAt := Some 3\<rparr>) = hashRefreshToken sampleApp (lit ''T'')"
    "t_revokedAt (sampleToken\<lparr>t_revokedAt := Some 3\<rparr>) \<noteq> None"
    by (simp_all add: sampleToken_def)
  from refresh_reuse_revokes_chain [OF this(1) sample_token_inv this(2-4)] show ?thesis by auto
qed

theorem concurrent_refresh_both_succeed_witness:
  "\<exists>r1 r2 w'. overtaken (refresh sampleApp (lit ''T'')) (refresh sampleApp (lit ''T''))
     (sampleWorld\<lparr>tokens := [sampleToken]\<rparr>) = (Inr r1, Inr r2, w')"
proof -
  let ?w = "sampleWorld\<lparr>tokens := [sampleToken]\<rparr>"
  have "faults ?w = []" "inv sampleApp ?w" "sampleToken \<in> set (tokens ?w)"
    "t_tokenHash sampleToken = hashRefreshToken sampleApp (lit ''T'')" "t_revokedAt sampleToken = None"
    "int (clock ?w) < t_expiresAt sampleToken" "t_userId sampleToken = lit ''u1''"
    using sample_token_inv [of None] by (simp_all add: sampleToken_def)
  from concurrent_refresh_both_succeed [OF this(1,2) sample_fresh(1) _ this(3-6)] sample_fresh(2) this(7)
  show ?thesis by auto
qed

section \<open>The production verifier\<close>

text \<open>
  C33. The production verifier accepts an identity token exactly when Apple's signature check returns claims
  with a non-empty subject and the caller's nonce is present and equals the claimed nonce, raw or hashed; the
  identity is then the claimed subject. Nothing is written in either case.
\<close>

theorem real_verifier_exact:
  "snd (run (realVerify A t n) w) = w
   \<and> (fst (run (realVerify A t n) w) = Inr identity \<longleftrightarrow>
       (\<exists>claims sub nonce. appleJwtVerify A APPLE_ISSUER (clientId (apple (cfg A))) (clock w) t = Some claims
         \<and> strClaim claims ''sub'' = Some sub \<and> sub \<noteq> [] \<and> n = Some nonce \<and> nonce \<noteq> []
         \<and> strClaim claims ''nonce'' \<in> {Some nonce, Some (sha256Hex A nonce)}
         \<and> identity = \<lparr>ai_sub = sub, ai_email = strClaim claims ''email'',
              ai_emailVerified = trueClaim claims ''email_verified'',
              ai_isPrivateEmail = trueClaim claims ''is_private_email''\<rparr>))"
proof (intro conjI)
  show "snd (run (realVerify A t n) w) = w" by (rule real.verify_pure)
  show "fst (run (realVerify A t n) w) = Inr identity \<longleftrightarrow>
       (\<exists>claims sub nonce. appleJwtVerify A APPLE_ISSUER (clientId (apple (cfg A))) (clock w) t = Some claims
         \<and> strClaim claims ''sub'' = Some sub \<and> sub \<noteq> [] \<and> n = Some nonce \<and> nonce \<noteq> []
         \<and> strClaim claims ''nonce'' \<in> {Some nonce, Some (sha256Hex A nonce)}
         \<and> identity = \<lparr>ai_sub = sub, ai_email = strClaim claims ''email'',
              ai_emailVerified = trueClaim claims ''email_verified'',
              ai_isPrivateEmail = trueClaim claims ''is_private_email''\<rparr>)"
    by (auto simp: realVerify_def Let_def truthy_opt_def split: option.splits)
qed

section \<open>One account per subject\<close>

lemma run_upsert_known:
  assumes "faults w = []" and "users_inv (users w)" and "u \<in> set (users w)" and "u_appleSub u = sub"
  shows "\<exists>u'. run (upsertByApple A sub email) w =
      (Inr u', w\<lparr>users := upd (\<lambda>v. u_appleSub v = sub) (\<lambda>_. u') (users w)\<rparr>)
    \<and> u_id u' = u_id u \<and> u_appleSub u' = sub"
proof -
  have "find (\<lambda>u. u_appleSub u = sub) (users w) = Some u"
    using assms by (intro find_distinct [where k = u_appleSub]) (auto simp: users_inv_def)
  with assms show ?thesis by (auto simp: upsertByApple_def run_remote Let_def)
qed

lemma run_issueTokenPair:
  assumes "faults w = []" and "fresh_token A w" and "u \<in> u_id ` set (users w)"
  shows "run (issueTokenPair A u s) w = (Inr (tokenResponse A
      (signJwt A (accessSecret (jwt (cfg A))) (accessClaims A u s (clock w div 1000))) (randomToken A (entropy w)) u),
    w\<lparr>entropy := Suc (Suc (entropy w)), tokens := tokens w @ [newToken A w u]\<rparr>)"
  using assms by (simp add: issueTokenPair_def run_remote createToken_def fresh_token_def Let_def newToken_def)

text \<open>
  Signing in again with the same Apple subject reaches the same account: when the verifier accepts
  and a user with that subject exists, the session returned is that user's, no user is added, and a live
  refresh token of that user is stored.
\<close>

theorem sign_in_same_account:
  assumes "faults w = []" and "inv A w" and "fresh_token A w"
    and "fst (run (appleVerifier A t n) w) = Inr identity"
    and "user \<in> set (users w)" and "u_appleSub user = ai_sub identity"
  shows "\<exists>r w'. run (signInWithApple A t n e) w = (Inr r, w') \<and> tr_userId r = u_id user
    \<and> map u_id (users w') = map u_id (users w) \<and> tokens w' = tokens w @ [newToken A w (u_id user)]
    \<and> t_tokenHash (newToken A w (u_id user)) = hashRefreshToken A (tr_refreshToken r)"
proof -
  have v: "run (appleVerifier A t n) w = (Inr identity, w)"
    using assms(4) apple.verify_pure [of A t n w] by (metis prod.collapse)
  have ui: "users_inv (users w)" using assms(2) by (simp add: inv_def)
  define email where "email = (case ai_email identity of Some x \<Rightarrow> Some x | None \<Rightarrow> e)"
  obtain u' where u': "run (upsertByApple A (ai_sub identity) email) w =
      (Inr u', w\<lparr>users := upd (\<lambda>v. u_appleSub v = ai_sub identity) (\<lambda>_. u') (users w)\<rparr>)"
    "u_id u' = u_id user" "u_appleSub u' = ai_sub identity"
    using run_upsert_known [OF assms(1) ui assms(5,6)] by blast
  let ?us = "upd (\<lambda>v. u_appleSub v = ai_sub identity) (\<lambda>_. u') (users w)"
  have only: "x = user" if "x \<in> set (users w)" "u_appleSub x = ai_sub identity" for x
    using that assms(5,6) ui by (auto simp: users_inv_def distinct_map inj_on_def)
  have ids: "map u_id ?us = map u_id (users w)"
    by (rule map_upd_set, drule (1) only, simp add: u'(2))
  have "u' \<in> set ?us" using assms(5,6) by (auto simp: in_set_upd)
  from imageI [OF this, of u_id] u'(2) have "u_id user \<in> u_id ` set ?us" by simp
  moreover have "fresh_token A (w\<lparr>users := ?us\<rparr>)" using assms(3) by (simp add: fresh_token_def)
  ultimately have "run (issueTokenPair A (u_id user) (ai_sub identity)) (w\<lparr>users := ?us\<rparr>) =
      (Inr (tokenResponse A (signJwt A (accessSecret (jwt (cfg A)))
          (accessClaims A (u_id user) (ai_sub identity) (clock w div 1000))) (randomToken A (entropy w)) (u_id user)),
       w\<lparr>users := ?us, entropy := Suc (Suc (entropy w)), tokens := tokens w @ [newToken A w (u_id user)]\<rparr>)"
    using run_issueTokenPair [of "w\<lparr>users := ?us\<rparr>"] assms(1) by (simp add: newToken_def)
  with v u' show ?thesis
    by (simp add: signInWithApple_def signInWith_def email_def [symmetric] ids)
      (simp add: tokenResponse_def)
qed

theorem sign_in_same_account_witness:
  "\<exists>r w'. run (signInWithApple sampleApp (lit ''apple'') (Some (lit ''n'')) None) sampleWorld = (Inr r, w')
     \<and> tr_userId r = lit ''u1''"
proof -
  let ?id = "\<lparr>ai_sub = lit ''s1'', ai_email = None, ai_emailVerified = False, ai_isPrivateEmail = False\<rparr>"
  let ?u = "\<lparr>u_id = lit ''u1'', u_appleSub = lit ''s1'', u_email = None, u_createdAt = 0, u_updatedAt = 0\<rparr>"
  have "fst (run (appleVerifier sampleApp (lit ''apple'') (Some (lit ''n''))) sampleWorld) = Inr ?id"
    by (simp add: appleVerifier_def realVerify_def sampleApp_def sampleConfig_def strClaim_def claim_def
        trueClaim_def truthy_opt_def Let_def)
  moreover have "fresh_token sampleApp sampleWorld" by (simp add: fresh_token_def)
  moreover have "?u \<in> set (users sampleWorld)" by (simp add: sampleWorld_def)
  ultimately show ?thesis
    using sign_in_same_account [of sampleWorld sampleApp "lit ''apple''" "Some (lit ''n'')" ?id ?u None] by auto
qed

section \<open>The guard\<close>

lemma extractToken_bearer:
  assumes "js_lower scheme = lit ''bearer''" and "32 \<notin> set tok" and "tok \<noteq> []"
  shows "extractToken (Some (scheme @ 32 # tok)) = Some tok"
proof -
  have "32 \<notin> set (lit ''bearer'')" by (simp add: lit_unfold)
  then have "32 \<notin> js_lower_char ` set scheme" using assms(1) by (metis js_lower_def set_map)
  moreover have "js_lower_char 32 = 32" by (simp add: js_lower_char_def)
  ultimately have "32 \<notin> set scheme" by (metis imageI)
  with assms show ?thesis
    by (simp add: extractToken_def js_split_append js_split_notin)
qed

text \<open>
  C34. A session is its user's, and as long as configured: under the documented behaviour of the JWT library, the access
  token issued for a user, sent as a bearer token, makes the guard admit the request as exactly that user until the
  configured lifetime has passed (in whole seconds), and is refused with 401 from then on. Nothing is written.
\<close>

theorem issued_token_admitted:
  assumes "joseHS256 A"
  shows "\<exists>access. run (issueAccessToken A u sub) w = (Inr access, w)
    \<and> run (canActivate A (Some (lit ''Bearer '' @ access))) v =
      (if int (clock v div 1000) < int (clock w div 1000) + accessTtl (jwt (cfg A))
       then Inr \<lparr>au_userId = u, au_appleSub = sub\<rparr>
       else Inl (HttpException Unauthorized (lit ''Invalid or expired access token.'')), v)"
proof -
  let ?c = "accessClaims A u sub (clock w div 1000)"
  let ?tok = "signJwt A (accessSecret (jwt (cfg A))) ?c"
  let ?e = "int (clock w div 1000) + accessTtl (jwt (cfg A))"
  have keys: "distinct (map fst ?c)" "claim ?c ''nbf'' = None" "claim ?c ''exp'' = Some (JNum (js_of_int ?e))"
    "claim ?c ''iss'' = Some (JStr (appBaseUrl (cfg A)))" "claim ?c ''aud'' = Some (JStr JWT_AUDIENCE)"
    "claim ?c ''type'' = Some (JStr (lit ''access''))" "strClaim ?c ''sub'' = Some u" "strClaim ?c ''appleSub'' = Some sub"
    by (simp_all add: claim_def strClaim_def accessClaims_def)
  moreover have "\<forall>(k, x) \<in> set ?c. flat x" by (simp add: accessClaims_def)
  ultimately have law: "jwtVerify A (accessSecret (jwt (cfg A))) (appBaseUrl (cfg A)) JWT_AUDIENCE (clock v) ?tok =
      (if int (clock v div 1000) < ?e then Some ?c else None)" "?tok \<noteq> []" "32 \<notin> set ?tok"
    using assms unfolding joseHS256_def by auto
  have "lit ''Bearer '' @ ?tok = lit ''Bearer'' @ 32 # ?tok" by (simp add: lit_unfold)
  moreover have "js_lower (lit ''Bearer'') = lit ''bearer''"
    by (simp add: lit_unfold js_lower_def js_lower_char_def)
  ultimately have "extractToken (Some (lit ''Bearer '' @ ?tok)) = Some ?tok"
    using law(2,3) extractToken_bearer [of "lit ''Bearer''" ?tok] by simp
  with law(1) keys show ?thesis by (simp add: canActivate_def unauthorized_def)
qed

theorem issued_token_admitted_witness:
  "\<exists>access. run (issueAccessToken sampleJose (lit ''u1'') (lit ''s1'')) emptyWorld = (Inr access, emptyWorld)
    \<and> fst (run (canActivate sampleJose (Some (lit ''Bearer '' @ access))) (emptyWorld\<lparr>clock := 899999\<rparr>))
      = Inr \<lparr>au_userId = lit ''u1'', au_appleSub = lit ''s1''\<rparr>"
  using issued_token_admitted [OF joseHS256_sample, of "lit ''u1''" "lit ''s1''" emptyWorld "emptyWorld\<lparr>clock := 899999\<rparr>"]
  by (auto simp: sampleJose_def sampleApp_def sampleConfig_def emptyWorld_def)

text \<open>
  C12. The guard admits a request only with a bearer token that the library verifies against the server's
  secret, issuer and audience, of type access, and the identity is the subject of the verified claims; without a
  bearer token, or when verification fails, the answer is 401. It never writes.
\<close>

theorem guard_admits_only_verified:
  "snd (run (canActivate A header) w) = w
   \<and> (\<forall>user. fst (run (canActivate A header) w) = Inr user \<longrightarrow>
       (\<exists>tok claims. extractToken header = Some tok
         \<and> jwtVerify A (accessSecret (jwt (cfg A))) (appBaseUrl (cfg A)) JWT_AUDIENCE (clock w) tok = Some claims
         \<and> claim claims ''type'' = Some (JStr (lit ''access'')) \<and> strClaim claims ''sub'' = Some (au_userId user)))
   \<and> (\<forall>e. fst (run (canActivate A header) w) = Inl e \<longrightarrow> (\<exists>m. e = HttpException Unauthorized m))"
  by (auto simp: canActivate_def unauthorized_def split: option.splits)

theorem guard_admits_only_verified_witness:
  "fst (run (canActivate sampleApp None) emptyWorld) = Inl (unauthorized ''Missing bearer token.'')
   \<and> (\<exists>m. unauthorized ''Missing bearer token.'' = HttpException Unauthorized m)"
proof -
  have "fst (run (canActivate sampleApp None) emptyWorld) = Inl (unauthorized ''Missing bearer token.'')"
    by (simp add: canActivate_def extractToken_def)
  with guard_admits_only_verified [of sampleApp None emptyWorld] show ?thesis by blast
qed

end
