(* ===== verification/Compiler.thy ===== *)
theory Compiler
  imports Safety
begin

text \<open>
  Report compilation, \<^verbatim>\<open>server/src/processing/compiler\<close>: the zod schema every model output must pass
  (with the issues it reports), the prompts, the mock and DeepSeek providers and their selection, and the
  service with its single retry and its normalization. The chat-completion API, \<^verbatim>\<open>JSON.parse\<close> and the wording of
  zod's messages are parameters.
\<close>

section \<open>The schema\<close>

type_synonym zissue = "js list \<times> zod_issue_code"

text \<open>The type zod reports for a value; an absent key is \<^verbatim>\<open>undefined\<close>.\<close>

fun typeName :: "json option \<Rightarrow> js" where
  "typeName None = lit ''undefined''"
| "typeName (Some JNull) = lit ''null''"
| "typeName (Some (JBool b)) = lit ''boolean''"
| "typeName (Some (JNum n)) = lit ''number''"
| "typeName (Some (JStr s)) = lit ''string''"
| "typeName (Some (JArr xs)) = lit ''array''"
| "typeName (Some (JObj kvs)) = lit ''object''"

definition invalidType :: "js list \<Rightarrow> js \<Rightarrow> json option \<Rightarrow> zissue list" where
  "invalidType path expected v = [(path, ZInvalidType expected (typeName v))]"

text \<open>\<^verbatim>\<open>z.string().trim().min(1).max(n)\<close>\<close>

fun zTrimmed :: "nat \<Rightarrow> js list \<Rightarrow> json option \<Rightarrow> zissue list \<times> js" where
  "zTrimmed n path (Some (JStr s)) =
     (let t = js_trim s in
      ((if length t < 1 then [(path, ZTooSmall 1)] else [])
       @ (if length t > n then [(path, ZTooBigString n)] else []), t))"
| "zTrimmed n path v = (invalidType path (lit ''string'') v, [])"

definition severityNames :: js where
  "severityNames = js_join (lit '' | '') (map (\<lambda>v. [39] @ apiSeverity_js v @ [39]) API_SEVERITIES)"

fun zSeverity :: "js list \<Rightarrow> json option \<Rightarrow> zissue list \<times> ApiSeverity" where
  "zSeverity path (Some (JStr s)) =
     (case apiSeverity_of s of Some v \<Rightarrow> ([], v) | None \<Rightarrow> ([(path, ZInvalidEnum s)], Info))"
| "zSeverity path v = (invalidType path severityNames v, Info)"

record CompiledFinding =
  cf_text :: js
  cf_severity :: ApiSeverity

record CompiledSection =
  cs_title :: js
  cs_findings :: "CompiledFinding list"

fun compiledFindingSchema :: "js list \<Rightarrow> json \<Rightarrow> zissue list \<times> CompiledFinding" where
  "compiledFindingSchema path (JObj kvs) =
     (let t = zTrimmed 2000 (path @ [lit ''text'']) (map_of kvs (lit ''text''));
          s = zSeverity (path @ [lit ''severity'']) (map_of kvs (lit ''severity'')) in
      (fst t @ fst s, \<lparr>cf_text = snd t, cf_severity = snd s\<rparr>))"
| "compiledFindingSchema path v =
     (invalidType path (lit ''object'') (Some v), \<lparr>cf_text = [], cf_severity = Info\<rparr>)"

text \<open>\<^verbatim>\<open>z.array(item).max(n)\<close>: the length issue first, then those of the items by index.\<close>

fun zItems :: "(js list \<Rightarrow> json \<Rightarrow> zissue list \<times> 'a) \<Rightarrow> js list \<Rightarrow> nat \<Rightarrow> json list \<Rightarrow> zissue list \<times> 'a list" where
  "zItems item path i [] = ([], [])"
| "zItems item path i (x # xs) =
     (let y = item (path @ [js_of_nat i]) x; ys = zItems item path (Suc i) xs in
      (fst y @ fst ys, snd y # snd ys))"

fun zArray :: "(js list \<Rightarrow> json \<Rightarrow> zissue list \<times> 'a) \<Rightarrow> nat \<Rightarrow> js list \<Rightarrow> json option \<Rightarrow> zissue list \<times> 'a list" where
  "zArray item n path (Some (JArr xs)) =
     (let ys = zItems item path 0 xs in
      ((if length xs > n then [(path, ZTooBigArray n)] else []) @ fst ys, snd ys))"
| "zArray item n path v = (invalidType path (lit ''array'') v, [])"

fun compiledSectionSchema :: "js list \<Rightarrow> json \<Rightarrow> zissue list \<times> CompiledSection" where
  "compiledSectionSchema path (JObj kvs) =
     (let t = zTrimmed 200 (path @ [lit ''title'']) (map_of kvs (lit ''title''));
          fs = zArray compiledFindingSchema 200 (path @ [lit ''findings'']) (map_of kvs (lit ''findings'')) in
      (fst t @ fst fs, \<lparr>cs_title = snd t, cs_findings = snd fs\<rparr>))"
| "compiledSectionSchema path v =
     (invalidType path (lit ''object'') (Some v), \<lparr>cs_title = [], cs_findings = []\<rparr>)"

fun compiledReportSchema :: "json \<Rightarrow> zissue list \<times> CompiledSection list" where
  "compiledReportSchema (JObj kvs) =
     zArray compiledSectionSchema 100 [lit ''sections''] (map_of kvs (lit ''sections''))"
| "compiledReportSchema v = (invalidType [] (lit ''object'') (Some v), [])"

definition formatIssue :: "app \<Rightarrow> zissue \<Rightarrow> js" where
  "formatIssue A i =
     (let path = js_join (lit ''.'') (fst i) in
      lit ''- '' @ (if truthy path then path else lit ''(root)'') @ lit '': '' @ zodMessageOf A (snd i))"

definition formatIssues :: "app \<Rightarrow> zissue list \<Rightarrow> js" where
  "formatIssues A issues = js_join nl (map (formatIssue A) (take 12 issues))"

section \<open>Prompts\<close>

definition REPORT_SYSTEM_PROMPT :: js where
  "REPORT_SYSTEM_PROMPT = js_join nl [
    lit ''You are a report compiler for professional home inspectors. You convert a raw,'',
    lit ''spoken inspection walkthrough transcript into a clean, structured inspection report.'',
    [],
    lit ''ABSOLUTE RULES '' @ [0x2014] @ lit '' these override everything else:'',
    lit ''1. Never invent, infer, or embellish findings. Every finding MUST be grounded in'',
    lit ''   something the inspector actually said in the transcript. If it was not said, it'',
    lit ''   does not go in the report.'',
    lit ''2. Do not add boilerplate, recommendations, code citations, or standard disclaimers'',
    lit ''   that the inspector did not speak.'',
    lit ''3. Group findings under clear, conventional section headings (e.g. Roof, Exterior,'',
    lit ''   Electrical, Plumbing, HVAC, Kitchen, Bathrooms, Attic, Basement, Foundation,'',
    lit ''   Interior). Use only the sections the transcript actually covers; omit empty ones.'',
    lit ''4. Each finding is ONE discrete observation with exactly ONE severity:'',
    lit ''   - info: a neutral observation or something in good/serviceable condition.'',
    lit ''   - maintenance: routine upkeep, cleaning, or servicing recommended.'',
    lit ''   - repair: a defect that needs correction but is not an immediate hazard.'',
    lit ''   - safety: a condition that poses a hazard to occupants and needs prompt attention.'',
    lit ''5. Paraphrase concisely and professionally; preserve the inspector's meaning and any'',
    lit ''   specifics they gave (locations, ages, measurements). Do not contradict the transcript.'',
    lit ''6. Order sections in a logical inspection sequence (exterior '' @ [0x2192] @ lit '' systems '' @ [0x2192] @ lit '' interior) and'',
    lit ''   order findings within a section by severity, most severe first.'',
    [],
    lit ''Return the report ONLY by calling the provided tool. Do not write prose.'']"

definition dquote3 :: js where
  "dquote3 = [34, 34, 34]"

definition buildReportUserPrompt :: "js \<Rightarrow> js \<Rightarrow> js" where
  "buildReportUserPrompt label transcript =
     (let property = (if length (js_trim label) > 0 then js_trim label else lit ''the inspected property'') in
      js_join nl [
        lit ''Property / job label: '' @ property,
        [],
        lit ''Inspection walkthrough transcript:'',
        dquote3,
        js_trim transcript,
        dquote3,
        [],
        lit ''Compile this transcript into a structured inspection report by calling the'',
        lit ''emit_inspection_report tool. Remember: include only what was actually said.''])"

definition buildRepairHint :: "js \<Rightarrow> js" where
  "buildRepairHint issues = js_join nl [
     lit ''Your previous tool call did not match the required schema and was rejected.'',
     lit ''Problems found:'',
     issues,
     [],
     lit ''Call the emit_inspection_report tool again with valid input. Every finding must'',
     lit ''have non-empty text and a severity of exactly one of: info, maintenance, repair, safety.'']"

section \<open>The tool\<close>

text \<open>\<^verbatim>\<open>reportToolInputSchema\<close> of \<^verbatim>\<open>report.schema.ts\<close>, as the JSON value it is.\<close>

definition quoted :: "string \<Rightarrow> js" where
  "quoted s = [34] @ lit s @ [34]"

definition toolText :: "string \<Rightarrow> json" where
  "toolText s = JStr (lit s)"

definition textTool :: json where
  "textTool = JObj [
     (lit ''type'', toolText ''string''),
     (lit ''description'', toolText ''One observation, faithfully paraphrased from the transcript. Never invent details.'')]"

definition severityTool :: json where
  "severityTool = JObj [
     (lit ''type'', toolText ''string''),
     (lit ''enum'', JArr (map (\<lambda>v. JStr (apiSeverity_js v)) API_SEVERITIES)),
     (lit ''description'', toolText ''info = neutral observation; maintenance = upkeep/cleaning; repair = needs fixing; safety = hazard to occupants.'')]"

definition findingTool :: json where
  "findingTool = JObj [
     (lit ''type'', toolText ''object''),
     (lit ''additionalProperties'', JBool False),
     (lit ''properties'', JObj [(lit ''text'', textTool), (lit ''severity'', severityTool)]),
     (lit ''required'', JArr [toolText ''text'', toolText ''severity''])]"

definition titleTool :: json where
  "titleTool = JObj [
     (lit ''type'', toolText ''string''),
     (lit ''description'', JStr (lit ''Short section heading, e.g. '' @ quoted ''Roof'' @ lit '', '' @ quoted ''Electrical''
        @ lit '', '' @ quoted ''Plumbing'' @ lit ''.''))]"

definition findingsTool :: json where
  "findingsTool = JObj [
     (lit ''type'', toolText ''array''),
     (lit ''description'', toolText ''Distinct observations stated in the transcript for this section.''),
     (lit ''items'', findingTool)]"

definition sectionTool :: json where
  "sectionTool = JObj [
     (lit ''type'', toolText ''object''),
     (lit ''additionalProperties'', JBool False),
     (lit ''properties'', JObj [(lit ''title'', titleTool), (lit ''findings'', findingsTool)]),
     (lit ''required'', JArr [toolText ''title'', toolText ''findings''])]"

definition sectionsTool :: json where
  "sectionsTool = JObj [
     (lit ''type'', toolText ''array''),
     (lit ''description'', toolText ''Inspection sections, in the order they should appear in the report. Omit any section with no findings.''),
     (lit ''items'', sectionTool)]"

definition reportToolInputSchema :: json where
  "reportToolInputSchema = JObj [
     (lit ''type'', toolText ''object''),
     (lit ''additionalProperties'', JBool False),
     (lit ''properties'', JObj [(lit ''sections'', sectionsTool)]),
     (lit ''required'', JArr [toolText ''sections''])]"

section \<open>Providers\<close>

record CompileInput =
  ci_label :: js
  ci_transcript :: js

text \<open>A call of an outside model; its number distinguishes the answers.\<close>

definition modelCall :: "nat io" where
  "modelCall = call (\<lambda>w. (Inr (modelCalls w), w\<lparr>modelCalls := Suc (modelCalls w)\<rparr>))"

definition REPORT_TOOL_NAME :: js where
  "REPORT_TOOL_NAME = lit ''emit_inspection_report''"

definition REPORT_TOOL :: chat_tool where
  "REPORT_TOOL = \<lparr>ct_name = REPORT_TOOL_NAME,
     ct_description = lit ''Emit the structured inspection report compiled from the transcript.'',
     ct_parameters = reportToolInputSchema\<rparr>"

text \<open>The raw arguments of the forced tool call in the first choice; empty when there is none.\<close>

definition rawArguments :: "chat_choice list \<Rightarrow> js" where
  "rawArguments choices =
     (case choices of
        [] \<Rightarrow> []
      | c # _ \<Rightarrow>
          (case cc_toolCalls c of
             None \<Rightarrow> []
           | Some calls \<Rightarrow>
               (case find (\<lambda>t. tc_name t = REPORT_TOOL_NAME) calls of
                  None \<Rightarrow> []
                | Some t \<Rightarrow> tc_arguments t)))"

definition deepseekCompile :: "app \<Rightarrow> CompileInput \<Rightarrow> js option \<Rightarrow> json io" where
  "deepseekCompile A input repairHint =
     (let prompt = buildReportUserPrompt (ci_label input) (ci_transcript input);
          userText = (if truthy_opt repairHint then prompt @ nl @ nl @ the repairHint else prompt) in
      bindP modelCall (\<lambda>n.
        case chatCompletion A n \<lparr>ch_model = reportModel (ai (cfg A)), ch_maxTokens = 4096, ch_temperature = 0,
               ch_system = REPORT_SYSTEM_PROMPT, ch_user = userText, ch_tools = [REPORT_TOOL],
               ch_toolChoice = REPORT_TOOL_NAME\<rparr> of
          Inl m \<Rightarrow> Throw (PlainError m)
        | Inr choices \<Rightarrow>
            (let raw = rawArguments choices in
             if \<not> truthy raw then Throw (PlainError (lit ''Report compiler did not return a tool call''))
             else (case jsonParse A raw of
                     Some v \<Rightarrow> Ret v
                   | None \<Rightarrow> Throw (PlainError (lit ''Report compiler returned non-JSON tool arguments''))))))"

definition mockFinding :: "js \<Rightarrow> js \<Rightarrow> json" where
  "mockFinding text severity = JObj [(lit ''text'', JStr text), (lit ''severity'', JStr severity)]"

definition mockSection :: "js \<Rightarrow> json list \<Rightarrow> json" where
  "mockSection title fs = JObj [(lit ''title'', JStr title), (lit ''findings'', JArr fs)]"

definition mockReport :: json where
  "mockReport = JObj [(lit ''sections'', JArr [
    mockSection (lit ''Roof'') [mockFinding (lit ''Two shingles are lifted near the ridge; recommend repair before next winter.'') (lit ''repair''),
      mockFinding (lit ''Asphalt shingle roof is approximately 15 years old with granule loss on the south-facing slope.'') (lit ''maintenance'')],
    mockSection (lit ''Gutters & Drainage'') [mockFinding (lit ''Downspout at the northeast corner is disconnected, draining water against the foundation. Reattach the downspout.'') (lit ''repair''),
      mockFinding (lit ''Gutters are full of debris and should be cleaned.'') (lit ''maintenance'')],
    mockSection (lit ''Exterior'') [mockFinding (lit ''Vinyl siding is in good condition overall, with minor fading on the west wall. No structural concerns.'') (lit ''info'')],
    mockSection (lit ''Electrical'') [mockFinding (lit ''Double-tapped breaker on circuit twelve. Should be corrected by a licensed electrician.'') (lit ''safety''),
      mockFinding (lit ''200 amp panel in the garage appears modern.'') (lit ''info'')],
    mockSection (lit ''Plumbing'') [mockFinding (lit ''Water heater relief valve has no TPR discharge pipe installed. A proper discharge line is required.'') (lit ''safety''),
      mockFinding (lit ''Active leak at the P-trap under the kitchen sink should be repaired.'') (lit ''repair''),
      mockFinding (lit ''Forty gallon gas water heater manufactured in 2016.'') (lit ''info'')],
    mockSection (lit ''Kitchen'') [mockFinding (lit ''GFCI outlets near the sink test and trip correctly; dishwasher runs without issue.'') (lit ''info'')],
    mockSection (lit ''Bathrooms'') [mockFinding (lit ''Upstairs bathroom exhaust fan vents into the attic instead of outside; reroute to an exterior vent to prevent moisture problems.'') (lit ''repair'')],
    mockSection (lit ''Attic'') [mockFinding (lit ''Daylight visible at the plumbing vent roof penetration; minor air sealing recommended.'') (lit ''maintenance''),
      mockFinding (lit ''Blown-in fiberglass insulation is adequate with no signs of pest activity.'') (lit ''info'')],
    mockSection (lit ''Basement & HVAC'') [mockFinding (lit ''Basement is dry with no efflorescence; sump pump tested functional.'') (lit ''info''),
      mockFinding (lit ''High-efficiency furnace was serviced this year per the service tag.'') (lit ''info'')]])]"

definition mockCompile :: "CompileInput \<Rightarrow> js option \<Rightarrow> json io" where
  "mockCompile input repairHint = Ret mockReport"

text \<open>The binding of \<^verbatim>\<open>compiler.module.ts\<close>.\<close>

definition compilerProvider :: "app \<Rightarrow> CompileInput \<Rightarrow> js option \<Rightarrow> json io" where
  "compilerProvider A = (if useMock (ai (cfg A)) then mockCompile else deepseekCompile A)"

section \<open>The service\<close>

definition normalizeFinding :: "CompiledFinding \<Rightarrow> ReportFindingInput" where
  "normalizeFinding f = \<lparr>rf_text = js_trim (cf_text f), rf_severity = severityFromApi (cf_severity f)\<rparr>"

definition normalize :: "CompiledSection list \<Rightarrow> ReportSectionInput list" where
  "normalize secs =
     filter (\<lambda>s. length (rs_title s) > 0 \<and> length (rs_findings s) > 0)
       (map (\<lambda>s. \<lparr>rs_title = js_trim (cs_title s),
                  rs_findings = sort_key (SEVERITY_RANK \<circ> rf_severity)
                    (filter (\<lambda>f. length (rf_text f) > 0) (map normalizeFinding (cs_findings s)))\<rparr>) secs)"

definition compileWith ::
    "(CompileInput \<Rightarrow> js option \<Rightarrow> json io) \<Rightarrow> app \<Rightarrow> CompileInput \<Rightarrow> ReportSectionInput list io" where
  "compileWith provider A input =
     bindP (provider input None) (\<lambda>first.
       let p1 = compiledReportSchema first in
       if fst p1 = [] then Ret (normalize (snd p1))
       else
         (let hint = buildRepairHint (formatIssues A (fst p1)) in
          bindP (provider input (Some hint)) (\<lambda>second.
            let p2 = compiledReportSchema second in
            if fst p2 = [] then Ret (normalize (snd p2))
            else Throw (MalformedReportError (formatIssues A (fst p2))))))"

definition compile :: "app \<Rightarrow> CompileInput \<Rightarrow> ReportSectionInput list io" where
  "compile A = compileWith (compilerProvider A) A"

section \<open>What the schema accepts\<close>

definition boundedText :: "nat \<Rightarrow> js \<Rightarrow> bool" where
  "boundedText n t \<longleftrightarrow> js_trim t = t \<and> 1 \<le> length t \<and> length t \<le> n"

definition validFinding :: "CompiledFinding \<Rightarrow> bool" where
  "validFinding f \<longleftrightarrow> boundedText 2000 (cf_text f)"

definition validSection :: "CompiledSection \<Rightarrow> bool" where
  "validSection s \<longleftrightarrow> boundedText 200 (cs_title s) \<and> length (cs_findings s) \<le> 200
     \<and> list_all validFinding (cs_findings s)"

definition validReport :: "CompiledSection list \<Rightarrow> bool" where
  "validReport ss \<longleftrightarrow> length ss \<le> 100 \<and> list_all validSection ss"

lemma zTrimmed_valid: "fst (zTrimmed n path v) = [] \<Longrightarrow> boundedText n (snd (zTrimmed n path v))"
  by (induction n path v rule: zTrimmed.induct)
    (auto simp: Let_def invalidType_def boundedText_def not_less Suc_le_eq split: if_splits)

lemma compiledFinding_valid:
  "fst (compiledFindingSchema path v) = [] \<Longrightarrow> validFinding (snd (compiledFindingSchema path v))"
  by (induction path v rule: compiledFindingSchema.induct)
    (auto simp: Let_def invalidType_def validFinding_def zTrimmed_valid)

text \<open>A parser is sound for \<open>P\<close> if what it returns without an issue satisfies \<open>P\<close>.\<close>

definition soundFor :: "('p \<Rightarrow> json \<Rightarrow> zissue list \<times> 'a) \<Rightarrow> ('a \<Rightarrow> bool) \<Rightarrow> bool" where
  "soundFor item P \<longleftrightarrow> (\<forall>path v. fst (item path v) = [] \<longrightarrow> P (snd (item path v)))"

lemma compiledFinding_sound: "soundFor compiledFindingSchema validFinding"
  using compiledFinding_valid by (simp add: soundFor_def)

lemma zItems_valid:
  assumes "soundFor item P" and "fst (zItems item path i xs) = []"
  shows "list_all P (snd (zItems item path i xs)) \<and> length (snd (zItems item path i xs)) = length xs"
  using assms by (induction xs arbitrary: i) (auto simp: Let_def soundFor_def)

lemma zArray_valid:
  assumes "soundFor item P" and "fst (zArray item n path v) = []"
  shows "list_all P (snd (zArray item n path v)) \<and> length (snd (zArray item n path v)) \<le> n"
proof (cases "\<exists>xs. v = Some (JArr xs)")
  case True
  then obtain xs where v: "v = Some (JArr xs)" by blast
  with assms(2) have "fst (zItems item path 0 xs) = []" "length xs \<le> n"
    by (auto simp: Let_def not_less split: if_splits)
  with zItems_valid [OF assms(1), of path 0 xs] v show ?thesis by (simp add: Let_def)
next
  case False
  with assms(2) show ?thesis
    by (cases "(item, n, path, v)" rule: zArray.cases) (auto simp: invalidType_def)
qed

lemma compiledSection_valid:
  "fst (compiledSectionSchema path v) = [] \<Longrightarrow> validSection (snd (compiledSectionSchema path v))"
proof (induction path v rule: compiledSectionSchema.induct)
  case (1 path kvs)
  let ?t = "zTrimmed 200 (path @ [lit ''title'']) (map_of kvs (lit ''title''))"
  let ?f = "zArray compiledFindingSchema 200 (path @ [lit ''findings'']) (map_of kvs (lit ''findings''))"
  from 1 have "fst ?t = []" "fst ?f = []" by (simp_all add: Let_def)
  from zTrimmed_valid [OF this(1)] zArray_valid [OF compiledFinding_sound this(2)]
  show ?case by (simp add: Let_def validSection_def)
qed (simp_all add: invalidType_def)

lemma compiledSection_sound: "soundFor compiledSectionSchema validSection"
  using compiledSection_valid by (simp add: soundFor_def)

lemma compiledReport_valid:
  "fst (compiledReportSchema v) = [] \<Longrightarrow> validReport (snd (compiledReportSchema v))"
proof (induction v rule: compiledReportSchema.induct)
  case (1 kvs)
  then show ?case
    using zArray_valid [OF compiledSection_sound, of 100 "[lit ''sections'']" "map_of kvs (lit ''sections'')"]
    by (simp add: validReport_def)
qed (simp_all add: invalidType_def)

text \<open>A report written as the tool arguments.\<close>

definition encodeFinding :: "CompiledFinding \<Rightarrow> json" where
  "encodeFinding f = mockFinding (cf_text f) (apiSeverity_js (cf_severity f))"

definition encodeSection :: "CompiledSection \<Rightarrow> json" where
  "encodeSection s = mockSection (cs_title s) (map encodeFinding (cs_findings s))"

definition encodeReport :: "CompiledSection list \<Rightarrow> json" where
  "encodeReport ss = JObj [(lit ''sections'', JArr (map encodeSection ss))]"

lemma zTrimmed_accepts: "boundedText n t \<Longrightarrow> zTrimmed n path (Some (JStr t)) = ([], t)"
  by (auto simp: boundedText_def Let_def Suc_le_eq)

lemma compiledFinding_accepts:
  "validFinding f \<Longrightarrow> compiledFindingSchema path (encodeFinding f) = ([], f)"
  by (simp add: encodeFinding_def mockFinding_def validFinding_def zTrimmed_accepts Let_def del: zTrimmed.simps)

lemma zItems_accepts:
  assumes "\<And>path x. P x \<Longrightarrow> item path (enc x) = ([], x)" and "list_all P xs"
  shows "zItems item path i (map enc xs) = ([], xs)"
  using assms(2) by (induction xs arbitrary: i) (auto simp: Let_def assms(1))

lemma compiledSection_accepts:
  assumes "validSection s"
  shows "compiledSectionSchema path (encodeSection s) = ([], s)"
proof -
  have "zItems compiledFindingSchema p 0 (map encodeFinding (cs_findings s)) = ([], cs_findings s)" for p
    using zItems_accepts [of validFinding compiledFindingSchema encodeFinding]
      compiledFinding_accepts assms by (simp add: validSection_def)
  moreover have "zTrimmed 200 p (Some (JStr (cs_title s))) = ([], cs_title s)" for p
    using assms by (intro zTrimmed_accepts) (simp add: validSection_def)
  ultimately show ?thesis
    using assms by (simp add: encodeSection_def mockSection_def validSection_def Let_def del: zTrimmed.simps)
qed

lemma schema_accepts: "validReport ss \<Longrightarrow> compiledReportSchema (encodeReport ss) = ([], ss)"
proof -
  assume "validReport ss"
  then have "zItems compiledSectionSchema p 0 (map encodeSection ss) = ([], ss)" for p
    using zItems_accepts [of validSection compiledSectionSchema encodeSection] compiledSection_accepts
    by (simp add: validReport_def)
  with \<open>validReport ss\<close> show "compiledReportSchema (encodeReport ss) = ([], ss)"
    by (simp add: encodeReport_def validReport_def Let_def)
qed

text \<open>
  C30. The schema is exact: whatever it accepts it returns within the bounds (at most 100 sections of at most 200
  findings, trimmed non-empty titles of at most 200 and texts of at most 2000 units), and a report within the bounds
  it accepts and returns as it is.
\<close>

theorem schema_exact:
  "(fst (compiledReportSchema v) = [] \<longrightarrow> validReport (snd (compiledReportSchema v)))
   \<and> (validReport ss \<longrightarrow> compiledReportSchema (encodeReport ss) = ([], ss))"
  using compiledReport_valid schema_accepts by blast

section \<open>Normalization\<close>

definition reportWf :: "ReportSectionInput list \<Rightarrow> bool" where
  "reportWf ss \<longleftrightarrow> length ss \<le> 100 \<and> (\<forall>s \<in> set ss. boundedText 200 (rs_title s)
     \<and> 1 \<le> length (rs_findings s) \<and> length (rs_findings s) \<le> 200
     \<and> (\<forall>f \<in> set (rs_findings s). boundedText 2000 (rf_text f))
     \<and> sorted (map rf_severity (rs_findings s)))"

text \<open>On a validated report normalization only sorts and drops sections without findings.\<close>

definition structure_of :: "CompiledSection list \<Rightarrow> ReportSectionInput list" where
  "structure_of ss = map (\<lambda>s. \<lparr>rs_title = cs_title s,
       rs_findings = sort_key rf_severity
         (map (\<lambda>f. \<lparr>rf_text = cf_text f, rf_severity = severityFromApi (cf_severity f)\<rparr>) (cs_findings s))\<rparr>)
     (filter (\<lambda>s. cs_findings s \<noteq> []) ss)"

lemma sort_key_rank: "sort_key (SEVERITY_RANK \<circ> rf_severity) xs = sort_key rf_severity xs"
proof (rule sort_key_unique)
  have "sorted (map (SEVERITY_RANK \<circ> rf_severity) (sort_key (SEVERITY_RANK \<circ> rf_severity) xs))"
    by (rule sorted_sort_key)
  then show "sorted (map rf_severity (sort_key (SEVERITY_RANK \<circ> rf_severity) xs))"
    by (simp add: sorted_map less_eq_Severity_def)
  show "filter (\<lambda>x. rf_severity x = v) (sort_key (SEVERITY_RANK \<circ> rf_severity) xs) = filter (\<lambda>x. rf_severity x = v) xs" for v
  proof -
    have eq: "(\<lambda>x. rf_severity x = v) = (\<lambda>x. (SEVERITY_RANK \<circ> rf_severity) x = SEVERITY_RANK v)"
      by (rule ext) simp
    show ?thesis unfolding eq by (rule sort_key_stable)
  qed
qed simp

lemma normalizeFinding_valid: "validFinding f \<Longrightarrow>
    normalizeFinding f = \<lparr>rf_text = cf_text f, rf_severity = severityFromApi (cf_severity f)\<rparr>
    \<and> rf_text (normalizeFinding f) \<noteq> []"
  by (auto simp: normalizeFinding_def validFinding_def boundedText_def)

lemma normalize_structure:
  assumes "validReport ss"
  shows "normalize ss = structure_of ss"
proof -
  have sec: "\<lparr>rs_title = js_trim (cs_title s), rs_findings = sort_key (SEVERITY_RANK \<circ> rf_severity)
       (filter (\<lambda>f. length (rf_text f) > 0) (map normalizeFinding (cs_findings s)))\<rparr>
     = \<lparr>rs_title = cs_title s, rs_findings = sort_key rf_severity
         (map (\<lambda>f. \<lparr>rf_text = cf_text f, rf_severity = severityFromApi (cf_severity f)\<rparr>) (cs_findings s))\<rparr>"
    and title: "cs_title s \<noteq> []" if "s \<in> set ss" for s
  proof -
    have v: "validSection s" using that assms by (auto simp: validReport_def list_all_iff)
    then have f: "validFinding f" if "f \<in> set (cs_findings s)" for f
      using that by (auto simp: validSection_def list_all_iff)
    have "0 < length (rf_text (normalizeFinding f))" if "f \<in> set (cs_findings s)" for f
      using normalizeFinding_valid [OF f [OF that]] unfolding length_greater_0_conv by blast
    then have "filter (\<lambda>f. length (rf_text f) > 0) (map normalizeFinding (cs_findings s))
        = map normalizeFinding (cs_findings s)"
      unfolding filter_id_conv set_map by blast
    also have "\<dots> = map (\<lambda>f. \<lparr>rf_text = cf_text f, rf_severity = severityFromApi (cf_severity f)\<rparr>) (cs_findings s)"
      using f normalizeFinding_valid by auto
    finally show "\<lparr>rs_title = js_trim (cs_title s), rs_findings = sort_key (SEVERITY_RANK \<circ> rf_severity)
       (filter (\<lambda>f. length (rf_text f) > 0) (map normalizeFinding (cs_findings s)))\<rparr>
     = \<lparr>rs_title = cs_title s, rs_findings = sort_key rf_severity
         (map (\<lambda>f. \<lparr>rf_text = cf_text f, rf_severity = severityFromApi (cf_severity f)\<rparr>) (cs_findings s))\<rparr>"
      using v by (simp add: sort_key_rank validSection_def boundedText_def)
    show "cs_title s \<noteq> []" using v by (auto simp: validSection_def boundedText_def)
  qed
  have "normalize ss = filter (\<lambda>s. length (rs_title s) > 0 \<and> length (rs_findings s) > 0)
      (map (\<lambda>s. \<lparr>rs_title = cs_title s, rs_findings = sort_key rf_severity
         (map (\<lambda>f. \<lparr>rf_text = cf_text f, rf_severity = severityFromApi (cf_severity f)\<rparr>) (cs_findings s))\<rparr>) ss)"
    unfolding normalize_def by (rule arg_cong [of _ _ "filter _"], rule map_cong [OF refl], erule sec)
  also have "\<dots> = structure_of ss"
    unfolding structure_of_def filter_map comp_def
    by (rule arg_cong [of _ _ "map _"], rule filter_cong [OF refl]) (simp add: title)
  finally show ?thesis .
qed

lemma sort_key_Nil_iff: "sort_key k xs = [] \<longleftrightarrow> xs = []"
  by (metis length_0_conv length_sort)

lemma structure_wf: "validReport ss \<Longrightarrow> reportWf (structure_of ss)"
proof -
  assume v: "validReport ss"
  have "length (structure_of ss) \<le> length ss" by (simp add: structure_of_def)
  moreover have "boundedText 200 (cs_title s) \<and> length (cs_findings s) \<le> 200
      \<and> (\<forall>f \<in> set (cs_findings s). boundedText 2000 (cf_text f))" if "s \<in> set ss" for s
    using v that by (auto simp: validReport_def validSection_def validFinding_def list_all_iff)
  ultimately show ?thesis
    using v order_trans [OF length_filter_le, of ss 100]
    by (auto simp: reportWf_def structure_of_def validReport_def Suc_le_eq sort_key_Nil_iff)
qed

section \<open>The provider interface\<close>

text \<open>
  \<^verbatim>\<open>ReportCompilerProvider\<close> as the service relies on it: one call makes at most one model call and has no
  other effect, whatever it answers.
\<close>

locale report_provider =
  fixes A :: app and provider :: "CompileInput \<Rightarrow> js option \<Rightarrow> json io"
  assumes provider_ok: "ok A (\<lambda>_ _. True) (provider input hint) w"
    and provider_quiet: "\<exists>n \<le> Suc (modelCalls w). snd (run (provider input hint) w) = w\<lparr>modelCalls := n\<rparr>"
begin

lemma compile_ok: "ok A (\<lambda>secs _. reportWf secs) (compileWith provider A input) w"
proof -
  have wf: "reportWf (normalize (snd (compiledReportSchema v)))" if "fst (compiledReportSchema v) = []" for v
    using structure_wf normalize_structure compiledReport_valid [OF that] by simp
  show ?thesis
    unfolding compileWith_def Let_def
    by (rule ok_bind [OF provider_ok]) (auto intro!: ok_bind [OF provider_ok] simp: wf)
qed

lemma compile_quiet:
  "\<exists>n \<le> modelCalls w + 2. snd (run (compileWith provider A input) w) = w\<lparr>modelCalls := n\<rparr>"
proof -
  obtain n1 where n1: "n1 \<le> Suc (modelCalls w)" "snd (run (provider input None) w) = w\<lparr>modelCalls := n1\<rparr>"
    using provider_quiet by blast
  obtain r1 where r1: "run (provider input None) w = (r1, w\<lparr>modelCalls := n1\<rparr>)"
    using n1(2) by (metis prod.collapse)
  show ?thesis
  proof (cases r1)
    case (Inl e)
    with r1 n1 show ?thesis by (intro exI [of _ n1]) (simp add: compileWith_def)
  next
    case (Inr v)
    let ?hint = "Some (buildRepairHint (formatIssues A (fst (compiledReportSchema v))))"
    obtain n2 where n2: "n2 \<le> Suc n1" "snd (run (provider input ?hint) (w\<lparr>modelCalls := n1\<rparr>)) = w\<lparr>modelCalls := n2\<rparr>"
      using provider_quiet [of "w\<lparr>modelCalls := n1\<rparr>" input ?hint] by auto
    obtain r2 where r2: "run (provider input ?hint) (w\<lparr>modelCalls := n1\<rparr>) = (r2, w\<lparr>modelCalls := n2\<rparr>)"
      using n2(2) by (metis prod.collapse)
    show ?thesis
    proof (cases "fst (compiledReportSchema v) = []")
      case True
      with Inr r1 n1 show ?thesis by (intro exI [of _ n1]) (simp add: compileWith_def)
    next
      case False
      with Inr r1 r2 n1 n2 show ?thesis
        by (intro exI [of _ n2]) (auto simp: compileWith_def Let_def split: sum.split)
    qed
  qed
qed

end

lemma ok_modelCall: "ok A (\<lambda>_ _. True) modelCall w"
  unfolding modelCall_def by (rule ok_call) (auto intro: evolves_modelCalls evolves_inv)

lemma run_modelCall [simp]: "run modelCall w = (Inr (modelCalls w), w\<lparr>modelCalls := Suc (modelCalls w)\<rparr>)"
  by (simp add: modelCall_def)

interpretation mock: report_provider A mockCompile for A
proof
  show "\<exists>n \<le> Suc (modelCalls w). snd (run (mockCompile input hint) w) = w\<lparr>modelCalls := n\<rparr>" for input hint w
    by (rule exI [of _ "modelCalls w"]) (simp add: mockCompile_def)
qed (simp add: mockCompile_def)

interpretation deepseek: report_provider A "deepseekCompile A" for A
proof
  show "ok A (\<lambda>_ _. True) (deepseekCompile A input hint) w" for input hint w
    unfolding deepseekCompile_def Let_def
    by (rule ok_bind [OF ok_modelCall]) (auto split: sum.split option.split)
  show "\<exists>n \<le> Suc (modelCalls w). snd (run (deepseekCompile A input hint) w) = w\<lparr>modelCalls := n\<rparr>" for input hint w
    by (rule exI [of _ "Suc (modelCalls w)"])
      (auto simp: deepseekCompile_def Let_def split: sum.split option.split)
qed

interpretation selected: report_provider A "compilerProvider A" for A
  by unfold_locales
    (auto simp: compilerProvider_def mock.provider_ok deepseek.provider_ok
      mock.provider_quiet deepseek.provider_quiet)

lemma ok_compile: "ok A (\<lambda>secs _. reportWf secs) (compile A input) w"
  unfolding compile_def by (rule selected.compile_ok)

section \<open>The compile policy\<close>

text \<open>
  C28. Whatever the model answers, a compilation that succeeds yields a well-formed report (trimmed,
  non-empty, bounded titles and texts, no empty section, findings of a section most severe first), costs at
  most two model calls, and changes nothing else.
\<close>

theorem compile_result_wellformed:
  "(fst (run (compile A input) w) = Inr secs \<longrightarrow> reportWf secs)
   \<and> (\<exists>n \<le> modelCalls w + 2. snd (run (compile A input) w) = w\<lparr>modelCalls := n\<rparr>)"
proof (intro conjI impI)
  assume r: "fst (run (compile A input) w) = Inr secs"
  have wf: "reportWf (normalize (snd (compiledReportSchema v)))" if "fst (compiledReportSchema v) = []" for v
    using structure_wf normalize_structure compiledReport_valid [OF that] by simp
  from r show "reportWf secs"
    by (auto simp: compile_def compileWith_def Let_def wf split: prod.splits sum.splits if_splits)
next
  show "\<exists>n \<le> modelCalls w + 2. snd (run (compile A input) w) = w\<lparr>modelCalls := n\<rparr>"
    unfolding compile_def by (rule selected.compile_quiet)
qed

text \<open>
  C29. Nothing is fabricated: every successful compilation is the structure of one answer of the provider
  that passed the schema. Its sections are that answer's sections with findings, in order and under their titles, and
  its findings are exactly that answer's findings, with their texts and severities.
\<close>

theorem compile_faithful:
  assumes "fst (run (compile A input) w) = Inr secs"
  shows "\<exists>hint v out. fst (run (compilerProvider A input hint) v) = Inr out
    \<and> fst (compiledReportSchema out) = [] \<and> secs = structure_of (snd (compiledReportSchema out))
    \<and> mset (concat (map rs_findings secs)) = mset (map (\<lambda>f. \<lparr>rf_text = cf_text f,
        rf_severity = severityFromApi (cf_severity f)\<rparr>) (concat (map cs_findings (snd (compiledReportSchema out)))))"
proof -
  have "\<exists>hint v out. fst (run (compilerProvider A input hint) v) = Inr out
      \<and> fst (compiledReportSchema out) = [] \<and> secs = normalize (snd (compiledReportSchema out))"
    using assms by (auto simp: compile_def compileWith_def Let_def split: prod.splits sum.splits if_splits)
      (metis fst_conv)+
  then obtain hint v out where out: "fst (run (compilerProvider A input hint) v) = Inr out"
    "fst (compiledReportSchema out) = []" "secs = normalize (snd (compiledReportSchema out))" by blast
  then have secs: "secs = structure_of (snd (compiledReportSchema out))"
    using normalize_structure compiledReport_valid by simp
  have m: "mset (concat (map rs_findings (structure_of ss))) = mset (map (\<lambda>f. \<lparr>rf_text = cf_text f,
        rf_severity = severityFromApi (cf_severity f)\<rparr>) (concat (map cs_findings ss)))" for ss
    by (induction ss) (auto simp: structure_of_def)
  show ?thesis
    by (rule exI [of _ hint], rule exI [of _ v], rule exI [of _ out]) (simp add: out(1,2) secs m)
qed

text \<open>
  One retry, then failure: an answer that violates the schema is followed by exactly one more call with a hint
  listing the problems; if that answer violates the schema too, the compilation fails with the permanent
  malformed-report error that lists its problems.
\<close>

theorem compile_retries_once:
  assumes "run (compilerProvider A input None) w = (Inr first, w1)" and "fst (compiledReportSchema first) \<noteq> []"
    and "run (compilerProvider A input (Some (buildRepairHint (formatIssues A (fst (compiledReportSchema first)))))) w1
      = (Inr second, w2)"
  shows "run (compile A input) w =
    (if fst (compiledReportSchema second) = [] then Inr (structure_of (snd (compiledReportSchema second)))
     else Inl (MalformedReportError (formatIssues A (fst (compiledReportSchema second)))), w2)"
  using assms normalize_structure [OF compiledReport_valid, of second]
  by (simp add: compile_def compileWith_def Let_def)

section \<open>A concrete compilation\<close>

definition sampleCompiled :: "CompiledSection list" where
  "sampleCompiled = [\<lparr>cs_title = lit ''Roof'', cs_findings =
     [\<lparr>cf_text = lit ''lifted'', cf_severity = Repair\<rparr>, \<lparr>cf_text = lit ''open'', cf_severity = Safety\<rparr>]\<rparr>]"

lemma sampleReport_encodes: "sampleReport = encodeReport sampleCompiled"
  by (simp add: sampleReport_def encodeReport_def encodeSection_def encodeFinding_def mockSection_def
      mockFinding_def sampleCompiled_def)

lemma sampleCompiled_valid: "validReport sampleCompiled"
proof -
  have "boundedText 200 (lit ''Roof'')" "boundedText 2000 (lit ''lifted'')" "boundedText 2000 (lit ''open'')"
    unfolding boundedText_def by (auto simp: lit_unfold js_space_def intro!: js_trim_fixed)
  then show ?thesis
    by (simp add: validReport_def validSection_def validFinding_def sampleCompiled_def)
qed

lemma sample_schema: "compiledReportSchema sampleReport = ([], sampleCompiled)"
  using schema_accepts [OF sampleCompiled_valid] by (simp add: sampleReport_encodes)

lemma sample_provider:
  "run (compilerProvider sampleApp input hint) w = (Inr sampleReport, w\<lparr>modelCalls := Suc (modelCalls w)\<rparr>)"
  by (simp add: compilerProvider_def deepseekCompile_def Let_def sampleApp_def sampleConfig_def
      rawArguments_def REPORT_TOOL_NAME_def)

lemma sample_compile:
  "run (compile sampleApp input) w = (Inr (structure_of sampleCompiled), w\<lparr>modelCalls := Suc (modelCalls w)\<rparr>)"
  by (simp add: compile_def compileWith_def sample_provider sample_schema Let_def
      normalize_structure [OF sampleCompiled_valid])

theorem schema_exact_witness:
  "compiledReportSchema (encodeReport sampleCompiled) = ([], sampleCompiled)"
  using schema_exact [of JNull sampleCompiled] sampleCompiled_valid by simp

theorem compile_result_wellformed_witness: "reportWf (structure_of sampleCompiled)"
  using compile_result_wellformed [of sampleApp "\<lparr>ci_label = [], ci_transcript = []\<rparr>" emptyWorld
      "structure_of sampleCompiled"] sample_compile by simp

theorem compile_faithful_witness:
  "\<exists>hint v out. fst (run (compilerProvider sampleApp \<lparr>ci_label = [], ci_transcript = []\<rparr> hint) v) = Inr out
     \<and> structure_of sampleCompiled = structure_of (snd (compiledReportSchema out))"
  using compile_faithful [of sampleApp "\<lparr>ci_label = [], ci_transcript = []\<rparr>" emptyWorld
      "structure_of sampleCompiled"] sample_compile by auto

text \<open>A model that answers with a bare string, twice.\<close>

definition stubbornApp :: app where
  "stubbornApp = sampleApp\<lparr>jsonParse := \<lambda>s. Some (JStr s)\<rparr>"

theorem compile_retries_once_witness:
  "\<exists>m w. run (compile stubbornApp \<lparr>ci_label = [], ci_transcript = []\<rparr>) emptyWorld = (Inl (MalformedReportError m), w)
     \<and> modelCalls w = 2"
proof -
  have p: "run (compilerProvider stubbornApp i h) w = (Inr (JStr (lit ''{}'')), w\<lparr>modelCalls := Suc (modelCalls w)\<rparr>)"
    for i h w
    by (simp add: compilerProvider_def deepseekCompile_def Let_def stubbornApp_def sampleApp_def sampleConfig_def
        rawArguments_def REPORT_TOOL_NAME_def)
  have bad: "fst (compiledReportSchema (JStr (lit ''{}''))) \<noteq> []" by (simp add: invalidType_def)
  from compile_retries_once [OF p bad p] bad show ?thesis by (simp add: emptyWorld_def)
qed

end
