(* ===== verification/Transcription.thy ===== *)
theory Transcription
  imports Compiler
begin

text \<open>
  Speech to text, \<^verbatim>\<open>server/src/processing/transcription\<close>: the mock, Deepgram and OpenAI providers, the
  selection among them, and the service with its empty-transcript rule. The two speech APIs are parameters.
\<close>

section \<open>Providers\<close>

definition SAMPLE_TRANSCRIPT :: js where
  "SAMPLE_TRANSCRIPT = js_join (lit '' '') [
    lit ''Alright, starting the inspection at the front of the property.'',
    lit ''The roof is asphalt shingle, looks to be about fifteen years old. I see some granule loss on the south-facing slope and two shingles are lifted near the ridge. That's going to need repair before the next winter.'',
    lit ''Gutters are full of debris and the downspout on the northeast corner is disconnected, so water is draining right against the foundation. Recommend cleaning the gutters and reattaching the downspout '' @ [0x2014] @ lit '' maintenance item.'',
    lit ''Moving to the exterior siding. Vinyl siding is in good condition overall, just some minor fading on the west wall, nothing structural.'',
    lit ''At the electrical panel in the garage. It's a 200 amp panel, looks modern. However there's a double-tapped breaker on circuit twelve, that's a safety concern and should be corrected by a licensed electrician.'',
    lit ''The water heater is a forty gallon gas unit, manufactured 2016. No TPR discharge pipe installed on the relief valve '' @ [0x2014] @ lit '' that's a safety issue, needs a proper discharge line.'',
    lit ''In the kitchen, the GFCI outlets near the sink are working and tripping correctly. Dishwasher runs fine. Under the sink there's a small active leak at the P-trap, minor but should be repaired.'',
    lit ''Upstairs bathroom, the exhaust fan vents into the attic instead of outside, which can cause moisture problems. Recommend rerouting to an exterior vent.'',
    lit ''Attic insulation is adequate, blown-in fiberglass, no signs of pest activity. Some daylight visible at the roof penetration around the plumbing vent, minor air sealing recommended.'',
    lit ''Basement is dry, no efflorescence on the walls. The sump pump tested fine. Furnace is a high-efficiency unit serviced this year per the tag.'',
    lit ''Overall the home is in serviceable condition with a few safety items to address. That concludes the walkthrough.'']"

text \<open>Reading the stream to its end has no further effect.\<close>

definition mockTranscribe :: "bytes \<Rightarrow> js \<Rightarrow> js io" where
  "mockTranscribe audio filename = Ret SAMPLE_TRANSCRIPT"

definition deepgramTranscribe :: "app \<Rightarrow> bytes \<Rightarrow> js \<Rightarrow> js io" where
  "deepgramTranscribe A audio filename = bindP modelCall (\<lambda>n.
     case deepgram A n audio (deepgramModel (ai (cfg A))) (lit ''en'') of
       DgThrow m \<Rightarrow> Throw (PlainError m)
     | DgError m \<Rightarrow> Throw (PlainError (lit ''Deepgram transcription failed: '' @ m))
     | DgResult t \<Rightarrow> Ret (js_trim (case t of Some s \<Rightarrow> s | None \<Rightarrow> [])))"

definition openaiTranscription :: "app \<Rightarrow> bytes \<Rightarrow> js \<Rightarrow> js io" where
  "openaiTranscription A audio filename = bindP modelCall (\<lambda>n.
     case openaiTranscribe A n audio filename (openaiTranscribeModel (ai (cfg A))) None of
       OaThrow m \<Rightarrow> Throw (PlainError m)
     | OaString s \<Rightarrow> Ret (js_trim s)
     | OaOther \<Rightarrow> Ret (js_trim []))"

text \<open>The binding of \<^verbatim>\<open>transcription.module.ts\<close>.\<close>

definition sttProvider :: "app \<Rightarrow> bytes \<Rightarrow> js \<Rightarrow> js io" where
  "sttProvider A =
     (if useMock (ai (cfg A)) then mockTranscribe
      else if transcriptionProvider (ai (cfg A)) = lit ''openai'' then openaiTranscription A
      else deepgramTranscribe A)"

section \<open>The service\<close>

definition transcribeWith :: "(bytes \<Rightarrow> js \<Rightarrow> js io) \<Rightarrow> bytes \<Rightarrow> js \<Rightarrow> js io" where
  "transcribeWith provider audio filename =
     bindP (provider audio filename) (\<lambda>text.
       let trimmed = js_trim text in
       if length trimmed = 0 then Throw EmptyTranscriptError else Ret trimmed)"

definition transcribe :: "app \<Rightarrow> bytes \<Rightarrow> js \<Rightarrow> js io" where
  "transcribe A = transcribeWith (sttProvider A)"

section \<open>The provider interface\<close>

text \<open>\<^verbatim>\<open>TranscriptionProvider\<close>: at most one model call, no other effect.\<close>

locale speech_provider =
  fixes A :: app and provider :: "bytes \<Rightarrow> js \<Rightarrow> js io"
  assumes provider_ok: "ok A (\<lambda>_ _. True) (provider audio filename) w"
    and provider_quiet: "\<exists>n \<le> Suc (modelCalls w). snd (run (provider audio filename) w) = w\<lparr>modelCalls := n\<rparr>"
begin

lemma transcribe_ok: "ok A (\<lambda>t _. t \<noteq> [] \<and> js_trim t = t) (transcribeWith provider audio filename) w"
  unfolding transcribeWith_def Let_def by (rule ok_bind [OF provider_ok]) simp

lemma transcribe_quiet:
  "\<exists>n \<le> Suc (modelCalls w). snd (run (transcribeWith provider audio filename) w) = w\<lparr>modelCalls := n\<rparr>"
  using provider_quiet [of w audio filename]
  by (auto simp: transcribeWith_def Let_def split: prod.split sum.split)

lemma transcribe_result:
  "fst (run (transcribeWith provider audio filename) w) =
     (case fst (run (provider audio filename) w) of
        Inl e \<Rightarrow> Inl e
      | Inr t \<Rightarrow> if js_trim t = [] then Inl EmptyTranscriptError else Inr (js_trim t))"
  by (auto simp: transcribeWith_def Let_def split: prod.split sum.split)

end

interpretation stt_mock: speech_provider A mockTranscribe for A
proof
  show "\<exists>n \<le> Suc (modelCalls w). snd (run (mockTranscribe audio f) w) = w\<lparr>modelCalls := n\<rparr>" for audio f w
    by (rule exI [of _ "modelCalls w"]) (simp add: mockTranscribe_def)
qed (simp add: mockTranscribe_def)

interpretation stt_deepgram: speech_provider A "deepgramTranscribe A" for A
proof
  show "ok A (\<lambda>_ _. True) (deepgramTranscribe A audio f) w" for audio f w
    unfolding deepgramTranscribe_def
    by (rule ok_bind [OF ok_modelCall]) (auto split: deepgram_outcome.split)
  show "\<exists>n \<le> Suc (modelCalls w). snd (run (deepgramTranscribe A audio f) w) = w\<lparr>modelCalls := n\<rparr>" for audio f w
    by (rule exI [of _ "Suc (modelCalls w)"]) (auto simp: deepgramTranscribe_def split: deepgram_outcome.split)
qed

interpretation stt_openai: speech_provider A "openaiTranscription A" for A
proof
  show "ok A (\<lambda>_ _. True) (openaiTranscription A audio f) w" for audio f w
    unfolding openaiTranscription_def
    by (rule ok_bind [OF ok_modelCall]) (auto split: openai_outcome.split)
  show "\<exists>n \<le> Suc (modelCalls w). snd (run (openaiTranscription A audio f) w) = w\<lparr>modelCalls := n\<rparr>" for audio f w
    by (rule exI [of _ "Suc (modelCalls w)"]) (auto simp: openaiTranscription_def split: openai_outcome.split)
qed

interpretation stt: speech_provider A "sttProvider A" for A
  by unfold_locales
    (auto simp: sttProvider_def stt_mock.provider_ok stt_deepgram.provider_ok stt_openai.provider_ok
      stt_mock.provider_quiet stt_deepgram.provider_quiet stt_openai.provider_quiet)

lemma ok_transcribe: "ok A (\<lambda>t _. t \<noteq> [] \<and> js_trim t = t) (transcribe A audio f) w"
  unfolding transcribe_def by (rule stt.transcribe_ok)

text \<open>
  Transcription, whichever provider is bound: the service returns the provider's text trimmed, or, when
  nothing is left of it, the permanent empty-transcript error; a provider's error passes through. At most one
  model call is made and nothing else changes.
\<close>

theorem transcribe_exact:
  "fst (run (transcribe A audio f) w) =
     (case fst (run (sttProvider A audio f) w) of
        Inl e \<Rightarrow> Inl e
      | Inr t \<Rightarrow> if js_trim t = [] then Inl EmptyTranscriptError else Inr (js_trim t))
   \<and> (\<exists>n \<le> Suc (modelCalls w). snd (run (transcribe A audio f) w) = w\<lparr>modelCalls := n\<rparr>)"
  unfolding transcribe_def using stt.transcribe_result stt.transcribe_quiet by blast

end
