(* ===== verification/Report_Html.thy ===== *)
theory Report_Html
  imports Compiler
begin

text \<open>
  The printed report, \<^verbatim>\<open>server/src/processing/pdf\<close>: \<^verbatim>\<open>buildReportHtml\<close> of \<^verbatim>\<open>report-html.ts\<close> to the letter, and the
  renderer of \<^verbatim>\<open>pdf-renderer.service.ts\<close>, in which Chromium is a parameter. The lemmas show that no text of the
  report can add markup to the document and that escaping loses nothing.
\<close>

section \<open>Views\<close>

record ReportFindingView =
  rfv_text :: js
  rfv_severity :: ApiSeverity

record ReportSectionView =
  rsv_title :: js
  rsv_findings :: "ReportFindingView list"

record ReportView =
  rv_jobId :: js
  rv_label :: js
  rv_generatedAt :: nat
  rv_sections :: "ReportSectionView list"

record SeverityStyle =
  sty_label :: js
  sty_fg :: js
  sty_bg :: js
  sty_border :: js

fun SEVERITY_STYLES :: "ApiSeverity \<Rightarrow> SeverityStyle" where
  "SEVERITY_STYLES Safety = \<lparr>sty_label = lit ''Safety'', sty_fg = lit ''#7f1d1d'', sty_bg = lit ''#fee2e2'',
     sty_border = lit ''#fca5a5''\<rparr>"
| "SEVERITY_STYLES Repair = \<lparr>sty_label = lit ''Repair'', sty_fg = lit ''#7c2d12'', sty_bg = lit ''#ffedd5'',
     sty_border = lit ''#fdba74''\<rparr>"
| "SEVERITY_STYLES Maintenance = \<lparr>sty_label = lit ''Maintenance'', sty_fg = lit ''#713f12'', sty_bg = lit ''#fef9c3'',
     sty_border = lit ''#fde047''\<rparr>"
| "SEVERITY_STYLES Info = \<lparr>sty_label = lit ''Info'', sty_fg = lit ''#1e3a8a'', sty_bg = lit ''#dbeafe'',
     sty_border = lit ''#93c5fd''\<rparr>"

definition SEVERITY_ORDER :: "ApiSeverity list" where
  "SEVERITY_ORDER = [Safety, Repair, Maintenance, Info]"

section \<open>Escaping\<close>

definition HTML_ESCAPES :: "jschar \<Rightarrow> js option" where
  "HTML_ESCAPES = [38 \<mapsto> lit ''&amp;'', 60 \<mapsto> lit ''&lt;'', 62 \<mapsto> lit ''&gt;'', 34 \<mapsto> lit ''&quot;'', 39 \<mapsto> lit ''&#39;'']"

definition escapeHtml :: "js \<Rightarrow> js" where
  "escapeHtml s = concat (map (\<lambda>c. case HTML_ESCAPES c of Some e \<Rightarrow> e | None \<Rightarrow> [c]) s)"

section \<open>Dates\<close>

text \<open>The UTC fields of a time value in milliseconds since 1970, by the Gregorian calendar.\<close>

definition leapYear :: "nat \<Rightarrow> bool" where
  "leapYear y \<longleftrightarrow> y mod 4 = 0 \<and> (y mod 100 \<noteq> 0 \<or> y mod 400 = 0)"

definition daysInYear :: "nat \<Rightarrow> nat" where
  "daysInYear y = (if leapYear y then 366 else 365)"

definition monthLengths :: "nat \<Rightarrow> nat list" where
  "monthLengths y = [31, if leapYear y then 29 else 28, 31, 30, 31, 30, 31, 31, 30, 31, 30, 31]"

function yearFrom :: "nat \<Rightarrow> nat \<Rightarrow> nat \<times> nat" where
  "yearFrom y d = (if d < daysInYear y then (y, d) else yearFrom (Suc y) (d - daysInYear y))"
  by pat_completeness auto

termination
  by (relation "measure snd") (auto simp: daysInYear_def split: if_splits)

declare yearFrom.simps [simp del]

fun monthFrom :: "nat \<Rightarrow> nat list \<Rightarrow> nat \<Rightarrow> nat \<times> nat" where
  "monthFrom m [] d = (m, d)"
| "monthFrom m (l # ls) d = (if d < l then (m, d) else monthFrom (Suc m) ls (d - l))"

definition months :: "js list" where
  "months = [lit ''January'', lit ''February'', lit ''March'', lit ''April'', lit ''May'', lit ''June'',
     lit ''July'', lit ''August'', lit ''September'', lit ''October'', lit ''November'', lit ''December'']"

text \<open>Year, month from 0 and day from 1 of a time value.\<close>

definition utcDate :: "nat \<Rightarrow> nat \<times> nat \<times> nat" where
  "utcDate t = (case yearFrom 1970 (t div 86400000) of (y, d) \<Rightarrow>
     case monthFrom 0 (monthLengths y) d of (m, k) \<Rightarrow> (y, m, Suc k))"

definition formatDate :: "nat \<Rightarrow> js" where
  "formatDate t = (case utcDate t of (y, m, d) \<Rightarrow>
     months ! m @ lit '' '' @ js_of_nat d @ lit '', '' @ js_of_nat y @ lit '' at ''
     @ js_padStart 2 48 (js_of_nat (t div 3600000 mod 24)) @ lit '':''
     @ js_padStart 2 48 (js_of_nat (t div 60000 mod 60)) @ lit '' UTC'')"

section \<open>The document\<close>

definition styleAttr :: "SeverityStyle \<Rightarrow> js" where
  "styleAttr s = lit ''style=\"color:'' @ sty_fg s @ lit '';background:'' @ sty_bg s
     @ lit '';border-color:'' @ sty_border s @ lit ''\">''"

definition countBySeverity :: "ReportSectionView list \<Rightarrow> ApiSeverity \<Rightarrow> nat" where
  "countBySeverity secs sev =
     sum_list (map (\<lambda>s. length (filter (\<lambda>f. rfv_severity f = sev) (rsv_findings s))) secs)"

definition renderFinding :: "ReportFindingView \<Rightarrow> js" where
  "renderFinding f = (let s = SEVERITY_STYLES (rfv_severity f) in js_join nl [
     lit ''      <li class=\"finding\">'',
     lit ''        <span class=\"sev\" '' @ styleAttr s @ sty_label s @ lit ''</span>'',
     lit ''        <span class=\"finding-text\">'' @ escapeHtml (rfv_text f) @ lit ''</span>'',
     lit ''      </li>''])"

definition renderSection :: "ReportSectionView \<Rightarrow> js" where
  "renderSection sec = js_join nl [
     lit ''    <section class=\"report-section\">'',
     lit ''      <h2>'' @ escapeHtml (rsv_title sec) @ lit ''</h2>'',
     lit ''      <ul class=\"findings\">'',
     js_join nl (map renderFinding (rsv_findings sec)),
     lit ''      </ul>'',
     lit ''    </section>'']"

definition chip :: "ReportSectionView list \<Rightarrow> ApiSeverity \<Rightarrow> js" where
  "chip secs sev = (let s = SEVERITY_STYLES sev in
     lit ''<span class=\"chip\" '' @ styleAttr s @ sty_label s @ lit '': ''
     @ js_of_nat (countBySeverity secs sev) @ lit ''</span>'')"

definition summaryChips :: "ReportSectionView list \<Rightarrow> js" where
  "summaryChips secs = concat (map (chip secs) (filter (\<lambda>sev. countBySeverity secs sev > 0) SEVERITY_ORDER))"

definition NO_FINDINGS_CHIP :: js where
  "NO_FINDINGS_CHIP =
     lit ''<span class=\"chip\" style=\"color:#1e3a8a;background:#dbeafe;border-color:#93c5fd\">No findings</span>''"

definition styleSheet :: js where
  "styleSheet = js_join nl [
    lit ''<style>'',
    lit ''  :root { color-scheme: light; }'',
    lit ''  * { box-sizing: border-box; }'',
    lit ''  html, body { margin: 0; padding: 0; }'',
    lit ''  body {'',
    lit ''    font-family: -apple-system, BlinkMacSystemFont, \"Segoe UI\", Roboto, Helvetica, Arial, sans-serif;'',
    lit ''    color: #0f172a;'',
    lit ''    font-size: 12px;'',
    lit ''    line-height: 1.5;'',
    lit ''    -webkit-print-color-adjust: exact;'',
    lit ''    print-color-adjust: exact;'',
    lit ''  }'',
    lit ''  .page { padding: 40px 44px; }'',
    lit ''  header.report-head {'',
    lit ''    border-bottom: 3px solid #0f172a;'',
    lit ''    padding-bottom: 16px;'',
    lit ''    margin-bottom: 24px;'',
    lit ''  }'',
    lit ''  .brand { font-size: 13px; font-weight: 700; letter-spacing: 0.14em; text-transform: uppercase; color: #2563eb; }'',
    lit ''  h1 { font-size: 24px; margin: 6px 0 2px; line-height: 1.2; }'',
    lit ''  .meta { color: #475569; font-size: 11px; margin-top: 4px; }'',
    lit ''  .meta strong { color: #0f172a; }'',
    lit ''  .summary { margin: 18px 0 28px; }'',
    lit ''  .summary-title { font-size: 11px; text-transform: uppercase; letter-spacing: 0.08em; color: #64748b; margin-bottom: 8px; }'',
    lit ''  .chips { display: flex; flex-wrap: wrap; gap: 8px; }'',
    lit ''  .chip {'',
    lit ''    display: inline-block;'',
    lit ''    font-size: 11px;'',
    lit ''    font-weight: 600;'',
    lit ''    padding: 3px 10px;'',
    lit ''    border-radius: 999px;'',
    lit ''    border: 1px solid transparent;'',
    lit ''  }'',
    lit ''  section.report-section { margin-bottom: 22px; page-break-inside: avoid; }'',
    lit ''  section.report-section > h2 {'',
    lit ''    font-size: 15px;'',
    lit ''    margin: 0 0 10px;'',
    lit ''    padding-bottom: 6px;'',
    lit ''    border-bottom: 1px solid #e2e8f0;'',
    lit ''  }'',
    lit ''  ul.findings { list-style: none; margin: 0; padding: 0; }'',
    lit ''  li.finding {'',
    lit ''    display: flex;'',
    lit ''    gap: 12px;'',
    lit ''    align-items: flex-start;'',
    lit ''    padding: 9px 0;'',
    lit ''    border-bottom: 1px solid #f1f5f9;'',
    lit ''    page-break-inside: avoid;'',
    lit ''  }'',
    lit ''  li.finding:last-child { border-bottom: none; }'',
    lit ''  .sev {'',
    lit ''    flex: 0 0 auto;'',
    lit ''    font-size: 10px;'',
    lit ''    font-weight: 700;'',
    lit ''    text-transform: uppercase;'',
    lit ''    letter-spacing: 0.04em;'',
    lit ''    padding: 2px 8px;'',
    lit ''    border-radius: 4px;'',
    lit ''    border: 1px solid transparent;'',
    lit ''    min-width: 74px;'',
    lit ''    text-align: center;'',
    lit ''  }'',
    lit ''  .finding-text { flex: 1 1 auto; }'',
    lit ''  .empty { color: #64748b; font-style: italic; }'',
    lit ''  footer.report-foot {'',
    lit ''    margin-top: 32px;'',
    lit ''    padding-top: 12px;'',
    lit ''    border-top: 1px solid #e2e8f0;'',
    lit ''    color: #94a3b8;'',
    lit ''    font-size: 10px;'',
    lit ''    display: flex;'',
    lit ''    justify-content: space-between;'',
    lit ''  }'',
    lit ''</style>'']"

text \<open>The lines of the template, with the expressions it interpolates as arguments.\<close>

definition templateLines :: "js \<Rightarrow> js \<Rightarrow> js \<Rightarrow> nat \<Rightarrow> js \<Rightarrow> js \<Rightarrow> js list" where
  "templateLines label jobId generated totalFindings chips sectionsHtml = [
     lit ''<!doctype html>'',
     lit ''<html lang=\"en\">'',
     lit ''<head>'',
     lit ''<meta charset=\"utf-8\" />'',
     lit ''<meta name=\"viewport\" content=\"width=device-width, initial-scale=1\" />'',
     lit ''<title>'' @ escapeHtml label @ lit '' '' @ [0x2014] @ lit '' Inspection Report</title>'',
     styleSheet,
     lit ''</head>'',
     lit ''<body>'',
     lit ''  <div class=\"page\">'',
     lit ''    <header class=\"report-head\">'',
     lit ''      <div class=\"brand\">FieldNote</div>'',
     lit ''      <h1>'' @ escapeHtml label @ lit ''</h1>'',
     lit ''      <div class=\"meta\">Inspection Report &middot; Generated <strong>'' @ escapeHtml generated
       @ lit ''</strong> &middot; '' @ js_of_nat totalFindings @ lit '' finding''
       @ (if totalFindings = 1 then [] else lit ''s'') @ lit ''</div>'',
     lit ''    </header>'',
     [],
     lit ''    <div class=\"summary\">'',
     lit ''      <div class=\"summary-title\">Summary</div>'',
     lit ''      <div class=\"chips\">'' @ (if truthy chips then chips else NO_FINDINGS_CHIP) @ lit ''</div>'',
     lit ''    </div>'',
     [],
     lit ''    '' @ sectionsHtml,
     [],
     lit ''    <footer class=\"report-foot\">'',
     lit ''      <span>Generated by FieldNote</span>'',
     lit ''      <span>Report '' @ escapeHtml jobId @ lit ''</span>'',
     lit ''    </footer>'',
     lit ''  </div>'',
     lit ''</body>'',
     lit ''</html>'']"

definition buildReportHtml :: "ReportView \<Rightarrow> js" where
  "buildReportHtml view =
     (let secs = rv_sections view;
          totalFindings = sum_list (map (\<lambda>s. length (rsv_findings s)) secs);
          generated = formatDate (rv_generatedAt view);
          chips = summaryChips secs;
          sectionsHtml = (if length secs = 0
            then lit ''<p class=\"empty\">No findings were recorded for this inspection.</p>''
            else js_join nl (map renderSection secs))
      in js_join nl (templateLines (rv_label view) (rv_jobId view) generated totalFindings chips sectionsHtml))"

section \<open>The renderer\<close>

text \<open>
  Launching Chromium, loading the page and printing it are one outside call, which fails or gives the bytes.
\<close>

definition render :: "app \<Rightarrow> ReportView \<Rightarrow> bytes io" where
  "render A view =
     (let html = buildReportHtml view in
      bindP modelCall (\<lambda>n. case chromiumPdf A n html of Inl m \<Rightarrow> Throw (PlainError m) | Inr pdf \<Rightarrow> Ret pdf))"

lemma ok_render: "ok A (\<lambda>_ _. True) (render A view) w"
  unfolding render_def Let_def by (rule ok_bind [OF ok_modelCall]) (auto split: sum.split)

section \<open>No text adds markup\<close>

definition markupChar :: "jschar \<Rightarrow> bool" where
  "markupChar c \<longleftrightarrow> c = 60 \<or> c = 62 \<or> c = 34 \<or> c = 39"

definition markup :: "js \<Rightarrow> js" where
  "markup s = filter markupChar s"

lemma markup_append [simp]: "markup (s @ t) = markup s @ markup t"
  by (simp add: markup_def)

lemma markup_Nil [simp]: "markup [] = []"
  by (simp add: markup_def)

lemma markup_escapeHtml [simp]: "markup (escapeHtml s) = []"
proof (induction s)
  case (Cons c s)
  have "markup (case HTML_ESCAPES c of Some e \<Rightarrow> e | None \<Rightarrow> [c]) = []"
    by (auto simp: HTML_ESCAPES_def markup_def markupChar_def lit_unfold)
  with Cons show ?case by (simp add: escapeHtml_def)
qed (simp add: escapeHtml_def)

lemma markup_join: "markup (js_join sep xs) = js_join (markup sep) (map markup xs)"
  by (induction sep xs rule: js_join.induct) auto

definition sectionShape :: "ReportSectionView \<Rightarrow> ApiSeverity list" where
  "sectionShape s = map rfv_severity (rsv_findings s)"

definition shape :: "ReportSectionView list \<Rightarrow> ApiSeverity list list" where
  "shape secs = map sectionShape secs"

lemma markup_renderFinding:
  "rfv_severity f = rfv_severity g \<Longrightarrow> markup (renderFinding f) = markup (renderFinding g)"
  by (simp add: renderFinding_def Let_def markup_join)

lemma markup_renderSection:
  assumes "sectionShape s = sectionShape t"
  shows "markup (renderSection s) = markup (renderSection t)"
proof -
  have "map (\<lambda>f. markup (renderFinding f)) fs = map (\<lambda>f. markup (renderFinding f)) gs"
    if "map rfv_severity fs = map rfv_severity gs" for fs gs
    using that
  proof (induction fs arbitrary: gs)
    case (Cons f fs)
    then obtain g gs' where gs: "gs = g # gs'" "rfv_severity f = rfv_severity g"
      "map rfv_severity fs = map rfv_severity gs'"
      by auto
    show ?case
      unfolding gs(1) list.map by (simp only: markup_renderFinding [OF gs(2)] Cons.IH [OF gs(3)])
  qed simp
  from this [OF assms [unfolded sectionShape_def]] show ?thesis
    by (simp add: renderSection_def markup_join comp_def)
qed

lemma markup_sections:
  "shape ss = shape ts \<Longrightarrow> map (\<lambda>s. markup (renderSection s)) ss = map (\<lambda>s. markup (renderSection s)) ts"
proof (induction ss arbitrary: ts)
  case (Cons s ss)
  then obtain t ts' where ts: "ts = t # ts'" "sectionShape s = sectionShape t" "shape ss = shape ts'"
    by (auto simp: shape_def)
  show ?case
    unfolding ts(1) list.map by (simp only: markup_renderSection [OF ts(2)] Cons.IH [OF ts(3)])
qed (simp add: shape_def)

lemma countBySeverity_shape:
  "countBySeverity secs sev = sum_list (map (\<lambda>vs. length (filter (\<lambda>v. v = sev) vs)) (shape secs))"
  by (simp add: countBySeverity_def shape_def sectionShape_def comp_def filter_map)

lemma total_shape: "sum_list (map (\<lambda>s. length (rsv_findings s)) secs) = sum_list (map length (shape secs))"
  by (simp add: shape_def sectionShape_def comp_def)

lemma summaryChips_shape: "shape ss = shape ts \<Longrightarrow> summaryChips ss = summaryChips ts"
proof -
  assume "shape ss = shape ts"
  then have "countBySeverity ss = countBySeverity ts"
    by (intro ext) (simp add: countBySeverity_shape)
  then show ?thesis by (simp add: summaryChips_def chip_def [abs_def])
qed

lemma markup_template:
  assumes "n = n'" "chips = chips'" "markup body = markup body'"
  shows "map markup (templateLines label jobId generated n chips body)
    = map markup (templateLines label' jobId' generated' n' chips' body')"
  unfolding templateLines_def
  by (simp only: list.map markup_append markup_escapeHtml assms)

text \<open>
  C31. Injection safety: two reports with the same severities in the same places yield documents with
  exactly the same markup characters in the same order, whatever their label, job id, titles, texts and
  date. No such text can open or close a tag or an attribute.
\<close>

theorem html_injection_safe:
  assumes "shape (rv_sections v) = shape (rv_sections u)"
  shows "markup (buildReportHtml v) = markup (buildReportHtml u)"
proof -
  have "length (rv_sections v) = length (rv_sections u)"
    using assms by (metis length_map shape_def)
  moreover have "map (\<lambda>s. markup (renderSection s)) (rv_sections v) = map (\<lambda>s. markup (renderSection s)) (rv_sections u)"
    by (rule markup_sections [OF assms])
  moreover note summaryChips_shape [OF assms]
  moreover have "sum_list (map (\<lambda>s. length (rsv_findings s)) (rv_sections v))
      = sum_list (map (\<lambda>s. length (rsv_findings s)) (rv_sections u))"
    using assms by (simp only: total_shape)
  ultimately show ?thesis
    unfolding buildReportHtml_def Let_def markup_join
    by (intro arg_cong [where f = "js_join (markup nl)"] markup_template)
      (auto simp: markup_join comp_def)
qed

theorem html_injection_safe_witness:
  "markup (buildReportHtml \<lparr>rv_jobId = lit ''j1'', rv_label = lit ''<script>'', rv_generatedAt = 0, rv_sections = []\<rparr>)
   = markup (buildReportHtml \<lparr>rv_jobId = lit ''j1'', rv_label = lit ''Main St'', rv_generatedAt = 0, rv_sections = []\<rparr>)"
  by (rule html_injection_safe) simp

section \<open>Escaping loses nothing\<close>

text \<open>Reading the five entities back.\<close>

definition entity :: "js \<Rightarrow> (jschar \<times> nat) option" where
  "entity s =
     (if js_startsWith (lit ''&amp;'') s then Some (38, 5)
      else if js_startsWith (lit ''&lt;'') s then Some (60, 4)
      else if js_startsWith (lit ''&gt;'') s then Some (62, 4)
      else if js_startsWith (lit ''&quot;'') s then Some (34, 6)
      else if js_startsWith (lit ''&#39;'') s then Some (39, 5)
      else None)"

fun unescapeHtml :: "nat \<Rightarrow> js \<Rightarrow> js" where
  "unescapeHtml 0 s = s"
| "unescapeHtml (Suc fuel) s =
     (case s of
        [] \<Rightarrow> []
      | c # cs \<Rightarrow>
          (case entity s of
             Some (e, n) \<Rightarrow> e # unescapeHtml fuel (drop n s)
           | None \<Rightarrow> c # unescapeHtml fuel cs))"

lemma escape_Cons: "escapeHtml (c # s) = (case HTML_ESCAPES c of Some e \<Rightarrow> e | None \<Rightarrow> [c]) @ escapeHtml s"
  by (simp add: escapeHtml_def)

lemma entity_plain: "c \<noteq> 38 \<Longrightarrow> entity (c # s) = None"
  by (auto simp: entity_def js_startsWith_def lit_unfold)

text \<open>
  Escaping is lossless: decoding the entities of an escaped text gives the text back, so what is printed is
  what was recorded.
\<close>

theorem escape_roundtrip: "unescapeHtml (length s) (escapeHtml s) = s"
proof (induction s)
  case (Cons c s)
  show ?case
  proof (cases "HTML_ESCAPES c")
    case None
    then have "c \<noteq> 38" by (auto simp: HTML_ESCAPES_def)
    with None Cons show ?thesis by (simp add: escape_Cons entity_plain)
  next
    case (Some e)
    then have "c \<in> {38, 60, 62, 34, 39}" by (auto simp: HTML_ESCAPES_def split: if_splits)
    then show ?thesis using Cons
      by (auto simp: escape_Cons HTML_ESCAPES_def entity_def js_startsWith_def lit_unfold)
  qed
qed (simp add: escapeHtml_def)

section \<open>The summary and the date\<close>

text \<open>
  The summary is right: the chip counts of the four severities add up to the number of findings printed in the
  header, and a severity has a chip exactly when some finding of the report has it.
\<close>

theorem summary_counts:
  "sum_list (map (countBySeverity secs) SEVERITY_ORDER) = sum_list (map (\<lambda>s. length (rsv_findings s)) secs)
   \<and> (0 < countBySeverity secs sev \<longleftrightarrow> (\<exists>s \<in> set secs. \<exists>f \<in> set (rsv_findings s). rfv_severity f = sev))"
proof
  have "length (filter (\<lambda>f. rfv_severity f = Safety) fs) + (length (filter (\<lambda>f. rfv_severity f = Repair) fs)
      + (length (filter (\<lambda>f. rfv_severity f = Maintenance) fs) + length (filter (\<lambda>f. rfv_severity f = Info) fs)))
      = length fs" for fs :: "ReportFindingView list"
  proof (induction fs)
    case (Cons f fs)
    then show ?case by (cases "rfv_severity f") auto
  qed simp
  then have "(\<Sum>s\<leftarrow>secs. length (filter (\<lambda>f. rfv_severity f = Safety) (rsv_findings s))
      + (length (filter (\<lambda>f. rfv_severity f = Repair) (rsv_findings s))
      + (length (filter (\<lambda>f. rfv_severity f = Maintenance) (rsv_findings s))
      + length (filter (\<lambda>f. rfv_severity f = Info) (rsv_findings s)))))
      = (\<Sum>s\<leftarrow>secs. length (rsv_findings s))" by simp
  then show "sum_list (map (countBySeverity secs) SEVERITY_ORDER) = (\<Sum>s\<leftarrow>secs. length (rsv_findings s))"
    by (simp add: countBySeverity_def [abs_def] SEVERITY_ORDER_def sum_list_addf)
  show "0 < countBySeverity secs sev \<longleftrightarrow> (\<exists>s \<in> set secs. \<exists>f \<in> set (rsv_findings s). rfv_severity f = sev)"
    by (induction secs) (auto simp: countBySeverity_def filter_empty_conv)
qed

text \<open>The fields of a date are in range, so the month name exists.\<close>

lemma yearFrom_lt: "snd (yearFrom y d) < daysInYear (fst (yearFrom y d))"
  by (induction y d rule: yearFrom.induct) (subst (1 2) yearFrom.simps, simp)

lemma monthFrom_lt: "d < sum_list ls \<Longrightarrow> fst (monthFrom m ls d) < m + length ls"
proof (induction ls arbitrary: m d)
  case (Cons l ls)
  show ?case
  proof (cases "d < l")
    case False
    with Cons.prems have "d - l < sum_list ls" by simp
    from Cons.IH [OF this, of "Suc m"] False show ?thesis by simp
  qed simp
qed simp

lemma utcMonth_lt: "utcDate t = (y, m, d) \<Longrightarrow> m < length months"
  using yearFrom_lt [of 1970 "t div 86400000"]
    monthFrom_lt [of "snd (yearFrom 1970 (t div 86400000))" "monthLengths (fst (yearFrom 1970 (t div 86400000)))" 0]
  by (auto simp: utcDate_def monthLengths_def daysInYear_def months_def split: prod.splits if_splits)

end
