(* ===== verification/Pipeline.thy ===== *)
theory Pipeline
  imports Transcription Report_Html
begin

text \<open>
  The worker: \<^verbatim>\<open>PipelineService\<close> of \<^verbatim>\<open>server/src/processing/pipeline/pipeline.service.ts\<close>, one definition per
  method, and the BullMQ consumer \<^verbatim>\<open>ProcessingProcessor\<close> of \<^verbatim>\<open>processing/worker/processing.processor.ts\<close> with its
  failure policy. A stage runs under a timer that does not stop it: when the timer wins, the body keeps
  running unobserved. Every method is shown safe under interference.
\<close>

section \<open>Stages\<close>

definition STAGE_TRANSCRIBE :: js where "STAGE_TRANSCRIBE = lit ''transcribe''"
definition STAGE_COMPILE :: js where "STAGE_COMPILE = lit ''compile''"
definition STAGE_RENDER :: js where "STAGE_RENDER = lit ''render''"

lemmas stage_defs = STAGE_TRANSCRIBE_def STAGE_COMPILE_def STAGE_RENDER_def

text \<open>The error classes that carry \<^verbatim>\<open>permanent = true\<close>, and BullMQ's own.\<close>

fun isUnrecoverable :: "err \<Rightarrow> bool" where
  "isUnrecoverable (UnrecoverableError m) = True"
| "isUnrecoverable e = False"

fun isPermanent :: "err \<Rightarrow> bool" where
  "isPermanent EmptyTranscriptError = True"
| "isPermanent (MalformedReportError m) = True"
| "isPermanent e = isUnrecoverable e"

text \<open>The timer of the next stage.\<close>

definition nextDeadline :: "nat option io" where
  "nextDeadline = call (\<lambda>w. case deadlines w of
     [] \<Rightarrow> (Inr None, w) | d # ds \<Rightarrow> (Inr d, w\<lparr>deadlines := ds\<rparr>))"

definition withTimeout :: "'a io \<Rightarrow> int \<Rightarrow> js \<Rightarrow> 'a io" where
  "withTimeout p ms stage = bindP nextDeadline (\<lambda>d.
     case d of None \<Rightarrow> p | Some n \<Rightarrow> deadline (StageTimeoutError stage ms) p n)"

definition runStage :: "app \<Rightarrow> js \<Rightarrow> js \<Rightarrow> JobStatus \<Rightarrow> 'a io \<Rightarrow> 'a io" where
  "runStage A jobId stage status fn =
     seqP (setStatus A jobId status Undefined)
     (seqP (addEvent A jobId stage ''started'' None)
     (catchP
        (bindP (withTimeout fn (stageTimeoutMs (ai (cfg A))) stage) (\<lambda>result.
         seqP (addEvent A jobId stage ''completed'' None)
         (Ret result)))
        (\<lambda>err. seqP (addEvent A jobId stage ''failed'' (Some (take 1000 (err_message err))))
         (Throw err))))"

section \<open>The three stages\<close>

definition existingReport :: "JobWithReport \<Rightarrow> ReportSectionInput list" where
  "existingReport job = map (\<lambda>(section, fs).
     \<lparr>rs_title = s_title section,
      rs_findings = map (\<lambda>f. \<lparr>rf_text = f_text f, rf_severity = f_severity f\<rparr>) (sort_key f_sortOrder fs)\<rparr>)
     (sort_key (s_sortOrder \<circ> fst) (jr_sections job))"

definition transcribeStage :: "app \<Rightarrow> js \<Rightarrow> js \<Rightarrow> js option \<Rightarrow> js io" where
  "transcribeStage A jobId audio existingTranscript =
     (let work = runStage A jobId STAGE_TRANSCRIBE TRANSCRIBING
        (bindP (getObjectStream A audio) (\<lambda>stream.
         bindP (transcribe A stream audio) (\<lambda>transcript.
         seqP (saveTranscript A jobId transcript)
         (Ret transcript)))) in
      case existingTranscript of
        Some t \<Rightarrow> if truthy t \<and> length (js_trim t) > 0 then Ret t else work
      | None \<Rightarrow> work)"

definition compileStage :: "app \<Rightarrow> js \<Rightarrow> js \<Rightarrow> js \<Rightarrow> ReportSectionInput list \<Rightarrow> ReportSectionInput list io" where
  "compileStage A jobId label transcript existing =
     (if length existing > 0 then Ret existing
      else runStage A jobId STAGE_COMPILE COMPILING
        (bindP (compile A \<lparr>ci_label = label, ci_transcript = transcript\<rparr>) (\<lambda>secs.
         seqP (replaceReport A jobId secs)
         (Ret secs))))"

definition toReportView :: "js \<Rightarrow> js \<Rightarrow> nat \<Rightarrow> ReportSectionInput list \<Rightarrow> ReportView" where
  "toReportView jobId label generatedAt secs =
     \<lparr>rv_jobId = jobId, rv_label = label, rv_generatedAt = generatedAt,
      rv_sections = map (\<lambda>section. \<lparr>rsv_title = rs_title section,
        rsv_findings = map (\<lambda>f. \<lparr>rfv_text = rf_text f, rfv_severity = severityToApi (rf_severity f)\<rparr>)
          (rs_findings section)\<rparr>) secs\<rparr>"

definition renderStage :: "app \<Rightarrow> js \<Rightarrow> js \<Rightarrow> js \<Rightarrow> ReportSectionInput list \<Rightarrow> unit io" where
  "renderStage A jobId userId label secs =
     runStage A jobId STAGE_RENDER RENDERING
       (bindP now (\<lambda>generatedAt.
        bindP (render A (toReportView jobId label generatedAt secs)) (\<lambda>pdf.
        let key = pdfKey userId jobId in
        seqP (putObject key pdf PDF_CONTENT_TYPE)
        (setPdfReady A jobId key))))"

section \<open>Processing a job\<close>

definition markFailed :: "app \<Rightarrow> js \<Rightarrow> js \<Rightarrow> unit io" where
  "markFailed A jobId message =
     bindP (rawById jobId) (\<lambda>job.
       case job of
         None \<Rightarrow> Ret ()
       | Some j \<Rightarrow>
           if j_status j = FAILED then Ret ()
           else
             (let trimmed = take 1000 message in
              seqP (setStatus A jobId FAILED (Given trimmed))
              (addEvent A jobId (lit ''pipeline'') ''failed'' (Some trimmed))))"

definition ownerMismatch :: "js \<Rightarrow> err" where
  "ownerMismatch jobId = UnrecoverableError (lit ''Job '' @ jobId @ lit '' owner mismatch; refusing to process.'')"

definition noAudioKey :: "js \<Rightarrow> err" where
  "noAudioKey jobId = UnrecoverableError (lit ''Job '' @ jobId @ lit '' has no audio key; cannot process.'')"

definition stages :: "app \<Rightarrow> ProcessJobData \<Rightarrow> JobWithReport \<Rightarrow> js \<Rightarrow> unit io" where
  "stages A data job audio =
     bindP (transcribeStage A (pj_jobId data) audio (j_transcript (jr_row job))) (\<lambda>transcript.
     bindP (compileStage A (pj_jobId data) (j_label (jr_row job)) transcript (existingReport job)) (\<lambda>secs.
     renderStage A (pj_jobId data) (pj_userId data) (j_label (jr_row job)) secs))"

definition asUnrecoverable :: "err \<Rightarrow> err" where
  "asUnrecoverable err = (if isUnrecoverable err then err else UnrecoverableError (err_message err))"

definition runPipeline :: "app \<Rightarrow> ProcessJobData \<Rightarrow> unit io" where
  "runPipeline A data =
     bindP (findById (pj_jobId data)) (\<lambda>found.
       case found of
         None \<Rightarrow> Ret ()
       | Some job \<Rightarrow>
           if j_deletedAt (jr_row job) \<noteq> None then Ret ()
           else if j_userId (jr_row job) \<noteq> pj_userId data then Throw (ownerMismatch (pj_jobId data))
           else if j_status (jr_row job) = READY then Ret ()
           else
             (case j_audioKey (jr_row job) of
                None \<Rightarrow> Throw (noAudioKey (pj_jobId data))
              | Some audio \<Rightarrow>
                  if \<not> truthy audio then Throw (noAudioKey (pj_jobId data))
                  else
                    catchP (stages A data job audio) (\<lambda>err.
                      if isPermanent err
                      then seqP (markFailed A (pj_jobId data) (err_message err)) (Throw (asUnrecoverable err))
                      else Throw err)))"

section \<open>The consumer\<close>

text \<open>
  BullMQ hands a waiting job to a worker, and after the handler settles counts the attempt and moves the job:
  to \<open>BCompleted\<close>, to \<open>BFailed\<close> when the error is unrecoverable or the attempts are used up, else to \<open>BDelayed\<close>
  for the backoff. Each move is one atomic Redis script.
\<close>

definition takeJob :: "js \<Rightarrow> bull_job option io" where
  "takeJob i = call (\<lambda>w.
     case find (\<lambda>b. b_id b = i \<and> b_state b = BWaiting) (queue w) of
       None \<Rightarrow> (Inr None, w)
     | Some b \<Rightarrow> (Inr (Some b), w\<lparr>queue := upd (\<lambda>c. b_id c = i) (\<lambda>c. c\<lparr>b_state := BActive\<rparr>) (queue w)\<rparr>))"

definition settled :: "bull_state \<Rightarrow> bull_job \<Rightarrow> bull_job" where
  "settled s b = b\<lparr>b_attemptsMade := Suc (b_attemptsMade b), b_state := s\<rparr>"

definition moveJob :: "js \<Rightarrow> bull_state \<Rightarrow> unit io" where
  "moveJob i s = call (\<lambda>w.
     (Inr (), w\<lparr>queue := upd (\<lambda>c. b_id c = i \<and> b_state c = BActive) (settled s) (queue w)\<rparr>))"

definition failedState :: "bull_job \<Rightarrow> err \<Rightarrow> bull_state" where
  "failedState b e = (if isUnrecoverable e \<or> Suc (b_attemptsMade b) \<ge> b_attempts b then BFailed else BDelayed)"

definition addToDlq :: "dlq_entry \<Rightarrow> unit io" where
  "addToDlq e = command (\<lambda>w. w\<lparr>dlq := dlq w @ [e]\<rparr>)"

text \<open>The listener for \<^verbatim>\<open>failed\<close>; the job's counter already includes the attempt that failed.\<close>

definition terminal :: "bull_job \<Rightarrow> err \<Rightarrow> bool" where
  "terminal job err \<longleftrightarrow> isUnrecoverable err \<or> b_attemptsMade job \<ge> b_attempts job"

definition handleFailure :: "app \<Rightarrow> bull_job option \<Rightarrow> err \<Rightarrow> unit io" where
  "handleFailure A job err =
     (case job of
        None \<Rightarrow> Ret ()
      | Some b \<Rightarrow>
          if \<not> terminal b err then Ret ()
          else
            catchP
              (seqP (markFailed A (pj_jobId (b_data b)) (err_message err))
              (addToDlq \<lparr>dl_jobId = pj_jobId (b_data b), dl_userId = pj_userId (b_data b),
                 dl_error = err_message err, dl_attemptsMade = b_attemptsMade b\<rparr>))
              (\<lambda>recordErr. Ret ()))"

text \<open>One attempt at the job with id \<open>i\<close>: the handler, the move, and the listener, which nobody awaits.\<close>

definition attempt :: "'a io \<Rightarrow> (err + 'a) io" where
  "attempt p = catchP (bindP p (\<lambda>a. Ret (Inr a))) (\<lambda>e. Ret (Inl e))"

definition workerRun :: "app \<Rightarrow> js \<Rightarrow> unit io" where
  "workerRun A i =
     bindP (takeJob i) (\<lambda>job.
       case job of
         None \<Rightarrow> Ret ()
       | Some b \<Rightarrow>
           bindP (attempt (runPipeline A (b_data b))) (\<lambda>outcome.
             case outcome of
               Inr _ \<Rightarrow> moveJob i BCompleted
             | Inl e \<Rightarrow>
                 (let s = failedState b e in
                  seqP (moveJob i s)
                  (Spawn (detach (handleFailure A (Some (settled s b)) e)) (Ret ())))))"

section \<open>Safety under interference\<close>

lemma ok_nextDeadline: "ok A (\<lambda>_ _. True) nextDeadline w"
  unfolding nextDeadline_def
  by (rule ok_call) (auto split: list.split intro: evolves_refl evolves_deadlines evolves_inv)

lemma ok_withTimeout:
  assumes "\<And>v. evolves A w v \<Longrightarrow> ok A (\<lambda>_ _. True) p v"
  shows "ok A (\<lambda>_ _. True) (withTimeout p ms stage) w"
  unfolding withTimeout_def
proof (rule ok_bind [OF ok_nextDeadline])
  fix d v assume v: "evolves A w v"
  show "ok A (\<lambda>_ _. True) (case d of None \<Rightarrow> p | Some n \<Rightarrow> deadline (StageTimeoutError stage ms) p n) v"
    using assms [OF v] by (auto split: option.split intro!: ev.wpr_deadline)
qed

lemma ok_runStage:
  assumes "st \<noteq> READY" and "\<And>v. evolves A w v \<Longrightarrow> ok A (\<lambda>_ _. True) fn v"
  shows "ok A (\<lambda>_ _. True) (runStage A i stage st fn) w"
  unfolding runStage_def
proof (rule ok_seq [OF ok_setStatus [OF assms(1)]], rule ok_seq [OF ok_addEvent], rule ok_catch)
  fix v v' assume v: "evolves A w v" and v': "evolves A v v'"
  have fn: "ok A (\<lambda>_ _. True) fn u" if "evolves A v' u" for u
    using assms(2) evolves_trans [OF evolves_trans [OF v v'] that] .
  show "ok A (\<lambda>_ _. True) (bindP (withTimeout fn (stageTimeoutMs (ai (cfg A))) stage)
        (\<lambda>result. seqP (addEvent A i stage ''completed'' None) (Ret result))) v'"
    by (rule ok_bind [OF ok_withTimeout [OF fn]], assumption, rule ok_seq [OF ok_addEvent], simp)
next
  fix v v' e u
  show "ok A (\<lambda>_ _. True) (seqP (addEvent A i stage ''failed'' (Some (take 1000 (err_message e)))) (Throw e)) u"
    by (rule ok_seq [OF ok_addEvent]) simp
qed

lemma ok_transcribeStage: "ok A (\<lambda>_ _. True) (transcribeStage A i key ex) w"
proof -
  have body: "ok A (\<lambda>_ _. True) (bindP (getObjectStream A key) (\<lambda>stream.
         bindP (transcribe A stream key) (\<lambda>transcript.
         seqP (saveTranscript A i transcript) (Ret transcript)))) v" for v
    by (rule ok_bind [OF ok_getObjectStream], rule ok_bind [OF ok_transcribe], rule ok_seq [OF ok_saveTranscript]) simp
  have "ok A (\<lambda>_ _. True) (runStage A i STAGE_TRANSCRIBE TRANSCRIBING
      (bindP (getObjectStream A key) (\<lambda>stream. bindP (transcribe A stream key) (\<lambda>transcript.
         seqP (saveTranscript A i transcript) (Ret transcript))))) w"
    by (rule ok_runStage) (simp, rule body)
  then show ?thesis by (simp add: transcribeStage_def Let_def split: option.split)
qed

lemma ok_compileStage: "ok A (\<lambda>_ _. True) (compileStage A i label t ex) w"
proof -
  have "ok A (\<lambda>_ _. True) (runStage A i STAGE_COMPILE COMPILING
      (bindP (compile A \<lparr>ci_label = label, ci_transcript = t\<rparr>) (\<lambda>secs.
         seqP (replaceReport A i secs) (Ret secs)))) w"
    by (rule ok_runStage) (simp, rule ok_bind [OF ok_compile], rule ok_seq [OF ok_replaceReport], simp)
  then show ?thesis by (simp add: compileStage_def)
qed

text \<open>
  The PDF goes under the owner's key: the owner in the payload has been compared with the row. By the time READY is
  set, the object is there or the job is deleted.
\<close>

lemma ok_renderStage:
  assumes "owns (jobs w) u i"
  shows "ok A (\<lambda>_ _. True) (renderStage A i u label secs) w"
  unfolding renderStage_def Let_def
proof (rule ok_runStage)
  fix v assume v: "evolves A w v"
  show "ok A (\<lambda>_ _. True) (bindP now (\<lambda>t. bindP (render A (toReportView i label t secs)) (\<lambda>pdf.
      seqP (putObject (pdfKey u i) pdf PDF_CONTENT_TYPE) (setPdfReady A i (pdfKey u i))))) v"
  proof (rule ok_bind [OF ok_now], rule ok_bind [OF ok_render], rule ok_seq [OF ok_putObject_pdf])
    fix v1 v2 assume "evolves A v v1" "evolves A v1 v2"
    with owns_stable [OF owns_stable [OF owns_stable [OF assms v]]] show "owns (jobs v2) u i" by blast
  qed (rule ok_setPdfReady)
qed simp

lemma ok_markFailed: "ok A (\<lambda>_ _. True) (markFailed A i m) w"
  unfolding markFailed_def Let_def
proof (rule ok_bind [OF ok_rawById])
  fix job v
  have "ok A (\<lambda>_ _. True) (seqP (setStatus A i FAILED (Given t)) (addEvent A i s ''failed'' e)) v" for t s e
    by (rule ok_seq [OF ok_setStatus]) (simp, rule ok_addEvent)
  then show "ok A (\<lambda>_ _. True) (case job of None \<Rightarrow> Ret () | Some j \<Rightarrow> if j_status j = FAILED then Ret ()
      else seqP (setStatus A i FAILED (Given (take 1000 m)))
        (addEvent A i (lit ''pipeline'') ''failed'' (Some (take 1000 m)))) v"
    by (simp split: option.split)
qed

lemma ok_stages:
  assumes "owns (jobs w) (pj_userId d) (pj_jobId d)"
  shows "ok A (\<lambda>_ _. True) (stages A d job key) w"
  unfolding stages_def
  by (rule ok_bind [OF ok_transcribeStage], rule ok_bind [OF ok_compileStage], rule ok_renderStage)
    (use owns_stable assms in blast)

lemma ok_runPipeline: "ok A (\<lambda>_ _. True) (runPipeline A d) w"
  unfolding runPipeline_def
proof (rule ok_bind [OF ok_findById])
  fix found v
  assume found: "\<forall>jr. found = Some jr \<longrightarrow> j_id (jr_row jr) = pj_jobId d \<and> readable jr v"
  have run: "ok A (\<lambda>_ _. True) (catchP (stages A d job key) (\<lambda>err. if isPermanent err
      then seqP (markFailed A (pj_jobId d) (err_message err)) (Throw (asUnrecoverable err))
      else Throw err)) v" if "found = Some job" "j_userId (jr_row job) = pj_userId d" for job key
  proof (rule ok_catch [OF ok_stages])
    from found that have "j_id (jr_row job) = pj_jobId d" "seen (jr_row job) v"
      by (auto simp: readable_def)
    with seen_owns that(2) show "owns (jobs v) (pj_userId d) (pj_jobId d)" by metis
  qed (auto intro!: ok_seq [OF ok_markFailed])
  show "ok A (\<lambda>_ _. True) (case found of None \<Rightarrow> Ret () | Some job \<Rightarrow>
      if j_deletedAt (jr_row job) \<noteq> None then Ret ()
      else if j_userId (jr_row job) \<noteq> pj_userId d then Throw (ownerMismatch (pj_jobId d))
      else if j_status (jr_row job) = READY then Ret ()
      else (case j_audioKey (jr_row job) of None \<Rightarrow> Throw (noAudioKey (pj_jobId d))
        | Some key \<Rightarrow> if \<not> truthy key then Throw (noAudioKey (pj_jobId d))
           else catchP (stages A d job key) (\<lambda>err. if isPermanent err
             then seqP (markFailed A (pj_jobId d) (err_message err)) (Throw (asUnrecoverable err))
             else Throw err))) v"
  proof (cases found)
    case (Some job)
    show ?thesis
      unfolding Some option.case using run [OF Some] by (simp split: option.split)
  qed simp
qed

lemma queue_ok_upd:
  "queue_ok js q \<Longrightarrow> (\<And>b. b_id (f b) = b_id b \<and> b_data (f b) = b_data b) \<Longrightarrow> queue_ok js (upd P f q)"
  by (auto simp: queue_ok_def map_upd in_set_upd)

lemma evolves_queue_upd:
  "inv A w \<Longrightarrow> (\<And>b. b_id (f b) = b_id b \<and> b_data (f b) = b_data b) \<Longrightarrow>
    evolves A w (w\<lparr>queue := upd P f (queue w)\<rparr>)"
  by (rule evolves_queue) (auto simp: inv_def intro: queue_ok_upd)

lemma ok_takeJob: "ok A (\<lambda>_ _. True) (takeJob i) w"
  unfolding takeJob_def
  by (rule ok_call) (auto split: option.split intro!: evolves_queue_upd intro: evolves_refl evolves_inv)

lemma ok_moveJob: "ok A (\<lambda>_ _. True) (moveJob i s) w"
  unfolding moveJob_def
  by (rule ok_call) (auto simp: settled_def intro!: evolves_queue_upd intro: evolves_inv)

lemma ok_addToDlq: "ok A (\<lambda>_ _. True) (addToDlq e) w"
  unfolding addToDlq_def by (rule ok_command) (auto intro: evolves_dlq evolves_inv)

lemma ok_handleFailure: "ok A (\<lambda>_ _. True) (handleFailure A job e) w"
  unfolding handleFailure_def
  by (auto split: option.split intro!: ok_catch [OF ok_seq [OF ok_markFailed]] ok_addToDlq)

lemma ok_attempt: "ok A (\<lambda>_ _. True) p w \<Longrightarrow> ok A (\<lambda>_ _. True) (attempt p) w"
  unfolding attempt_def
  by (rule ok_catch [where F = "\<lambda>_ _. True"], erule ok_bind) simp_all

lemma ok_workerRun: "ok A (\<lambda>_ _. True) (workerRun A i) w"
  unfolding workerRun_def
proof (rule ok_bind [OF ok_takeJob])
  fix job v
  have tail: "ok A (\<lambda>_ _. True) (seqP (moveJob i s) (Spawn (detach (handleFailure A b e)) (Ret ()))) u" for s b e u
    by (rule ok_seq [OF ok_moveJob]) (simp add: ev.bgok_detach [OF ok_handleFailure])
  have "ok A (\<lambda>_ _. True) (bindP (attempt (runPipeline A (b_data b))) (\<lambda>outcome. case outcome of
      Inr _ \<Rightarrow> moveJob i BCompleted
    | Inl e \<Rightarrow> (let s = failedState b e in
        seqP (moveJob i s) (Spawn (detach (handleFailure A (Some (settled s b)) e)) (Ret ()))))) v" for b
    by (rule ok_bind [OF ok_attempt [OF ok_runPipeline]]) (auto simp: Let_def tail ok_moveJob split: sum.split)
  then show "ok A (\<lambda>_ _. True) (case job of None \<Rightarrow> Ret () | Some b \<Rightarrow>
      bindP (attempt (runPipeline A (b_data b))) (\<lambda>outcome. case outcome of
        Inr _ \<Rightarrow> moveJob i BCompleted
      | Inl e \<Rightarrow> (let s = failedState b e in
          seqP (moveJob i s) (Spawn (detach (handleFailure A (Some (settled s b)) e)) (Ret ()))))) v"
    by (simp split: option.split)
qed

end
