(* ===== verification/Pipeline_Behaviour.thy ===== *)
theory Pipeline_Behaviour
  imports Pipeline
begin

text \<open>
  What the worker does. The stages are run symbolically: each lemma gives the job's row, the events and the
  stored report after a stage, on success and on failure. The properties cover delivery and resumption, the
  guards, permanent failures, the retry policy, and the timer that does not stop a stage.
\<close>

section \<open>Symbolic steps\<close>

abbreviation quiet :: "world \<Rightarrow> bool" where
  "quiet w \<equiv> faults w = [] \<and> deadlines w = []"

definition rowOf :: "world \<Rightarrow> js \<Rightarrow> job_row option" where
  "rowOf w i = find (\<lambda>j. j_id j = i) (jobs w)"

lemma rowOf_Some: "rowOf w i = Some j \<Longrightarrow> j \<in> set (jobs w) \<and> j_id j = i"
  by (auto simp: rowOf_def dest: find_SomeD)

lemma rowOf_ids: "rowOf w i = Some j \<Longrightarrow> i \<in> j_id ` set (jobs w)"
  using rowOf_Some by force

lemma rowOf_in: "inv A w \<Longrightarrow> j \<in> set (jobs w) \<Longrightarrow> j_id j = i \<Longrightarrow> rowOf w i = Some j"
  unfolding rowOf_def by (rule find_distinct [where k = j_id]) (auto simp: inv_def jobs_inv_def)

definition setRow :: "js \<Rightarrow> (job_row \<Rightarrow> job_row) \<Rightarrow> world \<Rightarrow> world" where
  "setRow i f w = w\<lparr>jobs := upd (\<lambda>j. j_id j = i) (\<lambda>j. touch w (f j)) (jobs w)\<rparr>"

definition logged :: "js \<Rightarrow> js \<Rightarrow> string \<Rightarrow> js option \<Rightarrow> world \<Rightarrow> world" where
  "logged i stage st m w = w\<lparr>events := events w @ [\<lparr>e_jobId = i, e_stage = stage, e_status = lit st,
     e_message = m, e_createdAt = clock w\<rparr>]\<rparr>"

text \<open>Everything but the row of job \<open>i\<close>, the events, the report tables, the bucket and the call counters.\<close>

definition others :: "js \<Rightarrow> world \<Rightarrow>
    user_row list \<times> token_row list \<times> bull_job list \<times> dlq_entry list \<times> nat \<times> job_row list" where
  "others i w = (users w, tokens w, queue w, dlq w, clock w, filter (\<lambda>j. j_id j \<noteq> i) (jobs w))"

lemma find_upd_id:
  "(\<And>j. j_id (f j) = j_id j) \<Longrightarrow>
    find (\<lambda>j. j_id j = i) (upd (\<lambda>j. j_id j = i) f js) = map_option f (find (\<lambda>j. j_id j = i) js)"
  by (induction js) (auto simp: upd_def)

lemma filter_upd_id:
  "(\<And>j. j_id (f j) = j_id j) \<Longrightarrow>
    filter (\<lambda>j. j_id j \<noteq> i) (upd (\<lambda>j. j_id j = i) f js) = filter (\<lambda>j. j_id j \<noteq> i) js"
  by (induction js) (auto simp: upd_def)

lemma rowOf_setRow [simp]:
  "(\<And>j. j_id (f j) = j_id j) \<Longrightarrow> rowOf (setRow i f w) i = map_option (\<lambda>j. touch w (f j)) (rowOf w i)"
  unfolding rowOf_def setRow_def by (simp add: find_upd_id)

lemma others_setRow [simp]: "(\<And>j. j_id (f j) = j_id j) \<Longrightarrow> others i (setRow i f w) = others i w"
  unfolding others_def setRow_def by (simp add: filter_upd_id)

lemma setRow_simps [simp]:
  "faults (setRow i f w) = faults w" "deadlines (setRow i f w) = deadlines w" "events (setRow i f w) = events w"
  "bucket (setRow i f w) = bucket w" "sections (setRow i f w) = sections w" "findings (setRow i f w) = findings w"
  "entropy (setRow i f w) = entropy w" "clock (setRow i f w) = clock w" "queue (setRow i f w) = queue w"
  "dlq (setRow i f w) = dlq w" "modelCalls (setRow i f w) = modelCalls w"
  by (simp_all add: setRow_def)

lemma logged_simps [simp]:
  "faults (logged i s t m w) = faults w" "deadlines (logged i s t m w) = deadlines w"
  "jobs (logged i s t m w) = jobs w" "bucket (logged i s t m w) = bucket w"
  "sections (logged i s t m w) = sections w" "findings (logged i s t m w) = findings w"
  "entropy (logged i s t m w) = entropy w" "clock (logged i s t m w) = clock w"
  "queue (logged i s t m w) = queue w" "dlq (logged i s t m w) = dlq w"
  "rowOf (logged i s t m w) k = rowOf w k" "others k (logged i s t m w) = others k w"
  by (simp_all add: logged_def rowOf_def others_def)

lemma touch_touch [simp]: "touch w (touch w j) = touch w j"
  by (simp add: touch_def)

lemma touch_clock: "clock v = clock w \<Longrightarrow> touch v = touch w"
  by (rule ext) (simp add: touch_def)

lemma run_updateJob: "faults w = [] \<Longrightarrow> rowOf w i = Some j \<Longrightarrow> run (updateJob A i f) w = (Inr (), setRow i f w)"
  using rowOf_ids by (simp add: updateJob_def run_remote setRow_def)

lemma run_addEvent: "faults w = [] \<Longrightarrow> rowOf w i = Some j \<Longrightarrow>
    run (addEvent A i stage st m) w = (Inr (), logged i stage st m w)"
  using rowOf_ids by (simp add: addEvent_def run_remote logged_def)

lemma run_rawById: "faults w = [] \<Longrightarrow> run (rawById i) w = (Inr (rowOf w i), w)"
  by (simp add: rawById_def rowOf_def)

lemma run_findById: "faults w = [] \<Longrightarrow>
    run (findById i) w = (Inr (map_option (JOB_REPORT_INCLUDE w) (rowOf w i)), w)"
  by (simp add: findById_def rowOf_def)

section \<open>A stage\<close>

text \<open>The events of a stage that ran to its end, or failed with \<open>e\<close>.\<close>

definition event :: "world \<Rightarrow> js \<Rightarrow> js \<Rightarrow> string \<Rightarrow> js option \<Rightarrow> event_row" where
  "event w i stage st m = \<lparr>e_jobId = i, e_stage = stage, e_status = lit st, e_message = m, e_createdAt = clock w\<rparr>"

definition stageDone :: "world \<Rightarrow> js \<Rightarrow> js \<Rightarrow> event_row list" where
  "stageDone w i stage = [event w i stage ''started'' None, event w i stage ''completed'' None]"

definition stageFailed :: "world \<Rightarrow> js \<Rightarrow> js \<Rightarrow> err \<Rightarrow> event_row list" where
  "stageFailed w i stage e =
     [event w i stage ''started'' None, event w i stage ''failed'' (Some (take 1000 (err_message e)))]"

definition started :: "js \<Rightarrow> js \<Rightarrow> JobStatus \<Rightarrow> world \<Rightarrow> world" where
  "started i stage st w = logged i stage ''started'' None (setRow i (\<lambda>j. j\<lparr>j_status := st\<rparr>) w)"

lemma started_simps [simp]:
  "faults (started i s st w) = faults w" "deadlines (started i s st w) = deadlines w"
  "bucket (started i s st w) = bucket w" "clock (started i s st w) = clock w"
  "sections (started i s st w) = sections w" "findings (started i s st w) = findings w"
  "entropy (started i s st w) = entropy w" "others i (started i s st w) = others i w"
  "rowOf (started i s st w) i = map_option (\<lambda>j. touch w (j\<lparr>j_status := st\<rparr>)) (rowOf w i)"
  "events (started i s st w) = events w @ [event w i s ''started'' None]"
  by (simp_all add: started_def logged_def event_def) (simp_all add: rowOf_def others_def setRow_def find_upd_id filter_upd_id)

lemma run_runStage:
  assumes "quiet w" and "rowOf w i = Some j"
    and "run fn (started i stage st w) = (r, v)" and "quiet v" and "rowOf v i = Some k" and "clock v = clock w"
    and "events v = events w @ [event w i stage ''started'' None]"
  shows "\<exists>w'. run (runStage A i stage st fn) w = (r, w')
    \<and> w' = v\<lparr>events := events w @ (case r of Inl e \<Rightarrow> stageFailed w i stage e | Inr _ \<Rightarrow> stageDone w i stage)\<rparr>"
proof -
  have "run (setStatus A i st Undefined) w = (Inr (), setRow i (\<lambda>j. j\<lparr>j_status := st\<rparr>) w)"
    using assms(1,2) by (simp add: setStatus_def run_updateJob Let_def)
  moreover have "run (addEvent A i stage ''started'' None) (setRow i (\<lambda>j. j\<lparr>j_status := st\<rparr>) w)
      = (Inr (), started i stage st w)"
    using assms(1,2) by (simp add: run_addEvent started_def)
  moreover have "run (withTimeout fn ms stage) (started i stage st w) = (r, v)" for ms
    using assms(1,3) by (simp add: withTimeout_def nextDeadline_def)
  moreover have "run (addEvent A i stage s m) v = (Inr (), logged i stage s m v)" for s m
    using assms(4,5) by (simp add: run_addEvent)
  ultimately have "run (runStage A i stage st fn) w = (r, case r of
      Inl e \<Rightarrow> logged i stage ''failed'' (Some (take 1000 (err_message e))) v
    | Inr _ \<Rightarrow> logged i stage ''completed'' None v)"
    by (cases r) (simp_all add: runStage_def)
  moreover have "logged i stage s m v = v\<lparr>events := events w @ [event w i stage ''started'' None, event w i stage s m]\<rparr>"
    for s m
    using assms(6,7) by (simp add: logged_def event_def)
  ultimately show ?thesis
    by (cases r) (simp_all add: stageFailed_def stageDone_def)
qed

section \<open>The three stages\<close>

lemma others_clock: "others i v = others i w \<Longrightarrow> clock v = clock w"
  by (simp add: others_def)

lemma update_simps [simp]:
  "rowOf (w\<lparr>modelCalls := n\<rparr>) i = rowOf w i" "rowOf (w\<lparr>events := es\<rparr>) i = rowOf w i"
  "rowOf (w\<lparr>bucket := m\<rparr>) i = rowOf w i"
  "others i (w\<lparr>modelCalls := n\<rparr>) = others i w" "others i (w\<lparr>events := es\<rparr>) = others i w"
  "others i (w\<lparr>bucket := m\<rparr>) = others i w"
  by (simp_all add: rowOf_def others_def)

definition reusable :: "js option \<Rightarrow> js option" where
  "reusable ex = (case ex of None \<Rightarrow> None | Some t \<Rightarrow> if truthy t \<and> length (js_trim t) > 0 then Some t else None)"

lemma transcribeStage_reuse: "reusable ex = Some t \<Longrightarrow> transcribeStage A i key ex = Ret t"
  by (auto simp: reusable_def transcribeStage_def Let_def split: option.splits if_splits)

lemma transcribe_text: "fst (run (transcribe A audio f) w) = Inr t \<Longrightarrow> t \<noteq> [] \<and> js_trim t = t"
  unfolding transcribe_def stt.transcribe_result by (auto split: sum.splits if_splits)

text \<open>What transcription yields from a world on: the object read and transcribed, or the error.\<close>

definition speech :: "app \<Rightarrow> js \<Rightarrow> world \<Rightarrow> err + js" where
  "speech A key w = (case bucket w key of
     None \<Rightarrow> Inl (PlainError (libraryMessage A (lit ''NoSuchKey'')))
   | Some ob \<Rightarrow> if noBody A key then Inl (PlainError (lit ''Object '' @ key @ lit '' has no body''))
       else fst (run (transcribe A (o_body ob) key) w))"

text \<open>The work of the stage: the object, its text, the row.\<close>

lemma run_transcribeBody:
  assumes "faults w = []" and "rowOf w i = Some j"
  shows "\<exists>n. run (bindP (getObjectStream A key) (\<lambda>stream. bindP (transcribe A stream key) (\<lambda>transcript.
         seqP (saveTranscript A i transcript) (Ret transcript)))) w
    = (speech A key w, case speech A key w of Inl e \<Rightarrow> w\<lparr>modelCalls := n\<rparr>
      | Inr t \<Rightarrow> setRow i (\<lambda>j. j\<lparr>j_transcript := Some t\<rparr>) (w\<lparr>modelCalls := n\<rparr>))"
proof (cases "bucket w key")
  case None
  then have "run (getObjectStream A key) w = (Inl (PlainError (libraryMessage A (lit ''NoSuchKey''))), w)"
    using assms(1) by (simp add: getObjectStream_def run_remote)
  then show ?thesis using None by (intro exI [of _ "modelCalls w"]) (simp add: speech_def)
next
  case (Some ob)
  show ?thesis
  proof (cases "noBody A key")
    case True
    then show ?thesis using assms(1) Some
      by (intro exI [of _ "modelCalls w"]) (simp add: getObjectStream_def run_remote speech_def)
  next
    case False
    obtain n where n: "snd (run (transcribe A (o_body ob) key) w) = w\<lparr>modelCalls := n\<rparr>"
      unfolding transcribe_def using stt.transcribe_quiet by blast
    then have t: "run (transcribe A (o_body ob) key) w = (speech A key w, w\<lparr>modelCalls := n\<rparr>)"
      using Some False by (simp add: speech_def prod_eq_iff)
    have "run (getObjectStream A key) w = (Inr (o_body ob), w)"
      using assms(1) Some False by (simp add: run_getObjectStream)
    moreover have "run (saveTranscript A i t) (w\<lparr>modelCalls := n\<rparr>)
        = (Inr (), setRow i (\<lambda>j. j\<lparr>j_transcript := Some t\<rparr>) (w\<lparr>modelCalls := n\<rparr>))" for t
      using assms by (simp add: saveTranscript_def run_updateJob)
    ultimately show ?thesis using t by (intro exI [of _ n]) (cases "speech A key w", simp_all)
  qed
qed

lemma run_transcribeStage:
  assumes "quiet w" and "rowOf w i = Some j" and "reusable ex = None"
    and r_def: "r = speech A key (started i STAGE_TRANSCRIBE TRANSCRIBING w)"
  shows "\<exists>w'. run (transcribeStage A i key ex) w = (r, w') \<and> quiet w' \<and> others i w' = others i w
    \<and> bucket w' = bucket w \<and> sections w' = sections w \<and> findings w' = findings w \<and> entropy w' = entropy w
    \<and> rowOf w' i = Some (touch w (case r of Inl e \<Rightarrow> j\<lparr>j_status := TRANSCRIBING\<rparr>
         | Inr t \<Rightarrow> j\<lparr>j_status := TRANSCRIBING, j_transcript := Some t\<rparr>))
    \<and> events w' = events w @ (case r of Inl e \<Rightarrow> stageFailed w i STAGE_TRANSCRIBE e
         | Inr t \<Rightarrow> stageDone w i STAGE_TRANSCRIBE)"
proof -
  let ?w = "started i STAGE_TRANSCRIBE TRANSCRIBING w"
  let ?body = "bindP (getObjectStream A key) (\<lambda>stream. bindP (transcribe A stream key) (\<lambda>transcript.
         seqP (saveTranscript A i transcript) (Ret transcript)))"
  have "faults ?w = []" "rowOf ?w i = Some (touch w (j\<lparr>j_status := TRANSCRIBING\<rparr>))"
    using assms(1,2) by simp_all
  from run_transcribeBody [OF this] obtain n where n: "run ?body ?w =
      (r, case r of Inl e \<Rightarrow> ?w\<lparr>modelCalls := n\<rparr>
        | Inr t \<Rightarrow> setRow i (\<lambda>j. j\<lparr>j_transcript := Some t\<rparr>) (?w\<lparr>modelCalls := n\<rparr>))"
    unfolding r_def by blast
  let ?v = "case r of Inl e \<Rightarrow> ?w\<lparr>modelCalls := n\<rparr>
      | Inr t \<Rightarrow> setRow i (\<lambda>j. j\<lparr>j_transcript := Some t\<rparr>) (?w\<lparr>modelCalls := n\<rparr>)"
  have t: "touch (?w\<lparr>modelCalls := n\<rparr>) = touch w" by (rule touch_clock) simp
  have tt: "touch w ((touch w (j\<lparr>j_status := TRANSCRIBING\<rparr>))\<lparr>j_transcript := Some x\<rparr>)
      = touch w (j\<lparr>j_status := TRANSCRIBING, j_transcript := Some x\<rparr>)" for x by (simp add: touch_def)
  have v: "quiet ?v" "others i ?v = others i w" "bucket ?v = bucket w" "sections ?v = sections w"
    "findings ?v = findings w" "entropy ?v = entropy w"
    "events ?v = events w @ [event w i STAGE_TRANSCRIBE ''started'' None]"
    "rowOf ?v i = Some (touch w (case r of Inl e \<Rightarrow> j\<lparr>j_status := TRANSCRIBING\<rparr>
         | Inr t \<Rightarrow> j\<lparr>j_status := TRANSCRIBING, j_transcript := Some t\<rparr>))"
    using assms(1,2) by (simp_all add: t tt split: sum.split)
  from run_runStage [OF assms(1,2) n v(1,8) others_clock [OF v(2)] v(7)] obtain w' where w':
    "run (runStage A i STAGE_TRANSCRIBE TRANSCRIBING ?body) w = (r, w')"
    "w' = ?v\<lparr>events := events w @ (case r of Inl e \<Rightarrow> stageFailed w i STAGE_TRANSCRIBE e
        | Inr _ \<Rightarrow> stageDone w i STAGE_TRANSCRIBE)\<rparr>" by blast
  have "transcribeStage A i key ex = runStage A i STAGE_TRANSCRIBE TRANSCRIBING ?body"
    using assms(3) by (auto simp: reusable_def transcribeStage_def Let_def split: option.splits)
  with w' v show ?thesis by (intro exI [of _ w']) simp
qed

text \<open>Compilation: the report read back from the tables is the compiled one.\<close>

lemma include_cong:
  "sections v = sections w \<Longrightarrow> findings v = findings w \<Longrightarrow> JOB_REPORT_INCLUDE v j = JOB_REPORT_INCLUDE w j"
  by (simp add: JOB_REPORT_INCLUDE_def sectionsOf_def findingsOf_def)

lemma existingReport_include:
  "existingReport (JOB_REPORT_INCLUDE w j) = reportTree (JOB_REPORT_INCLUDE w j)"
proof -
  have "sorted (map (s_sortOrder \<circ> fst) (map (\<lambda>s. (s, findingsOf w (s_id s))) (sectionsOf w i)))" for i
    by (simp add: sectionsOf_def comp_def)
  then have "sort_key (s_sortOrder \<circ> fst) (jr_sections (JOB_REPORT_INCLUDE w j)) = jr_sections (JOB_REPORT_INCLUDE w j)"
    by (simp add: JOB_REPORT_INCLUDE_def sort_key_sorted del: map_map)
  moreover have "sort_key f_sortOrder (findingsOf w i) = findingsOf w i" for i
    by (simp add: findingsOf_def sort_key_sorted)
  ultimately show ?thesis
    by (simp add: existingReport_def reportTree_def) (simp add: JOB_REPORT_INCLUDE_def)
qed

definition storedReport :: "world \<Rightarrow> job_row \<Rightarrow> ReportSectionInput list" where
  "storedReport w j = reportTree (JOB_REPORT_INCLUDE w j)"

lemma storedReport_cong:
  "sections v = sections w \<Longrightarrow> findings v = findings w \<Longrightarrow> j_id k = j_id j \<Longrightarrow> storedReport v k = storedReport w j"
  by (simp add: storedReport_def reportTree_def JOB_REPORT_INCLUDE_def sectionsOf_def findingsOf_def)

lemma storedReport_replaced:
  "inj (uuid A) \<Longrightarrow> report_inv A w \<Longrightarrow> storedReport (replaced A i secs w) j = secs" if "j_id j = i"
  using that by (simp add: storedReport_def reportTree_def include_replaced reportRows_tree)

lemma replaced_simps [simp]:
  "deadlines (replaced A i secs w) = deadlines w" "events (replaced A i secs w) = events w"
  "bucket (replaced A i secs w) = bucket w" "others k (replaced A i secs w) = others k w"
  "rowOf (replaced A i secs w) k = rowOf w k" "clock (replaced A i secs w) = clock w"
  by (simp_all add: replaced_def Let_def deleteSections_def deleteFindings_def others_def rowOf_def)

lemma run_compileStage:
  assumes "quiet w" and "rowOf w i = Some j" and "inj (uuid A)" and "report_inv A w"
    and r_def: "r = fst (run (compile A \<lparr>ci_label = label, ci_transcript = t\<rparr>) (started i STAGE_COMPILE COMPILING w))"
  shows "\<exists>w'. run (compileStage A i label t []) w = (r, w') \<and> quiet w' \<and> others i w' = others i w
    \<and> bucket w' = bucket w \<and> rowOf w' i = Some (touch w (j\<lparr>j_status := COMPILING\<rparr>))
    \<and> (case r of Inl e \<Rightarrow> storedReport w' j = storedReport w j | Inr secs \<Rightarrow> storedReport w' j = secs)
    \<and> events w' = events w @ (case r of Inl e \<Rightarrow> stageFailed w i STAGE_COMPILE e
         | Inr _ \<Rightarrow> stageDone w i STAGE_COMPILE)"
proof -
  let ?w = "started i STAGE_COMPILE COMPILING w"
  let ?in = "\<lparr>ci_label = label, ci_transcript = t\<rparr>"
  let ?body = "bindP (compile A ?in) (\<lambda>secs. seqP (replaceReport A i secs) (Ret secs))"
  obtain n where n: "snd (run (compile A ?in) ?w) = ?w\<lparr>modelCalls := n\<rparr>"
    unfolding compile_def using selected.compile_quiet by blast
  let ?v = "case r of Inl e \<Rightarrow> ?w\<lparr>modelCalls := n\<rparr> | Inr secs \<Rightarrow> replaced A i secs (?w\<lparr>modelCalls := n\<rparr>)"
  have c: "run (compile A ?in) ?w = (r, ?w\<lparr>modelCalls := n\<rparr>)" using n by (simp add: r_def prod_eq_iff)
  have id: "j_id j = i" using rowOf_Some assms(2) by simp
  have ids: "i \<in> j_id ` set (jobs (?w\<lparr>modelCalls := n\<rparr>))"
    using rowOf_ids [of "?w\<lparr>modelCalls := n\<rparr>" i] assms(2) by simp
  have ri: "report_inv A (?w\<lparr>modelCalls := n\<rparr>)" using assms(4) by (simp add: report_inv_def)
  have "run (replaceReport A i secs) (?w\<lparr>modelCalls := n\<rparr>) = (Inr (), replaced A i secs (?w\<lparr>modelCalls := n\<rparr>))" for secs
    by (rule run_replaceReport [OF _ assms(3) ri ids]) (use assms(1) in simp)
  with c have body: "run ?body ?w = (r, ?v)" by (cases r) simp_all
  have v: "quiet ?v" "others i ?v = others i w" "bucket ?v = bucket w"
    "events ?v = events w @ [event w i STAGE_COMPILE ''started'' None]"
    "rowOf ?v i = Some (touch w (j\<lparr>j_status := COMPILING\<rparr>))"
    using assms(1,2) by (simp_all split: sum.split)
  have rep: "case r of Inl e \<Rightarrow> storedReport ?v j = storedReport w j | Inr secs \<Rightarrow> storedReport ?v j = secs"
    using storedReport_replaced [OF id assms(3) ri] storedReport_cong [of "?w\<lparr>modelCalls := n\<rparr>" w j j]
    by (simp split: sum.split)
  from run_runStage [OF assms(1,2) body v(1,5) others_clock [OF v(2)] v(4)] obtain w' where w':
    "run (runStage A i STAGE_COMPILE COMPILING ?body) w = (r, w')"
    "w' = ?v\<lparr>events := events w @ (case r of Inl e \<Rightarrow> stageFailed w i STAGE_COMPILE e
        | Inr _ \<Rightarrow> stageDone w i STAGE_COMPILE)\<rparr>" by blast
  have "storedReport w' j = storedReport ?v j" by (rule storedReport_cong) (simp_all add: w'(2))
  with rep have "case r of Inl e \<Rightarrow> storedReport w' j = storedReport w j | Inr secs \<Rightarrow> storedReport w' j = secs"
    by (cases r) (simp_all only: sum.case)
  moreover have "compileStage A i label t [] = runStage A i STAGE_COMPILE COMPILING ?body"
    by (simp add: compileStage_def)
  ultimately show ?thesis using w' v by (intro exI [of _ w']) simp
qed

text \<open>Rendering: the PDF of the report, stored under the job's key before the job is READY.\<close>

definition readyRow :: "world \<Rightarrow> js \<Rightarrow> js \<Rightarrow> job_row \<Rightarrow> job_row" where
  "readyRow w u i j = touch w (j\<lparr>j_pdfKey := Some (pdfKey u i), j_status := READY, j_errorMessage := None\<rparr>)"

definition printed :: "app \<Rightarrow> js \<Rightarrow> js \<Rightarrow> ReportSectionInput list \<Rightarrow> world \<Rightarrow> js + bytes" where
  "printed A i label secs w = chromiumPdf A (modelCalls w) (buildReportHtml (toReportView i label (clock w) secs))"

lemma run_renderStage:
  assumes "quiet w" and "rowOf w i = Some j"
    and r_def: "r = printed A i label secs (started i STAGE_RENDER RENDERING w)"
  shows "\<exists>w'. run (renderStage A i u label secs) w = (case r of Inl m \<Rightarrow> Inl (PlainError m) | Inr _ \<Rightarrow> Inr (), w')
    \<and> quiet w' \<and> others i w' = others i w \<and> sections w' = sections w \<and> findings w' = findings w
    \<and> bucket w' = (case r of Inl m \<Rightarrow> bucket w
         | Inr pdf \<Rightarrow> (bucket w)(pdfKey u i \<mapsto> \<lparr>o_body = pdf, o_contentType = PDF_CONTENT_TYPE\<rparr>))
    \<and> rowOf w' i = Some (case r of Inl m \<Rightarrow> touch w (j\<lparr>j_status := RENDERING\<rparr>) | Inr _ \<Rightarrow> readyRow w u i j)
    \<and> events w' = events w @ (case r of Inl m \<Rightarrow> stageFailed w i STAGE_RENDER (PlainError m)
         | Inr _ \<Rightarrow> stageDone w i STAGE_RENDER)"
proof -
  let ?w = "started i STAGE_RENDER RENDERING w"
  let ?w1 = "?w\<lparr>modelCalls := Suc (modelCalls ?w)\<rparr>"
  let ?body = "bindP now (\<lambda>generatedAt. bindP (render A (toReportView i label generatedAt secs)) (\<lambda>pdf.
        seqP (putObject (pdfKey u i) pdf PDF_CONTENT_TYPE) (setPdfReady A i (pdfKey u i))))"
  let ?e = "case r of Inl m \<Rightarrow> Inl (PlainError m) | Inr _ \<Rightarrow> Inr ()"
  let ?put = "\<lambda>pdf. ?w1\<lparr>bucket := (bucket w)(pdfKey u i \<mapsto> \<lparr>o_body = pdf, o_contentType = PDF_CONTENT_TYPE\<rparr>)\<rparr>"
  let ?v = "case r of Inl m \<Rightarrow> ?w1 | Inr pdf \<Rightarrow>
      setRow i (\<lambda>j. j\<lparr>j_pdfKey := Some (pdfKey u i), j_status := READY, j_errorMessage := None\<rparr>) (?put pdf)"
  have put: "run (putObject (pdfKey u i) pdf PDF_CONTENT_TYPE) ?w1 = (Inr (), ?put pdf)" for pdf
    using assms(1) by simp
  have ready: "run (setPdfReady A i (pdfKey u i)) (?put pdf) = (Inr (),
      setRow i (\<lambda>j. j\<lparr>j_pdfKey := Some (pdfKey u i), j_status := READY, j_errorMessage := None\<rparr>) (?put pdf))" for pdf
    unfolding setPdfReady_def
    by (rule run_updateJob [where j = "touch w (j\<lparr>j_status := RENDERING\<rparr>)"]) (use assms(1,2) in simp_all)
  have "run (render A (toReportView i label (clock ?w) secs)) ?w
      = (case r of Inl m \<Rightarrow> Inl (PlainError m) | Inr pdf \<Rightarrow> Inr pdf, ?w1)"
    by (simp add: render_def Let_def r_def printed_def split: sum.split)
  then have body: "run ?body ?w = (?e, ?v)"
    using put ready by (cases r) (simp_all del: run_putObject)
  have t: "touch (?put pdf) = touch w" for pdf by (rule touch_clock) simp
  have tt: "touch w ((touch w (j\<lparr>j_status := RENDERING\<rparr>))\<lparr>j_pdfKey := Some (pdfKey u i), j_status := READY,
      j_errorMessage := None\<rparr>) = readyRow w u i j"
    by (simp add: touch_def readyRow_def)
  have v: "quiet ?v" "others i ?v = others i w" "sections ?v = sections w" "findings ?v = findings w"
    "events ?v = events w @ [event w i STAGE_RENDER ''started'' None]"
    "bucket ?v = (case r of Inl m \<Rightarrow> bucket w
         | Inr pdf \<Rightarrow> (bucket w)(pdfKey u i \<mapsto> \<lparr>o_body = pdf, o_contentType = PDF_CONTENT_TYPE\<rparr>))"
    "rowOf ?v i = Some (case r of Inl m \<Rightarrow> touch w (j\<lparr>j_status := RENDERING\<rparr>) | Inr _ \<Rightarrow> readyRow w u i j)"
    using assms(1,2) by (simp_all add: t tt split: sum.split)
  from run_runStage [OF assms(1,2) body v(1,7) others_clock [OF v(2)] v(5)] obtain w' where w':
    "run (runStage A i STAGE_RENDER RENDERING ?body) w = (?e, w')"
    "w' = ?v\<lparr>events := events w @ (case ?e of Inl e \<Rightarrow> stageFailed w i STAGE_RENDER e
        | Inr _ \<Rightarrow> stageDone w i STAGE_RENDER)\<rparr>" by blast
  have "renderStage A i u label secs = runStage A i STAGE_RENDER RENDERING ?body"
    by (simp add: renderStage_def Let_def)
  with w' v show ?thesis by (intro exI [of _ w']) (cases r, simp_all)
qed

section \<open>The whole pipeline\<close>

text \<open>The columns no stage but the last changes, and a row left in the middle of a stage.\<close>

definition sameJob :: "job_row \<Rightarrow> job_row \<Rightarrow> bool" where
  "sameJob j k \<longleftrightarrow> j_id k = j_id j \<and> j_userId k = j_userId j \<and> j_label k = j_label j
     \<and> j_audioKey k = j_audioKey j \<and> j_deletedAt k = j_deletedAt j"

lemma sameJob_simps [simp]:
  "sameJob j j" "sameJob j (touch w k) = sameJob j k" "sameJob j (k\<lparr>j_status := s\<rparr>) = sameJob j k"
  "sameJob j (k\<lparr>j_transcript := t\<rparr>) = sameJob j k" "sameJob j (readyRow w u i k) = sameJob j k"
  by (auto simp: sameJob_def touch_def readyRow_def)

definition midStage :: "job_row \<Rightarrow> world \<Rightarrow> js \<Rightarrow> bool" where
  "midStage j w i \<longleftrightarrow> (\<exists>k. rowOf w i = Some k \<and> sameJob j k \<and> j_status k \<in> {TRANSCRIBING, COMPILING, RENDERING})"

text \<open>
  A delivered job: READY with its PDF, transcript and report. A usable transcript and a stored report from before
  are kept and their stages leave no event; otherwise they come from the services.
\<close>

definition transcribed :: "app \<Rightarrow> js option \<Rightarrow> js \<Rightarrow> bool" where
  "transcribed A ex t \<longleftrightarrow> (case reusable ex of Some t0 \<Rightarrow> t = t0
     | None \<Rightarrow> \<exists>body key v. fst (run (transcribe A body key) v) = Inr t)"

definition compiled :: "app \<Rightarrow> js \<Rightarrow> js \<Rightarrow> ReportSectionInput list \<Rightarrow> ReportSectionInput list \<Rightarrow> bool" where
  "compiled A label t ex secs \<longleftrightarrow> (if ex = []
     then \<exists>v. fst (run (compile A \<lparr>ci_label = label, ci_transcript = t\<rparr>) v) = Inr secs else secs = ex)"

definition stageEvents :: "world \<Rightarrow> js \<Rightarrow> job_row \<Rightarrow> event_row list" where
  "stageEvents w i j =
     (if reusable (j_transcript j) = None then stageDone w i STAGE_TRANSCRIBE else [])
     @ (if storedReport w j = [] then stageDone w i STAGE_COMPILE else []) @ stageDone w i STAGE_RENDER"

definition delivered :: "app \<Rightarrow> world \<Rightarrow> js \<Rightarrow> js \<Rightarrow> job_row \<Rightarrow> world \<Rightarrow> bool" where
  "delivered A w u i j w' \<longleftrightarrow> (\<exists>j' t n pdf.
     rowOf w' i = Some j' \<and> sameJob j j' \<and> j_status j' = READY \<and> j_pdfKey j' = Some (pdfKey u i)
     \<and> j_errorMessage j' = None \<and> j_transcript j' = Some t \<and> transcribed A (j_transcript j) t
     \<and> compiled A (j_label j) t (storedReport w j) (storedReport w' j')
     \<and> chromiumPdf A n (buildReportHtml (toReportView i (j_label j) (clock w) (storedReport w' j'))) = Inr pdf
     \<and> bucket w' = (bucket w)(pdfKey u i \<mapsto> \<lparr>o_body = pdf, o_contentType = PDF_CONTENT_TYPE\<rparr>)
     \<and> events w' = events w @ stageEvents w i j)"

text \<open>Transcription and compilation, reused or run.\<close>

lemma transcribe_step:
  assumes "quiet w" and "rowOf w i = Some j"
  shows "\<exists>r w'. run (transcribeStage A i key (j_transcript j)) w = (r, w') \<and> quiet w' \<and> others i w' = others i w
    \<and> bucket w' = bucket w \<and> sections w' = sections w \<and> findings w' = findings w \<and> entropy w' = entropy w
    \<and> (reusable (j_transcript j) = None \<longrightarrow> r = speech A key (started i STAGE_TRANSCRIBE TRANSCRIBING w))
    \<and> (case r of Inl e \<Rightarrow> midStage j w' i
       | Inr t \<Rightarrow> transcribed A (j_transcript j) t
           \<and> (\<exists>k. rowOf w' i = Some k \<and> sameJob j k \<and> j_transcript k = Some t)
           \<and> events w' = events w @ (if reusable (j_transcript j) = None then stageDone w i STAGE_TRANSCRIBE else []))"
proof (cases "reusable (j_transcript j)")
  case None
  let ?r = "speech A key (started i STAGE_TRANSCRIBE TRANSCRIBING w)"
  have src: "transcribed A (j_transcript j) t" if "?r = Inr t" for t
    using that None by (auto simp: transcribed_def speech_def split: option.splits if_splits)
  from run_transcribeStage [OF assms None refl] obtain w' where
    "run (transcribeStage A i key (j_transcript j)) w = (?r, w')" "quiet w'" "others i w' = others i w"
    "bucket w' = bucket w" "sections w' = sections w" "findings w' = findings w" "entropy w' = entropy w"
    "rowOf w' i = Some (touch w (case ?r of Inl e \<Rightarrow> j\<lparr>j_status := TRANSCRIBING\<rparr>
         | Inr t \<Rightarrow> j\<lparr>j_status := TRANSCRIBING, j_transcript := Some t\<rparr>))"
    "events w' = events w @ (case ?r of Inl e \<Rightarrow> stageFailed w i STAGE_TRANSCRIBE e
         | Inr t \<Rightarrow> stageDone w i STAGE_TRANSCRIBE)" by blast
  with src None show ?thesis
    by (intro exI [of _ ?r] exI [of _ w']) (cases ?r, auto simp: midStage_def touch_def sameJob_def)
next
  case (Some t)
  then have "j_transcript j = Some t" by (auto simp: reusable_def split: option.splits if_splits)
  with Some assms show ?thesis
    by (intro exI [of _ "Inr t"] exI [of _ w]) (simp add: transcribeStage_reuse transcribed_def)
qed

lemma compile_step:
  assumes "quiet w" and "rowOf w i = Some j" and "inj (uuid A)" and "report_inv A w"
  shows "\<exists>r w'. run (compileStage A i label t (storedReport w j)) w = (r, w') \<and> quiet w' \<and> others i w' = others i w
    \<and> bucket w' = bucket w
    \<and> (storedReport w j = [] \<longrightarrow>
        r = fst (run (compile A \<lparr>ci_label = label, ci_transcript = t\<rparr>) (started i STAGE_COMPILE COMPILING w)))
    \<and> (case r of Inl e \<Rightarrow> midStage j w' i
       | Inr secs \<Rightarrow> compiled A label t (storedReport w j) secs \<and> storedReport w' j = secs
           \<and> (\<exists>k. rowOf w' i = Some k \<and> sameJob j k \<and> j_transcript k = j_transcript j)
           \<and> events w' = events w @ (if storedReport w j = [] then stageDone w i STAGE_COMPILE else []))"
proof (cases "storedReport w j = []")
  case True
  let ?r = "fst (run (compile A \<lparr>ci_label = label, ci_transcript = t\<rparr>) (started i STAGE_COMPILE COMPILING w))"
  have src: "compiled A label t [] secs" if "?r = Inr secs" for secs
    using that by (auto simp: compiled_def)
  from run_compileStage [OF assms refl, of label t] obtain w' where
    "run (compileStage A i label t []) w = (?r, w')" "quiet w'" "others i w' = others i w"
    "bucket w' = bucket w" "rowOf w' i = Some (touch w (j\<lparr>j_status := COMPILING\<rparr>))"
    "case ?r of Inl e \<Rightarrow> storedReport w' j = storedReport w j | Inr secs \<Rightarrow> storedReport w' j = secs"
    "events w' = events w @ (case ?r of Inl e \<Rightarrow> stageFailed w i STAGE_COMPILE e
         | Inr _ \<Rightarrow> stageDone w i STAGE_COMPILE)" by blast
  with src True show ?thesis
    by (intro exI [of _ ?r] exI [of _ w']) (cases ?r, auto simp: midStage_def touch_def sameJob_def)
next
  case False
  with assms show ?thesis
    by (intro exI [of _ "Inr (storedReport w j)"] exI [of _ w]) (simp add: compileStage_def compiled_def)
qed

lemma sameJob_trans: "sameJob j k \<Longrightarrow> sameJob k l \<Longrightarrow> sameJob j l"
  by (simp add: sameJob_def)

lemma midStage_same: "sameJob j k \<Longrightarrow> midStage k w i \<Longrightarrow> midStage j w i"
  unfolding midStage_def using sameJob_trans by blast

lemma render_step:
  assumes "quiet w" and "rowOf w i = Some j"
  shows "\<exists>r w'. run (renderStage A i u label secs) w = (r, w') \<and> quiet w' \<and> others i w' = others i w
    \<and> sections w' = sections w \<and> findings w' = findings w
    \<and> (case r of Inl e \<Rightarrow> midStage j w' i \<and> (\<exists>n html m. chromiumPdf A n html = Inl m)
       | Inr _ \<Rightarrow> rowOf w' i = Some (readyRow w u i j) \<and> events w' = events w @ stageDone w i STAGE_RENDER
           \<and> (\<exists>n pdf. chromiumPdf A n (buildReportHtml (toReportView i label (clock w) secs)) = Inr pdf
                \<and> bucket w' = (bucket w)(pdfKey u i \<mapsto> \<lparr>o_body = pdf, o_contentType = PDF_CONTENT_TYPE\<rparr>)))"
proof -
  let ?r = "printed A i label secs (started i STAGE_RENDER RENDERING w)"
  from run_renderStage [OF assms refl, of A u label secs] obtain w' where
    "run (renderStage A i u label secs) w = (case ?r of Inl m \<Rightarrow> Inl (PlainError m) | Inr _ \<Rightarrow> Inr (), w')"
    "quiet w'" "others i w' = others i w" "sections w' = sections w" "findings w' = findings w"
    "bucket w' = (case ?r of Inl m \<Rightarrow> bucket w
         | Inr pdf \<Rightarrow> (bucket w)(pdfKey u i \<mapsto> \<lparr>o_body = pdf, o_contentType = PDF_CONTENT_TYPE\<rparr>))"
    "rowOf w' i = Some (case ?r of Inl m \<Rightarrow> touch w (j\<lparr>j_status := RENDERING\<rparr>) | Inr _ \<Rightarrow> readyRow w u i j)"
    "events w' = events w @ (case ?r of Inl m \<Rightarrow> stageFailed w i STAGE_RENDER (PlainError m)
         | Inr _ \<Rightarrow> stageDone w i STAGE_RENDER)" by blast
  moreover have "\<exists>n html m. chromiumPdf A n html = Inl m" if "?r = Inl m" for m
    using that unfolding printed_def by blast
  moreover have "\<exists>n. chromiumPdf A n (buildReportHtml (toReportView i label (clock w) secs)) = Inr pdf"
    if "?r = Inr pdf" for pdf
    using that by (auto simp: printed_def)
  ultimately show ?thesis
    by (intro exI [of _ "case ?r of Inl m \<Rightarrow> Inl (PlainError m) | Inr _ \<Rightarrow> Inr ()"] exI [of _ w'])
      (cases ?r, auto simp: midStage_def touch_def sameJob_def)
qed

text \<open>The outside services answer every call, and the store hands out what it has with its body.\<close>

definition servicesUp :: "app \<Rightarrow> bool" where
  "servicesUp A \<longleftrightarrow> (\<forall>key. \<not> noBody A key) \<and> (\<forall>body key v. \<exists>t. fst (run (transcribe A body key) v) = Inr t)
     \<and> (\<forall>input v. \<exists>secs. fst (run (compile A input) v) = Inr secs)
     \<and> (\<forall>n html. \<exists>pdf. chromiumPdf A n html = Inr pdf)"

text \<open>The outcome of the three stages put together, each read in the world its stage left.\<close>

lemma delivered_stages:
  assumes k: "sameJob j k" "j_transcript k = Some t1" and l: "sameJob k l" "j_transcript l = j_transcript k"
    and tr: "transcribed A (j_transcript j) t1"
    and cp: "compiled A (j_label j) t1 (storedReport w j) secs" "storedReport w2 k = secs"
    and clk: "clock w1 = clock w" "clock w2 = clock w" and bk: "bucket w2 = bucket w"
    and ev: "events w1 = events w @ (if reusable (j_transcript j) = None then stageDone w i STAGE_TRANSCRIBE else [])"
      "events w2 = events w1 @ (if storedReport w j = [] then stageDone w1 i STAGE_COMPILE else [])"
      "events w3 = events w2 @ stageDone w2 i STAGE_RENDER"
    and w3: "rowOf w3 i = Some (readyRow w2 u i l)" "sections w3 = sections w2" "findings w3 = findings w2"
    and pdf: "chromiumPdf A n (buildReportHtml (toReportView i (j_label j) (clock w2) secs)) = Inr pdf"
      "bucket w3 = (bucket w2)(pdfKey u i \<mapsto> \<lparr>o_body = pdf, o_contentType = PDF_CONTENT_TYPE\<rparr>)"
  shows "delivered A w u i j w3"
proof -
  have jl: "sameJob j l" by (rule sameJob_trans [OF k(1) l(1)])
  have "j_id (readyRow w2 u i l) = j_id k" using l(1) by (simp add: readyRow_def touch_def sameJob_def)
  then have st: "storedReport w3 (readyRow w2 u i l) = secs" using storedReport_cong [OF w3(2,3)] cp(2) by simp
  have sd: "stageDone w1 i = stageDone w i" "stageDone w2 i = stageDone w i"
    using clk by (auto simp: stageDone_def event_def)
  show ?thesis
    unfolding delivered_def
  proof (intro exI conjI)
    show "rowOf w3 i = Some (readyRow w2 u i l)" by (fact w3(1))
    show "chromiumPdf A n (buildReportHtml (toReportView i (j_label j) (clock w)
        (storedReport w3 (readyRow w2 u i l)))) = Inr pdf" unfolding st using pdf(1) clk(2) by simp
    show "transcribed A (j_transcript j) t1" by (fact tr)
    show "sameJob j (readyRow w2 u i l)" using jl by simp
    show "events w3 = events w @ stageEvents w i j" by (simp add: ev sd stageEvents_def)
  qed (use pdf(2) bk jl st cp k l in \<open>simp_all add: readyRow_def touch_def\<close>)
qed

text \<open>Compiling and rendering, once there is a transcript.\<close>

lemma render_delivers:
  assumes w2: "quiet w2" "rowOf w2 i = Some l"
    and k: "sameJob j k" "j_transcript k = Some t1" and l: "sameJob k l" "j_transcript l = j_transcript k"
    and tr: "transcribed A (j_transcript j) t1"
    and cp: "compiled A (j_label j) t1 (storedReport w j) secs" "storedReport w2 k = secs"
    and clk: "clock w1 = clock w" "clock w2 = clock w" and bk: "bucket w2 = bucket w"
    and ev: "events w1 = events w @ (if reusable (j_transcript j) = None then stageDone w i STAGE_TRANSCRIBE else [])"
      "events w2 = events w1 @ (if storedReport w j = [] then stageDone w1 i STAGE_COMPILE else [])"
  shows "\<exists>r w'. run (renderStage A i u (j_label j) secs) w2 = (r, w') \<and> quiet w' \<and> others i w' = others i w2
    \<and> (case r of Inl e \<Rightarrow> midStage j w' i | Inr _ \<Rightarrow> delivered A w u i j w') \<and> (servicesUp A \<longrightarrow> r = Inr ())"
proof -
  from render_step [OF w2, of A u "j_label j" secs] obtain r w3 where
    r: "run (renderStage A i u (j_label j) secs) w2 = (r, w3)" "quiet w3" "others i w3 = others i w2"
      "sections w3 = sections w2" "findings w3 = findings w2"
    and r3: "case r of Inl e \<Rightarrow> midStage l w3 i \<and> (\<exists>n html m. chromiumPdf A n html = Inl m)
      | Inr _ \<Rightarrow> rowOf w3 i = Some (readyRow w2 u i l) \<and> events w3 = events w2 @ stageDone w2 i STAGE_RENDER
        \<and> (\<exists>n pdf. chromiumPdf A n (buildReportHtml (toReportView i (j_label j) (clock w2) secs)) = Inr pdf
          \<and> bucket w3 = (bucket w2)(pdfKey u i \<mapsto> \<lparr>o_body = pdf, o_contentType = PDF_CONTENT_TYPE\<rparr>))"
    by - (elim exE conjE, rule that, (assumption | rule conjI)+)
  have "case r of Inl e \<Rightarrow> midStage j w3 i | Inr _ \<Rightarrow> delivered A w u i j w3"
  proof (cases r)
    case (Inl e)
    with r3 midStage_same [OF sameJob_trans [OF k(1) l(1)]] show ?thesis by simp
  next
    case (Inr x)
    with r3 delivered_stages [OF k l tr cp clk bk ev _ _ r(4,5)] show ?thesis by auto
  qed
  moreover have "servicesUp A \<longrightarrow> r = Inr ()" using r3 by (cases r) (auto simp: servicesUp_def, metis Inl_Inr_False)
  ultimately show ?thesis using r by blast
qed

lemma run_compile_render:
  assumes q: "quiet w1" and k: "rowOf w1 i = Some k" "sameJob j k" "j_transcript k = Some t1"
    and A: "inj (uuid A)" "report_inv A w1" and tr: "transcribed A (j_transcript j) t1"
    and same: "clock w1 = clock w" "bucket w1 = bucket w" "storedReport w1 k = storedReport w j"
    and ev1: "events w1 = events w @ (if reusable (j_transcript j) = None then stageDone w i STAGE_TRANSCRIBE else [])"
  shows "\<exists>r w'. run (bindP (compileStage A i (j_label j) t1 (storedReport w j)) (renderStage A i u (j_label j))) w1 = (r, w')
    \<and> quiet w' \<and> others i w' = others i w1
    \<and> (case r of Inl e \<Rightarrow> midStage j w' i | Inr _ \<Rightarrow> delivered A w u i j w') \<and> (servicesUp A \<longrightarrow> r = Inr ())"
proof -
  from compile_step [OF q k(1) A, of "j_label j" t1] obtain r2 w2 where
    c: "run (compileStage A i (j_label j) t1 (storedReport w j)) w1 = (r2, w2)" "quiet w2"
      "others i w2 = others i w1" "bucket w2 = bucket w1"
    and r2: "storedReport w j = [] \<longrightarrow> r2 = fst (run (compile A \<lparr>ci_label = j_label j, ci_transcript = t1\<rparr>)
        (started i STAGE_COMPILE COMPILING w1))"
      "case r2 of Inl e \<Rightarrow> midStage k w2 i
        | Inr secs \<Rightarrow> compiled A (j_label j) t1 (storedReport w j) secs \<and> storedReport w2 k = secs
          \<and> (\<exists>l. rowOf w2 i = Some l \<and> sameJob k l \<and> j_transcript l = j_transcript k)
          \<and> events w2 = events w1 @ (if storedReport w j = [] then stageDone w1 i STAGE_COMPILE else [])"
    unfolding same(3) by - (elim exE conjE, rule that, (assumption | rule conjI)+)
  show ?thesis
  proof (cases r2)
    case (Inl e)
    have "\<not> servicesUp A"
    proof
      assume up: "servicesUp A"
      have "storedReport w j = []" using c(1) Inl by (auto simp: compileStage_def split: if_splits)
      with r2(1) Inl up show False by (auto simp: servicesUp_def) (metis Inl_Inr_False)
    qed
    with c r2 Inl midStage_same [OF k(2)] show ?thesis by (intro exI [of _ "Inl e"] exI [of _ w2]) simp
  next
    case (Inr secs)
    with r2 obtain l where l: "rowOf w2 i = Some l" "sameJob k l" "j_transcript l = j_transcript k"
      and cp: "compiled A (j_label j) t1 (storedReport w j) secs" "storedReport w2 k = secs"
      and ev2: "events w2 = events w1 @ (if storedReport w j = [] then stageDone w1 i STAGE_COMPILE else [])"
      by auto
    have "clock w2 = clock w" "bucket w2 = bucket w" using others_clock c(3,4) same(1,2) by metis+
    from render_delivers [OF c(2) l(1) k(2,3) l(2,3) tr cp same(1) this ev1 ev2, of u]
    show ?thesis using c Inr by auto
  qed
qed

lemma run_stages:
  assumes w: "quiet w" and j: "rowOf w (pj_jobId d) = Some j" and A: "inj (uuid A)" "report_inv A w"
  shows "\<exists>r w'. run (stages A d (JOB_REPORT_INCLUDE w j) key) w = (r, w') \<and> quiet w'
    \<and> others (pj_jobId d) w' = others (pj_jobId d) w
    \<and> (case r of Inl e \<Rightarrow> midStage j w' (pj_jobId d) | Inr _ \<Rightarrow> delivered A w (pj_userId d) (pj_jobId d) j w')
    \<and> (servicesUp A \<longrightarrow> bucket w key \<noteq> None \<longrightarrow> r = Inr ())"
proof -
  let ?i = "pj_jobId d" and ?u = "pj_userId d"
  note run_def = stages_def existingReport_include storedReport_def [symmetric]
  from transcribe_step [OF w j, of A key] obtain r1 w1 where
    t: "run (transcribeStage A ?i key (j_transcript j)) w = (r1, w1)" "quiet w1" "others ?i w1 = others ?i w"
      "bucket w1 = bucket w" "sections w1 = sections w" "findings w1 = findings w" "entropy w1 = entropy w"
    and r1: "reusable (j_transcript j) = None \<longrightarrow> r1 = speech A key (started ?i STAGE_TRANSCRIBE TRANSCRIBING w)"
      "case r1 of Inl e \<Rightarrow> midStage j w1 ?i
       | Inr t \<Rightarrow> transcribed A (j_transcript j) t
           \<and> (\<exists>k. rowOf w1 ?i = Some k \<and> sameJob j k \<and> j_transcript k = Some t)
           \<and> events w1 = events w @ (if reusable (j_transcript j) = None then stageDone w ?i STAGE_TRANSCRIBE else [])"
    by - (elim exE conjE, rule that, (assumption | rule conjI)+)
  show ?thesis
  proof (cases r1)
    case (Inl e)
    have "\<not> (servicesUp A \<and> bucket w key \<noteq> None)"
    proof
      assume up: "servicesUp A \<and> bucket w key \<noteq> None"
      have "reusable (j_transcript j) = None"
        using t(1) Inl by (cases "reusable (j_transcript j)") (auto simp: transcribeStage_reuse)
      with r1(1) Inl up show False by (auto simp: speech_def servicesUp_def) (metis Inl_Inr_False)
    qed
    with t r1 Inl show ?thesis by (intro exI [of _ "Inl e"] exI [of _ w1]) (simp add: run_def)
  next
    case (Inr t1)
    with r1 obtain k where k: "rowOf w1 ?i = Some k" "sameJob j k" "j_transcript k = Some t1"
      and tr: "transcribed A (j_transcript j) t1"
      and ev1: "events w1 = events w @ (if reusable (j_transcript j) = None then stageDone w ?i STAGE_TRANSCRIBE else [])"
      by auto
    have s1: "storedReport w1 k = storedReport w j"
      by (rule storedReport_cong) (use t k(2) in \<open>simp_all add: sameJob_def\<close>)
    have "report_inv A w1" using A(2) t by (simp add: report_inv_def)
    moreover have "clock w1 = clock w" using others_clock t(3) by metis
    ultimately obtain r w' where
      "run (bindP (compileStage A ?i (j_label j) t1 (storedReport w j)) (renderStage A ?i ?u (j_label j))) w1 = (r, w')"
      "quiet w' \<and> others ?i w' = others ?i w1
        \<and> (case r of Inl e \<Rightarrow> midStage j w' ?i | Inr _ \<Rightarrow> delivered A w ?u ?i j w') \<and> (servicesUp A \<longrightarrow> r = Inr ())"
      using run_compile_render [OF t(2) k A(1) _ tr _ t(4) s1 ev1, of ?u] by blast
    with t Inr show ?thesis by (intro exI [of _ r] exI [of _ w'] conjI) (auto simp: run_def)
  qed
qed

section \<open>The guards, delivery and failure\<close>

lemma run_runPipeline:
  assumes "faults w = []"
  shows "run (runPipeline A d) w = (case rowOf w (pj_jobId d) of
      None \<Rightarrow> (Inr (), w)
    | Some j \<Rightarrow>
        if j_deletedAt j \<noteq> None then (Inr (), w)
        else if j_userId j \<noteq> pj_userId d then (Inl (ownerMismatch (pj_jobId d)), w)
        else if j_status j = READY then (Inr (), w)
        else (case j_audioKey j of None \<Rightarrow> (Inl (noAudioKey (pj_jobId d)), w) | Some key \<Rightarrow>
          if \<not> truthy key then (Inl (noAudioKey (pj_jobId d)), w)
          else (case run (stages A d (JOB_REPORT_INCLUDE w j) key) w of
            (Inr a, w') \<Rightarrow> (Inr a, w')
          | (Inl e, w') \<Rightarrow> if isPermanent e
              then (case run (markFailed A (pj_jobId d) (err_message e)) w' of
                (Inr _, w'') \<Rightarrow> (Inl (asUnrecoverable e), w'') | (Inl e', w'') \<Rightarrow> (Inl e', w''))
              else (Inl e, w'))))"
proof (cases "rowOf w (pj_jobId d)")
  case None
  with assms show ?thesis by (simp add: runPipeline_def run_findById)
next
  case (Some j)
  with assms show ?thesis
    by (cases "j_audioKey j") (auto simp: runPipeline_def run_findById JOB_REPORT_INCLUDE_def
        split: prod.splits sum.splits if_splits)
qed

text \<open>
  C16. The guards of the worker, in their order: a job that is gone, deleted or already READY is a no-op; a payload
  whose owner is not the row's is refused, before the status is looked at, with an error that is not retried. In
  all these cases nothing is written at all.
\<close>

theorem pipeline_guards:
  assumes "faults w = []"
    and "case rowOf w (pj_jobId d) of None \<Rightarrow> True
      | Some j \<Rightarrow> j_deletedAt j \<noteq> None \<or> j_userId j \<noteq> pj_userId d \<or> j_status j = READY"
  shows "run (runPipeline A d) w = (case rowOf w (pj_jobId d) of None \<Rightarrow> Inr ()
      | Some j \<Rightarrow> if j_deletedAt j = None \<and> j_userId j \<noteq> pj_userId d
          then Inl (ownerMismatch (pj_jobId d)) else Inr (), w)"
  using assms by (auto simp: run_runPipeline split: option.splits)

lemma sample_rows [simp]: "rowOf sampleWorld (lit ''j1'') = Some sampleJob" "rowOf sampleWorld (lit ''j2'') = Some sampleReady"
  by (simp_all add: rowOf_def lit_unfold)

theorem pipeline_guards_witness:
  "run (runPipeline sampleApp \<lparr>pj_jobId = lit ''j1'', pj_userId = lit ''u2''\<rparr>) sampleWorld
     = (Inl (ownerMismatch (lit ''j1'')), sampleWorld)
   \<and> run (runPipeline sampleApp \<lparr>pj_jobId = lit ''j2'', pj_userId = lit ''u1''\<rparr>) sampleWorld = (Inr (), sampleWorld)"
proof -
  have "lit ''u1'' \<noteq> lit ''u2''" by (simp add: lit_unfold)
  then show ?thesis
    using pipeline_guards [of sampleWorld "\<lparr>pj_jobId = lit ''j1'', pj_userId = lit ''u2''\<rparr>" sampleApp]
      pipeline_guards [of sampleWorld "\<lparr>pj_jobId = lit ''j2'', pj_userId = lit ''u1''\<rparr>" sampleApp] by simp
qed

text \<open>Marking a job failed.\<close>

definition failedRow :: "world \<Rightarrow> js \<Rightarrow> job_row \<Rightarrow> job_row" where
  "failedRow w m j = touch w (j\<lparr>j_status := FAILED, j_errorMessage := Some (take 1000 m)\<rparr>)"

lemma run_markFailed:
  assumes "faults w = []" and "rowOf w i = Some j"
  shows "\<exists>w'. run (markFailed A i m) w = (Inr (), w') \<and> faults w' = [] \<and> deadlines w' = deadlines w
    \<and> others i w' = others i w \<and> bucket w' = bucket w \<and> sections w' = sections w \<and> findings w' = findings w
    \<and> (if j_status j = FAILED then w' = w
       else rowOf w' i = Some (failedRow w m j)
         \<and> events w' = events w @ [event w i (lit ''pipeline'') ''failed'' (Some (take 1000 m))])"
proof (cases "j_status j = FAILED")
  case True
  with assms show ?thesis by (simp add: markFailed_def run_rawById)
next
  case False
  let ?f = "\<lambda>j. j\<lparr>j_status := FAILED, j_errorMessage := Some (take 1000 m)\<rparr>"
  have "run (setStatus A i FAILED (Given (take 1000 m))) w = (Inr (), setRow i ?f w)"
    using assms by (simp add: setStatus_def run_updateJob Let_def)
  moreover have "run (addEvent A i s ''failed'' e) (setRow i ?f w) = (Inr (), logged i s ''failed'' e (setRow i ?f w))" for s e
    using assms by (simp add: run_addEvent)
  ultimately have "run (markFailed A i m) w
      = (Inr (), logged i (lit ''pipeline'') ''failed'' (Some (take 1000 m)) (setRow i ?f w))"
    using assms False by (simp add: markFailed_def run_rawById Let_def)
  moreover have "events (logged i s t e (setRow i ?f w)) = events w @ [event w i s t e]" for s t e
    by (simp add: logged_def event_def)
  ultimately show ?thesis using assms False by (simp add: failedRow_def)
qed

text \<open>
  Failure is recorded once: marking a job failed when it already is changes nothing, so that the pipeline and
  the queue listener together leave one \<^verbatim>\<open>failed\<close> event; after marking, the job is FAILED with the message cut to
  1000 units.
\<close>

theorem markFailed_once:
  assumes "faults w = []" and "rowOf w i = Some j" and "j_status j \<noteq> FAILED"
  shows "\<exists>w'. run (markFailed A i m) w = (Inr (), w') \<and> rowOf w' i = Some (failedRow w m j)
    \<and> events w' = events w @ [event w i (lit ''pipeline'') ''failed'' (Some (take 1000 m))]
    \<and> (\<forall>m2. run (markFailed A i m2) w' = (Inr (), w'))"
proof -
  from run_markFailed [OF assms(1,2), of A m] assms(3) obtain w' where w':
    "run (markFailed A i m) w = (Inr (), w')" "faults w' = []" "rowOf w' i = Some (failedRow w m j)"
    "events w' = events w @ [event w i (lit ''pipeline'') ''failed'' (Some (take 1000 m))]" by auto
  moreover have "run (markFailed A i m2) w' = (Inr (), w')" for m2
    using run_markFailed [OF w'(2,3), of A m2] by (simp add: failedRow_def touch_def)
  ultimately show ?thesis by blast
qed

theorem markFailed_once_witness:
  "\<exists>w'. run (markFailed sampleApp (lit ''j1'') (lit ''no'')) sampleWorld = (Inr (), w')
    \<and> rowOf w' (lit ''j1'') = Some (failedRow sampleWorld (lit ''no'') sampleJob)"
  using markFailed_once [of sampleWorld "lit ''j1''" sampleJob sampleApp "lit ''no''"] by auto

text \<open>A job the worker has to work on: live, of the payload's owner, with an audio key, and not READY.\<close>

definition pending :: "world \<Rightarrow> ProcessJobData \<Rightarrow> job_row \<Rightarrow> bool" where
  "pending w d j \<longleftrightarrow> rowOf w (pj_jobId d) = Some j \<and> j_deletedAt j = None \<and> j_userId j = pj_userId d
     \<and> j_status j \<noteq> READY \<and> j_audioKey j = Some (audioKey (pj_userId d) (pj_jobId d))"

lemma inv_report_inv: "inv A w \<Longrightarrow> report_inv A w"
  by (simp add: inv_def report_inv_def)

lemma run_pending:
  assumes "quiet w" and "inv A w" and "inj (uuid A)" and "pending w d j"
  shows "\<exists>r w'. run (runPipeline A d) w = (r, w') \<and> quiet w' \<and> others (pj_jobId d) w' = others (pj_jobId d) w
    \<and> (case r of Inr _ \<Rightarrow> delivered A w (pj_userId d) (pj_jobId d) j w'
       | Inl e \<Rightarrow> if isUnrecoverable e
           then \<exists>k. rowOf w' (pj_jobId d) = Some k \<and> sameJob j k \<and> j_status k = FAILED
              \<and> j_errorMessage k = Some (take 1000 (err_message e))
           else midStage j w' (pj_jobId d))
    \<and> (servicesUp A \<longrightarrow> bucket w (audioKey (pj_userId d) (pj_jobId d)) \<noteq> None \<longrightarrow> r = Inr ())"
proof -
  let ?i = "pj_jobId d" and ?key = "audioKey (pj_userId d) (pj_jobId d)"
  have j: "rowOf w ?i = Some j" using assms(4) by (simp add: pending_def)
  from run_stages [OF assms(1) j assms(3) inv_report_inv [OF assms(2)], of ?key] obtain r w' where
    s: "run (stages A d (JOB_REPORT_INCLUDE w j) ?key) w = (r, w')" "quiet w'" "others ?i w' = others ?i w"
      "case r of Inl e \<Rightarrow> midStage j w' ?i | Inr _ \<Rightarrow> delivered A w (pj_userId d) ?i j w'"
      "servicesUp A \<longrightarrow> bucket w ?key \<noteq> None \<longrightarrow> r = Inr ()" by blast
  have run: "run (runPipeline A d) w = (case r of Inr a \<Rightarrow> (Inr a, w')
      | Inl e \<Rightarrow> if isPermanent e
          then (case run (markFailed A ?i (err_message e)) w' of
            (Inr _, w'') \<Rightarrow> (Inl (asUnrecoverable e), w'') | (Inl e', w'') \<Rightarrow> (Inl e', w''))
          else (Inl e, w'))"
    using assms(1,4) s(1) by (simp add: run_runPipeline pending_def split: sum.split)
  show ?thesis
  proof (cases "\<exists>e. r = Inl e \<and> isPermanent e")
    case False
    have "\<not> isUnrecoverable e" if "r = Inl e" for e using False that by (cases e) auto
    with False run s show ?thesis by (intro exI [of _ r] exI [of _ w']) (auto split: sum.splits)
  next
    case True
    then obtain e where e: "r = Inl e" "isPermanent e" by blast
    with s obtain k where k: "rowOf w' ?i = Some k" "sameJob j k" "j_status k \<in> {TRANSCRIBING, COMPILING, RENDERING}"
      by (auto simp: midStage_def)
    from run_markFailed [OF conjunct1 [OF s(2)] k(1), of A "err_message e"] k(3) obtain v where v:
      "run (markFailed A ?i (err_message e)) w' = (Inr (), v)" "faults v = []" "deadlines v = deadlines w'"
      "others ?i v = others ?i w'" "rowOf v ?i = Some (failedRow w' (err_message e) k)"
      by (auto split: if_splits)
    have m: "isUnrecoverable (asUnrecoverable e)" "err_message (asUnrecoverable e) = err_message e"
      by (cases e; simp add: asUnrecoverable_def)+
    have "sameJob j (failedRow w' (err_message e) k)" using k(2) by (auto simp: sameJob_def failedRow_def touch_def)
    with v m e run s show ?thesis
      by (intro exI [of _ "Inl (asUnrecoverable e)"] exI [of _ v]) (simp add: failedRow_def touch_def)
  qed
qed

text \<open>
  C13. Delivery: with the speech, model and rendering services up and the audio in the bucket, processing a pending
  job succeeds; the job is READY, its PDF is the printed document of the stored report under the job's key, a
  usable transcript and a stored report are reused without running their stage, and each stage that ran
  left its two events, in order. No other job's row and no other object is touched.
\<close>

theorem pipeline_delivers:
  assumes "quiet w" and "inv A w" and "inj (uuid A)" and "pending w d j"
    and "servicesUp A" and "bucket w (audioKey (pj_userId d) (pj_jobId d)) \<noteq> None"
  shows "\<exists>w'. run (runPipeline A d) w = (Inr (), w') \<and> delivered A w (pj_userId d) (pj_jobId d) j w'
    \<and> filter (\<lambda>k. j_id k \<noteq> pj_jobId d) (jobs w') = filter (\<lambda>k. j_id k \<noteq> pj_jobId d) (jobs w)"
proof -
  from run_pending [OF assms(1-4)] assms(5,6) obtain r w' where
    "run (runPipeline A d) w = (r, w')" "others (pj_jobId d) w' = others (pj_jobId d) w" "r = Inr ()"
    "case r of Inr _ \<Rightarrow> delivered A w (pj_userId d) (pj_jobId d) j w'
       | Inl e \<Rightarrow> if isUnrecoverable e
           then \<exists>k. rowOf w' (pj_jobId d) = Some k \<and> sameJob j k \<and> j_status k = FAILED
              \<and> j_errorMessage k = Some (take 1000 (err_message e))
           else midStage j w' (pj_jobId d)" by blast
  then show ?thesis by (auto simp: others_def)
qed

lemma sample_services: "servicesUp sampleApp"
proof -
  have "truthy (js_trim (lit ''the roof leaks''))" by (simp add: js_trim_def js_space_def lit_unfold)
  then have "\<exists>t. fst (run (transcribe sampleApp body key) v) = Inr t" for body key v
    by (simp add: transcribe_def transcribeWith_def sttProvider_def deepgramTranscribe_def Let_def
        sampleApp_def sampleConfig_def)
  moreover have "chromiumPdf sampleApp n html = Inr [1, 2, 3]" "\<not> noBody sampleApp key" for n html key
    by (simp_all add: sampleApp_def)
  ultimately show ?thesis by (simp add: servicesUp_def sample_compile)
qed

theorem pipeline_delivers_witness:
  "\<exists>w'. run (runPipeline sampleApp \<lparr>pj_jobId = lit ''j1'', pj_userId = lit ''u1''\<rparr>) sampleWorld = (Inr (), w')
    \<and> delivered sampleApp sampleWorld (lit ''u1'') (lit ''j1'') sampleJob w'"
proof -
  let ?d = "\<lparr>pj_jobId = lit ''j1'', pj_userId = lit ''u1''\<rparr>"
  have "pending sampleWorld ?d sampleJob" by (simp add: pending_def)
  moreover have "bucket sampleWorld (audioKey (lit ''u1'') (lit ''j1'')) \<noteq> None" by (simp add: sampleWorld_def)
  ultimately show ?thesis
    using pipeline_delivers [of sampleWorld sampleApp ?d sampleJob, OF _ sample_inv sample_inj _ sample_services] by auto
qed

end
