(* ===== verification/Worker_Behaviour.thy ===== *)
theory Worker_Behaviour
  imports Pipeline_Behaviour
begin

text \<open>
  The consumer: how one attempt at a queued job ends, that repeated attempts end, and what the stage timer can
  still change after a job has been given up.
\<close>

section \<open>Programs that leave nothing running\<close>

text \<open>With no timer set, no stage is abandoned.\<close>

definition serene :: "'a io \<Rightarrow> bool" where
  "serene p \<longleftrightarrow> (\<forall>w. deadlines w = [] \<longrightarrow> spawnless p w \<and> deadlines (snd (run p w)) = [])"

named_theorems serene_intros

lemma serene_Ret [serene_intros]: "serene (Ret a)"
  and serene_Throw [serene_intros]: "serene (Throw e)"
  by (simp_all add: serene_def)

lemma serene_bind [serene_intros]: "serene p \<Longrightarrow> (\<And>a. serene (k a)) \<Longrightarrow> serene (bindP p k)"
  unfolding serene_def
proof (intro allI impI)
  fix w :: world
  assume p: "\<forall>w. deadlines w = [] \<longrightarrow> spawnless p w \<and> deadlines (snd (run p w)) = []"
    and k: "\<And>a. \<forall>w. deadlines w = [] \<longrightarrow> spawnless (k a) w \<and> deadlines (snd (run (k a) w)) = []"
    and w: "deadlines w = []"
  obtain r v where r: "run p w = (r, v)" by (metis prod.exhaust)
  with p w have "spawnless p w" "deadlines v = []" by (metis snd_conv)+
  with k r show "spawnless (bindP p k) w \<and> deadlines (snd (run (bindP p k) w)) = []"
    by (cases r) (auto simp: spawnless_bindP)
qed

lemma serene_seq [serene_intros]: "serene p \<Longrightarrow> serene q \<Longrightarrow> serene (seqP p q)"
  unfolding seqP_def by (rule serene_bind)

lemma serene_catch [serene_intros]: "serene p \<Longrightarrow> (\<And>e. serene (h e)) \<Longrightarrow> serene (catchP p h)"
  unfolding serene_def
proof (intro allI impI)
  fix w :: world
  assume p: "\<forall>w. deadlines w = [] \<longrightarrow> spawnless p w \<and> deadlines (snd (run p w)) = []"
    and h: "\<And>e. \<forall>w. deadlines w = [] \<longrightarrow> spawnless (h e) w \<and> deadlines (snd (run (h e) w)) = []"
    and w: "deadlines w = []"
  obtain r v where r: "run p w = (r, v)" by (metis prod.exhaust)
  with p w have "spawnless p w" "deadlines v = []" by (metis snd_conv)+
  with h r show "spawnless (catchP p h) w \<and> deadlines (snd (run (catchP p h) w)) = []"
    by (cases r) (auto simp: spawnless_catchP)
qed

lemma serene_call: "(\<And>w. deadlines w = [] \<Longrightarrow> deadlines (snd (f w)) = []) \<Longrightarrow> serene (call f)"
  by (simp add: serene_def)

lemma serene_remote: "(\<And>w. deadlines w = [] \<Longrightarrow> deadlines (snd (f w)) = []) \<Longrightarrow> serene (remote f)"
  unfolding remote_def by (rule serene_call) (simp split: list.split fault.split)

lemma serene_query [serene_intros]: "serene (query f)"
  unfolding query_def by (rule serene_remote) simp

lemma serene_command: "(\<And>w. deadlines (f w) = deadlines w) \<Longrightarrow> serene (command f)"
  unfolding command_def by (rule serene_remote) simp

lemma serene_transaction: "(\<And>w. deadlines (snd (f w)) = deadlines w) \<Longrightarrow> serene (transaction f)"
proof -
  assume f: "\<And>w. deadlines (snd (f w)) = deadlines w"
  have "deadlines (snd (case f w of (Inl e, w') \<Rightarrow> (Inl e, w\<lparr>entropy := entropy w'\<rparr>) | (Inr a, w') \<Rightarrow> (Inr a, w'))) = []"
    if "deadlines w = []" for w
    using f [of w] that by (auto split: prod.split sum.split)
  then show ?thesis unfolding transaction_def by (rule serene_remote)
qed

lemma serene_now [serene_intros]: "serene now"
  and serene_modelCall [serene_intros]: "serene modelCall"
  unfolding now_def modelCall_def by (rule serene_call; simp)+

lemma serene_updateJob [serene_intros]: "serene (updateJob A i f)"
  unfolding updateJob_def by (rule serene_remote) simp

lemma serene_setStatus [serene_intros]: "serene (setStatus A i s m)"
  and serene_saveTranscript [serene_intros]: "serene (saveTranscript A i t)"
  and serene_setPdfReady [serene_intros]: "serene (setPdfReady A i k)"
  unfolding setStatus_def saveTranscript_def setPdfReady_def by (rule serene_updateJob)+

lemma serene_addEvent [serene_intros]: "serene (addEvent A i s t m)"
  unfolding addEvent_def by (rule serene_remote) simp

lemma serene_getObjectStream [serene_intros]: "serene (getObjectStream A k)"
  unfolding getObjectStream_def by (rule serene_remote) (simp split: option.split)

lemma serene_putObject [serene_intros]: "serene (putObject k b c)"
  unfolding putObject_def by (rule serene_command) simp

lemma serene_find [serene_intros]: "serene (findById i)" "serene (rawById i)"
  unfolding findById_def rawById_def by (rule serene_query)+

definition txKeeps :: "'a tx \<Rightarrow> bool" where
  "txKeeps f \<longleftrightarrow> (\<forall>w. deadlines (snd (f w)) = deadlines w)"

lemma txKeeps_bind: "txKeeps f \<Longrightarrow> (\<And>a. txKeeps (g a)) \<Longrightarrow> txKeeps (txBind f g)"
  unfolding txKeeps_def txBind_def by (metis (mono_tags, lifting) case_prod_conv old.sum.simps(5,6) snd_conv split_pairs sumE)

lemma txKeeps_insertSections: "txKeeps (insertSections A i n secs)"
proof (induction secs arbitrary: n)
  case (Cons sec rest)
  have "txKeeps (createSection A i t m)" "txKeeps (createFindings A sid fs)" "txKeeps (\<lambda>w. (Inr (), w))" for t m sid fs
    by (auto simp: txKeeps_def createSection_def createFindings_def Let_def)
  with Cons show ?case by (auto intro!: txKeeps_bind)
qed (simp add: txKeeps_def)

lemma serene_replaceReport [serene_intros]: "serene (replaceReport A i secs)"
proof -
  have "txKeeps (deleteFindings i)" "txKeeps (deleteSections i)"
    by (simp_all add: txKeeps_def deleteFindings_def deleteSections_def)
  then have "txKeeps (txBind (deleteFindings i) (\<lambda>_. txBind (deleteSections i) (\<lambda>_. insertSections A i 0 secs)))"
    by (intro txKeeps_bind txKeeps_insertSections)
  then show ?thesis unfolding replaceReport_def txKeeps_def by (intro serene_transaction) simp
qed

lemma serene_option: "(f = None \<Longrightarrow> serene p) \<Longrightarrow> (\<And>x. f = Some x \<Longrightarrow> serene (q x)) \<Longrightarrow>
    serene (case f of None \<Rightarrow> p | Some x \<Rightarrow> q x)"
  by (cases f) auto

lemma serene_if: "serene p \<Longrightarrow> serene q \<Longrightarrow> serene (if c then p else q)"
  by simp

lemmas serene_cases = serene_option serene_if

lemma serene_transcribe [serene_intros]: "serene (transcribe A b f)"
proof -
  have "serene (deepgramTranscribe A b f)" "serene (openaiTranscription A b f)" "serene (mockTranscribe b f)"
    unfolding deepgramTranscribe_def openaiTranscription_def mockTranscribe_def
    by (auto intro!: serene_intros split: deepgram_outcome.split openai_outcome.split)
  then show ?thesis
    by (auto simp: transcribe_def transcribeWith_def sttProvider_def Let_def intro!: serene_intros)
qed

lemma serene_compile [serene_intros]: "serene (compile A input)"
proof -
  have "serene (compilerProvider A input h)" for h
    by (auto simp: compilerProvider_def mockCompile_def deepseekCompile_def Let_def intro!: serene_intros
        split: sum.split option.split)
  then show ?thesis by (auto simp: compile_def compileWith_def Let_def intro!: serene_intros)
qed

lemma serene_render [serene_intros]: "serene (render A v)"
  by (auto simp: render_def Let_def intro!: serene_intros split: sum.split)

lemma serene_withTimeout [serene_intros]:
  assumes "serene p"
  shows "serene (withTimeout p ms stage)"
proof -
  have "run nextDeadline w = (Inr None, w)" if "deadlines w = []" for w
    using that by (simp add: nextDeadline_def)
  then show ?thesis
    using assms by (auto simp: serene_def withTimeout_def spawnless_bindP nextDeadline_def)
qed

lemma serene_runStage [serene_intros]: "serene fn \<Longrightarrow> serene (runStage A i stage st fn)"
  unfolding runStage_def by (intro serene_intros)

lemma serene_stages [serene_intros]: "serene (stages A d job key)"
  unfolding stages_def transcribeStage_def compileStage_def renderStage_def Let_def
  by (intro serene_intros serene_cases)

lemma serene_markFailed [serene_intros]: "serene (markFailed A i m)"
  unfolding markFailed_def Let_def by (intro serene_intros serene_cases)

lemma serene_runPipeline [serene_intros]: "serene (runPipeline A d)"
  unfolding runPipeline_def by (intro serene_intros serene_cases)

lemma serene_handleFailure [serene_intros]: "serene (handleFailure A job e)"
proof -
  have "serene (addToDlq x)" for x
    unfolding addToDlq_def by (rule serene_command) simp
  then show ?thesis unfolding handleFailure_def by (intro serene_intros serene_cases)
qed

lemma serene_attempt [serene_intros]: "serene p \<Longrightarrow> serene (attempt p)"
  unfolding attempt_def by (intro serene_intros)

section \<open>One attempt\<close>

definition queued :: "world \<Rightarrow> js \<Rightarrow> bull_job option" where
  "queued w i = find (\<lambda>b. b_id b = i) (queue w)"

lemma find_upd_b_id:
  "(\<And>b. b_id (f b) = b_id b) \<Longrightarrow> find (\<lambda>b. b_id b = i) (upd P f q) =
    map_option (\<lambda>b. if P b then f b else b) (find (\<lambda>b. b_id b = i) q)"
  by (induction q) (auto simp: upd_def)

definition dlqEntry :: "bull_job \<Rightarrow> err \<Rightarrow> dlq_entry" where
  "dlqEntry b e = \<lparr>dl_jobId = pj_jobId (b_data b), dl_userId = pj_userId (b_data b),
     dl_error = err_message e, dl_attemptsMade = b_attemptsMade b\<rparr>"

lemma run_handleFailure:
  assumes "quiet w" and "rowOf w (pj_jobId (b_data b)) = Some j"
  shows "\<exists>w'. run (handleFailure A (Some b) e) w = (Inr (), w') \<and> quiet w' \<and> queue w' = queue w \<and> clock w' = clock w
    \<and> (if \<not> terminal b e then w' = w
       else dlq w' = dlq w @ [dlqEntry b e]
         \<and> rowOf w' (pj_jobId (b_data b)) = Some (if j_status j = FAILED then j else failedRow w (err_message e) j)
         \<and> (j_status j \<noteq> FAILED \<longrightarrow> events w' = events w
              @ [event w (pj_jobId (b_data b)) (lit ''pipeline'') ''failed'' (Some (take 1000 (err_message e)))]))"
proof (cases "terminal b e")
  case False
  with assms show ?thesis by (simp add: handleFailure_def)
next
  case True
  let ?i = "pj_jobId (b_data b)"
  from run_markFailed [OF conjunct1 [OF assms(1)] assms(2), of A "err_message e"] obtain v where v:
    "run (markFailed A ?i (err_message e)) w = (Inr (), v)" "faults v = []" "deadlines v = deadlines w"
    "others ?i v = others ?i w"
    "rowOf v ?i = Some (if j_status j = FAILED then j else failedRow w (err_message e) j)"
    "j_status j \<noteq> FAILED \<longrightarrow> events v = events w
       @ [event w ?i (lit ''pipeline'') ''failed'' (Some (take 1000 (err_message e)))]"
    using assms(2) by (auto split: if_splits)
  have "run (handleFailure A (Some b) e) w = (Inr (), v\<lparr>dlq := dlq v @ [dlqEntry b e]\<rparr>)"
    using v True by (simp add: handleFailure_def addToDlq_def dlqEntry_def)
  then show ?thesis using True v assms(1) by (simp add: others_def rowOf_def)
qed

text \<open>How an attempt may end: done, given up, or to be tried again.\<close>

datatype outcome = Done | GivenUp | Again

definition ended :: "outcome \<Rightarrow> bull_job \<Rightarrow> job_row \<Rightarrow> world \<Rightarrow> world \<Rightarrow> bool" where
  "ended o' b k w w' \<longleftrightarrow> (case o' of
     Done \<Rightarrow> queued w' (b_id b) = Some (settled BCompleted b) \<and> j_status k = READY \<and> dlq w' = dlq w
   | GivenUp \<Rightarrow> queued w' (b_id b) = Some (settled BFailed b) \<and> j_status k = FAILED
       \<and> (\<exists>e. dlq w' = dlq w @ [dlqEntry (settled BFailed b) e] \<and>
            (isUnrecoverable e \<or> b_attempts b \<le> Suc (b_attemptsMade b)))
   | Again \<Rightarrow> queued w' (b_id b) = Some (settled BDelayed b) \<and> dlq w' = dlq w
       \<and> j_status k \<in> {TRANSCRIBING, COMPILING, RENDERING} \<and> Suc (b_attemptsMade b) < b_attempts b)"

text \<open>A waiting queue job whose row is live and not READY.\<close>

definition ready_to_run :: "world \<Rightarrow> bull_job \<Rightarrow> job_row \<Rightarrow> bool" where
  "ready_to_run w b j \<longleftrightarrow> b \<in> set (queue w) \<and> b_state b = BWaiting \<and> rowOf w (b_id b) = Some j
     \<and> j_deletedAt j = None \<and> j_status j \<noteq> READY"

lemma inv_queue: "inv A w \<Longrightarrow> queue_ok (jobs w) (queue w)"
  by (simp add: inv_def)

lemma pending_of_queue:
  assumes "inv A w" and "ready_to_run w b j"
  shows "pending w (b_data b) j" and "pj_jobId (b_data b) = b_id b"
    and "find (\<lambda>c. b_id c = b_id b \<and> b_state c = BWaiting) (queue w) = Some b" and "queued w (b_id b) = Some b"
proof -
  from assms have b: "b \<in> set (queue w)" "b_state b = BWaiting" and j: "rowOf w (b_id b) = Some j"
    and q: "queue_ok (jobs w) (queue w)" by (simp_all add: ready_to_run_def inv_queue)
  from q b show id: "pj_jobId (b_data b) = b_id b" by (simp add: queue_ok_def)
  have d: "distinct (map b_id (queue w))" using q by (simp add: queue_ok_def)
  show "find (\<lambda>c. b_id c = b_id b \<and> b_state c = BWaiting) (queue w) = Some b"
    by (rule find_distinct [where k = b_id]) (use d b in auto)
  show "queued w (b_id b) = Some b"
    unfolding queued_def by (rule find_distinct [where k = b_id]) (use d b in auto)
  have "owns (jobs w) (pj_userId (b_data b)) (b_id b)" using q b by (simp add: queue_ok_def)
  with owns_unique [OF assms(1) this] rowOf_Some [OF j] have u: "j_userId j = pj_userId (b_data b)" by simp
  have "job_ok j" using assms(1) rowOf_Some [OF j] by (simp add: inv_def jobs_inv_def)
  with u assms(2) id rowOf_Some [OF j] show "pending w (b_data b) j"
    by (simp add: pending_def ready_to_run_def job_ok_def)
qed

text \<open>The world when BullMQ has taken a job, and when it has moved an active one.\<close>

definition takenJob :: "js \<Rightarrow> world \<Rightarrow> world" where
  "takenJob i w = w\<lparr>queue := upd (\<lambda>c. b_id c = i) (\<lambda>c. c\<lparr>b_state := BActive\<rparr>) (queue w)\<rparr>"

definition movedJob :: "js \<Rightarrow> bull_state \<Rightarrow> world \<Rightarrow> world" where
  "movedJob i s w = w\<lparr>queue := upd (\<lambda>c. b_id c = i \<and> b_state c = BActive) (settled s) (queue w)\<rparr>"

lemma run_moveJob: "run (moveJob i s) w = (Inr (), movedJob i s w)"
  by (simp add: moveJob_def movedJob_def)

lemma takenJob_simps [simp]:
  "faults (takenJob i w) = faults w" "deadlines (takenJob i w) = deadlines w" "bucket (takenJob i w) = bucket w"
  "dlq (takenJob i w) = dlq w" "clock (takenJob i w) = clock w" "rowOf (takenJob i w) k = rowOf w k"
  by (simp_all add: takenJob_def rowOf_def)

lemma movedJob_simps [simp]:
  "faults (movedJob i s w) = faults w" "deadlines (movedJob i s w) = deadlines w"
  "dlq (movedJob i s w) = dlq w" "clock (movedJob i s w) = clock w" "rowOf (movedJob i s w) k = rowOf w k"
  by (simp_all add: movedJob_def rowOf_def)

lemma queued_moved:
  assumes "queue w2 = queue (takenJob (b_id b) w)" and "queued w (b_id b) = Some b"
  shows "queued (movedJob (b_id b) s w2) (b_id b) = Some (settled s b)"
  using assms by (simp add: queued_def movedJob_def takenJob_def find_upd_b_id settled_def)

text \<open>A worker's run is the pipeline's on the taken job, the move of the job, and the listener when it failed.\<close>

lemma settle_by_attempt:
  assumes q: "quiet w" and take: "run (takeJob (b_id b)) w = (Inr (Some b), takenJob (b_id b) w)"
    and r: "run (runPipeline A (b_data b)) (takenJob (b_id b) w) = (r, w2)" "quiet w2"
  shows "snd (settle (workerRun A (b_id b)) w) = (case r of
     Inr _ \<Rightarrow> movedJob (b_id b) BCompleted w2
   | Inl e \<Rightarrow> snd (run (handleFailure A (Some (settled (failedState b e) b)) e) (movedJob (b_id b) (failedState b e) w2)))"
proof -
  have att: "run (attempt (runPipeline A (b_data b))) (takenJob (b_id b) w) = (Inr r, w2)"
    using r(1) by (cases r) (simp_all add: attempt_def)
  have "serene (attempt (runPipeline A (b_data b)))" by (intro serene_intros)
  then have sl: "spawnless (attempt (runPipeline A (b_data b))) (takenJob (b_id b) w)" using q by (simp add: serene_def)
  have "spawnless (takeJob (b_id b)) w" "spawnless (moveJob (b_id b) s) w2" for s by (simp_all add: takeJob_def moveJob_def)
  note sl = sl this
  show ?thesis
  proof (cases r)
    case (Inr x)
    then show ?thesis by (simp add: workerRun_def settle_bindP sl take att settle_spawnless run_moveJob)
  next
    case (Inl e)
    have "serene (handleFailure A (Some (settled (failedState b e) b)) e)" by (intro serene_intros)
    then have "spawnless (handleFailure A (Some (settled (failedState b e) b)) e) (movedJob (b_id b) (failedState b e) w2)"
      using r(2) by (simp add: serene_def)
    with Inl show ?thesis
      by (simp add: workerRun_def settle_bindP sl take att run_moveJob Let_def seqP_def runBg_detach settle_spawnless)
  qed
qed

text \<open>The row after the pipeline has failed.\<close>

definition failedRun :: "job_row \<Rightarrow> err \<Rightarrow> job_row \<Rightarrow> bool" where
  "failedRun j e k \<longleftrightarrow> sameJob j k \<and>
     (if isUnrecoverable e then j_status k = FAILED else j_status k \<in> {TRANSCRIBING, COMPILING, RENDERING})"

lemma run_queued:
  assumes "quiet w" and "inv A w" and "inj (uuid A)" and "ready_to_run w b j"
  shows "\<exists>r w2. run (runPipeline A (b_data b)) (takenJob (b_id b) w) = (r, w2) \<and> quiet w2
    \<and> queue w2 = queue (takenJob (b_id b) w) \<and> dlq w2 = dlq w \<and> clock w2 = clock w
    \<and> (\<exists>k. rowOf w2 (b_id b) = Some k \<and> sameJob j k \<and> (case r of Inr _ \<Rightarrow> j_status k = READY | Inl e \<Rightarrow> failedRun j e k))
    \<and> (servicesUp A \<longrightarrow> bucket w (audioKey (j_userId j) (b_id b)) \<noteq> None \<longrightarrow> r = Inr ())"
proof -
  let ?w1 = "takenJob (b_id b) w" and ?d = "b_data b"
  note p = pending_of_queue [OF assms(2,4)]
  have inv1: "inv A ?w1" unfolding takenJob_def by (rule evolves_inv(1) [OF evolves_queue_upd [OF assms(2)]]) simp
  have pend1: "pending ?w1 ?d j" using p(1) by (simp add: pending_def)
  have "quiet ?w1" using assms(1) by simp
  from run_pending [OF this inv1 assms(3) pend1] obtain r w2 where
    r: "run (runPipeline A ?d) ?w1 = (r, w2)" "quiet w2" "others (pj_jobId ?d) w2 = others (pj_jobId ?d) ?w1"
      "case r of Inr _ \<Rightarrow> delivered A ?w1 (pj_userId ?d) (pj_jobId ?d) j w2
       | Inl e \<Rightarrow> if isUnrecoverable e
           then \<exists>k. rowOf w2 (pj_jobId ?d) = Some k \<and> sameJob j k \<and> j_status k = FAILED
              \<and> j_errorMessage k = Some (take 1000 (err_message e))
           else midStage j w2 (pj_jobId ?d)"
      "servicesUp A \<longrightarrow> bucket ?w1 (audioKey (pj_userId ?d) (pj_jobId ?d)) \<noteq> None \<longrightarrow> r = Inr ()"
    by - (elim exE conjE, rule that, (assumption | rule conjI)+)
  note r = r [unfolded p(2)]
  have "\<exists>k. rowOf w2 (b_id b) = Some k \<and> sameJob j k \<and> (case r of Inr _ \<Rightarrow> j_status k = READY | Inl e \<Rightarrow> failedRun j e k)"
    using r(4) by (cases r) (auto simp: delivered_def midStage_def failedRun_def split: if_splits)
  with r p(1) show ?thesis
    by (intro exI [of _ r] exI [of _ w2]) (simp add: others_def pending_def)
qed

text \<open>A failed attempt is the last one, or there will be another.\<close>

lemma failed_attempt_ended:
  assumes q: "quiet w2" "queue w2 = queue (takenJob (b_id b) w)" "dlq w2 = dlq w" "clock w2 = clock w"
    and b: "queued w (b_id b) = Some b" "pj_jobId (b_data b) = b_id b"
    and k: "rowOf w2 (b_id b) = Some k" "failedRun j e k"
    and w': "w' = snd (run (handleFailure A (Some (settled (failedState b e) b)) e) (movedJob (b_id b) (failedState b e) w2))"
  shows "\<exists>o' k. rowOf w' (b_id b) = Some k \<and> sameJob j k \<and> ended o' b k w w' \<and> quiet w' \<and> clock w' = clock w"
proof -
  let ?s = "failedState b e"
  let ?b = "settled ?s b" and ?m = "movedJob (b_id b) ?s w2"
  have fields: "b_data (settled s b) = b_data b" "b_attemptsMade (settled s b) = Suc (b_attemptsMade b)"
    "b_attempts (settled s b) = b_attempts b" for s by (simp_all add: settled_def)
  have "rowOf ?m (pj_jobId (b_data ?b)) = Some k" "quiet ?m" using q(1) k(1) b(2) fields by simp_all
  from run_handleFailure [OF this(2,1), of A e] w' have h: "quiet w'" "queue w' = queue ?m" "clock w' = clock w"
    "if \<not> terminal ?b e then w' = ?m
     else dlq w' = dlq w @ [dlqEntry ?b e]
       \<and> rowOf w' (b_id b) = Some (if j_status k = FAILED then k else failedRow ?m (err_message e) k)"
    unfolding fields b(2) by (auto simp: q split: if_splits)
  have q': "queued w' (b_id b) = Some ?b" using h(2) queued_moved [OF q(2) b(1)] by (simp add: queued_def)
  show ?thesis
  proof (cases "terminal ?b e")
    case True
    then have s: "?s = BFailed" "isUnrecoverable e \<or> b_attempts b \<le> Suc (b_attemptsMade b)"
      by (auto simp: terminal_def failedState_def fields)
    let ?k = "if j_status k = FAILED then k else failedRow ?m (err_message e) k"
    have "j_status ?k = FAILED" "sameJob j ?k"
      using k(2) by (auto simp: failedRow_def touch_def failedRun_def sameJob_def)
    with h True s q' show ?thesis by (intro exI [of _ GivenUp] exI [of _ ?k] conjI) (auto simp: ended_def)
  next
    case False
    then have "?s = BDelayed" "\<not> isUnrecoverable e" "Suc (b_attemptsMade b) < b_attempts b"
      by (auto simp: terminal_def failedState_def fields)
    with h(1,3,4) False k q(3) q' show ?thesis
      by (intro exI [of _ Again] exI [of _ k] conjI) (auto simp: ended_def failedRun_def)
  qed
qed

lemma settle_workerRun:
  assumes "quiet w" and "inv A w" and "inj (uuid A)" and "ready_to_run w b j"
  shows "\<exists>o' k. rowOf (snd (settle (workerRun A (b_id b)) w)) (b_id b) = Some k \<and> sameJob j k
    \<and> ended o' b k w (snd (settle (workerRun A (b_id b)) w))
    \<and> quiet (snd (settle (workerRun A (b_id b)) w)) \<and> clock (snd (settle (workerRun A (b_id b)) w)) = clock w
    \<and> (servicesUp A \<longrightarrow> bucket w (audioKey (j_userId j) (b_id b)) \<noteq> None \<longrightarrow> o' = Done)"
proof -
  note p = pending_of_queue [OF assms(2,4)]
  from run_queued [OF assms] obtain r w2 k where r: "run (runPipeline A (b_data b)) (takenJob (b_id b) w) = (r, w2)" "quiet w2"
    and q: "queue w2 = queue (takenJob (b_id b) w)" "dlq w2 = dlq w" "clock w2 = clock w"
    and k: "rowOf w2 (b_id b) = Some k" "sameJob j k" "case r of Inr _ \<Rightarrow> j_status k = READY | Inl e \<Rightarrow> failedRun j e k"
    and up: "servicesUp A \<longrightarrow> bucket w (audioKey (j_userId j) (b_id b)) \<noteq> None \<longrightarrow> r = Inr ()"
    by blast
  have take: "run (takeJob (b_id b)) w = (Inr (Some b), takenJob (b_id b) w)" by (simp add: takeJob_def p(3) takenJob_def)
  note w' = settle_by_attempt [OF assms(1) take r]
  show ?thesis
  proof (cases r)
    case (Inr x)
    with k r(2) q queued_moved [OF q(1) p(4)] show ?thesis
      unfolding w' by (intro exI [of _ Done] exI [of _ k]) (simp add: ended_def)
  next
    case (Inl e)
    with w' have "snd (settle (workerRun A (b_id b)) w) =
      snd (run (handleFailure A (Some (settled (failedState b e) b)) e) (movedJob (b_id b) (failedState b e) w2))" by simp
    with failed_attempt_ended [OF r(2) q p(4,2) k(1) _ this] Inl k(3) up show ?thesis by auto
  qed
qed

lemma inv_workerRun: "inv A w \<Longrightarrow> inv A (snd (settle (workerRun A i) w))"
  by (rule evolves_inv(1) [OF ev.settle_sound [OF ok_workerRun evolves_refl]])

text \<open>
  C14. The retry policy: when no remote call is lost, no stage timer fires and nobody else acts meanwhile, one attempt
  at a waiting job whose row is live and not READY, with its failure listener, ends in exactly one of three ways. Done: the queue job is completed and the row READY. Given up (the error is
  unrecoverable or the attempts are used up): the queue job is failed, the row FAILED, and one entry with the error
  is added to the dead-letter queue. Again: the queue job is delayed for another attempt, the row stays at the
  stage it reached, and nothing is parked. The attempt is counted each time.
\<close>

theorem attempt_outcome:
  assumes "quiet w" and "inv A w" and "inj (uuid A)" and "ready_to_run w b j"
  shows "\<exists>o' k. rowOf (snd (settle (workerRun A (b_id b)) w)) (b_id b) = Some k \<and> sameJob j k
    \<and> ended o' b k w (snd (settle (workerRun A (b_id b)) w))
    \<and> (servicesUp A \<longrightarrow> bucket w (audioKey (j_userId j) (b_id b)) \<noteq> None \<longrightarrow> o' = Done)"
  using settle_workerRun [OF assms] by blast

text \<open>The sample world with the job's row waiting in the queue.\<close>

definition sampleWaiting :: bull_job where
  "sampleWaiting = \<lparr>b_id = lit ''j1'', b_data = \<lparr>pj_jobId = lit ''j1'', pj_userId = lit ''u1''\<rparr>,
     b_attempts = 3, b_attemptsMade = 0, b_state = BWaiting\<rparr>"

lemma sample_waiting:
  "inv sampleApp (sampleWorld\<lparr>queue := [sampleWaiting]\<rparr>)"
  "ready_to_run (sampleWorld\<lparr>queue := [sampleWaiting]\<rparr>) sampleWaiting sampleJob"
proof -
  have "owns (jobs sampleWorld) (lit ''u1'') (lit ''j1'')" by (auto simp: owns_def intro: bexI [of _ sampleJob])
  then show "inv sampleApp (sampleWorld\<lparr>queue := [sampleWaiting]\<rparr>)"
    using sample_inv by (simp add: inv_def queue_ok_def sampleWaiting_def)
  show "ready_to_run (sampleWorld\<lparr>queue := [sampleWaiting]\<rparr>) sampleWaiting sampleJob"
    using sample_rows(1) by (simp add: ready_to_run_def sampleWaiting_def rowOf_def)
qed

theorem attempt_outcome_witness:
  "\<exists>k. rowOf (snd (settle (workerRun sampleApp (lit ''j1'')) (sampleWorld\<lparr>queue := [sampleWaiting]\<rparr>))) (lit ''j1'') = Some k
    \<and> sameJob sampleJob k \<and> ended Done sampleWaiting k (sampleWorld\<lparr>queue := [sampleWaiting]\<rparr>)
        (snd (settle (workerRun sampleApp (lit ''j1'')) (sampleWorld\<lparr>queue := [sampleWaiting]\<rparr>)))"
proof -
  let ?w = "sampleWorld\<lparr>queue := [sampleWaiting]\<rparr>"
  have "bucket ?w (audioKey (lit ''u1'') (lit ''j1'')) \<noteq> None" by (simp add: sampleWorld_def)
  moreover have "b_id sampleWaiting = lit ''j1''" by (simp add: sampleWaiting_def)
  ultimately show ?thesis
    using attempt_outcome [OF _ sample_waiting(1) sample_inj sample_waiting(2)] sample_services by auto
qed

section \<open>Attempts end\<close>

text \<open>
  The life of a queued job with no other actor: attempt after attempt, each time the backoff has passed, for at most
  \<open>n\<close> attempts.
\<close>

definition promote :: "js \<Rightarrow> world \<Rightarrow> world" where
  "promote i w = w\<lparr>queue := upd (\<lambda>b. b_id b = i \<and> b_state b = BDelayed) (\<lambda>b. b\<lparr>b_state := BWaiting\<rparr>) (queue w)\<rparr>"

fun drain :: "app \<Rightarrow> js \<Rightarrow> nat \<Rightarrow> world \<Rightarrow> world" where
  "drain A i 0 w = w"
| "drain A i (Suc n) w =
     (let w' = snd (settle (workerRun A i) w) in
      case queued w' i of
        Some b \<Rightarrow> if b_state b = BDelayed then drain A i n (promote i w') else w'
      | None \<Rightarrow> w')"

lemma queued_in: "queued w i = Some b \<Longrightarrow> b \<in> set (queue w) \<and> b_id b = i"
  by (auto simp: queued_def dest: find_SomeD)

lemma settled_simps [simp]:
  "b_id (settled s b) = b_id b" "b_state (settled s b) = s" "b_attempts (settled s b) = b_attempts b"
  "b_attemptsMade (settled s b) = Suc (b_attemptsMade b)" "b_data (settled s b) = b_data b"
  by (simp_all add: settled_def)

text \<open>
  C15. A job ends: when no remote call is lost, no stage timer fires and nobody else acts in between (\<open>quiet w\<close>, and
  the attempts run one after the other), but whatever the speech, model and rendering services answer, as many
  attempts as the queue job has left bring a waiting job to READY with its queue job completed, or to FAILED with its
  queue job failed: none is left in the middle or retried for ever. With a timer that fires the two can disagree, as
  the run of a stage that timed out shows below.
\<close>

theorem worker_settles_job:
  assumes "quiet w" and "inv A w" and "inj (uuid A)" and "ready_to_run w b j"
    and "b_attempts b \<le> b_attemptsMade b + n" and "0 < n"
  shows "\<exists>k c. rowOf (drain A (b_id b) n w) (b_id b) = Some k \<and> sameJob j k
    \<and> queued (drain A (b_id b) n w) (b_id b) = Some c
    \<and> (j_status k = READY \<and> b_state c = BCompleted \<or> j_status k = FAILED \<and> b_state c = BFailed)"
  using assms(1,2,4-6)
proof (induction n arbitrary: w b j)
  case (Suc n)
  let ?i = "b_id b" and ?w' = "snd (settle (workerRun A (b_id b)) w)"
  from settle_workerRun [OF Suc.prems(1,2) assms(3) Suc.prems(3)] obtain o' k where
    k: "rowOf ?w' ?i = Some k" "sameJob j k" and o': "ended o' b k w ?w'" and q: "quiet ?w'" by blast
  show ?case
  proof (cases o')
    case Again
    let ?b = "(settled BDelayed b)\<lparr>b_state := BWaiting\<rparr>"
    from Again o' have e: "queued ?w' ?i = Some (settled BDelayed b)" "Suc (b_attemptsMade b) < b_attempts b"
      "j_status k \<in> {TRANSCRIBING, COMPILING, RENDERING}" by (simp_all add: ended_def)
    have d: "drain A ?i (Suc n) w = drain A ?i n (promote ?i ?w')" by (simp add: Let_def e(1))
    have "inv A (promote ?i ?w')"
      unfolding promote_def by (rule evolves_inv(1) [OF evolves_queue_upd [OF inv_workerRun [OF Suc.prems(2)]]]) simp
    moreover have "ready_to_run (promote ?i ?w') ?b k"
    proof -
      have "queued (promote ?i ?w') ?i = map_option (\<lambda>c. if b_id c = ?i \<and> b_state c = BDelayed
          then c\<lparr>b_state := BWaiting\<rparr> else c) (queued ?w' ?i)"
        unfolding queued_def promote_def by (simp add: find_upd_b_id)
      then have "queued (promote ?i ?w') ?i = Some ?b" by (simp add: e(1))
      from queued_in [OF this] have "?b \<in> set (queue (promote ?i ?w'))" by simp
      moreover have "rowOf (promote ?i ?w') ?i = Some k" using k(1) by (simp add: rowOf_def promote_def)
      moreover have "j_deletedAt k = None" using k(2) Suc.prems(3) by (simp add: sameJob_def ready_to_run_def)
      ultimately show ?thesis using e(3) by (auto simp: ready_to_run_def)
    qed
    moreover have "quiet (promote ?i ?w')" using q by (simp add: promote_def)
    ultimately obtain l c where "rowOf (drain A ?i n (promote ?i ?w')) ?i = Some l" "sameJob k l"
      "queued (drain A ?i n (promote ?i ?w')) ?i = Some c"
      "j_status l = READY \<and> b_state c = BCompleted \<or> j_status l = FAILED \<and> b_state c = BFailed"
      using Suc.IH [of "promote ?i ?w'" ?b k] Suc.prems(4) e(2) by auto
    then show ?thesis unfolding d using sameJob_trans [OF k(2)] by blast
  qed (use k o' in \<open>auto simp: ended_def Let_def\<close>)
qed simp

theorem worker_settles_job_witness:
  "\<exists>k c. rowOf (drain sampleApp (lit ''j1'') 3 (sampleWorld\<lparr>queue := [sampleWaiting]\<rparr>)) (lit ''j1'') = Some k
    \<and> sameJob sampleJob k
    \<and> queued (drain sampleApp (lit ''j1'') 3 (sampleWorld\<lparr>queue := [sampleWaiting]\<rparr>)) (lit ''j1'') = Some c
    \<and> (j_status k = READY \<and> b_state c = BCompleted \<or> j_status k = FAILED \<and> b_state c = BFailed)"
proof -
  have b: "b_id sampleWaiting = lit ''j1''" "b_attempts sampleWaiting \<le> b_attemptsMade sampleWaiting + 3"
    by (simp_all add: sampleWaiting_def)
  show ?thesis
    by (rule worker_settles_job [OF _ sample_waiting(1) sample_inj sample_waiting(2) b(2), unfolded b(1)]) simp_all
qed

section \<open>The timer does not stop a stage\<close>

text \<open>Running a program up to a point.\<close>

inductive leadsTo :: "'a io \<Rightarrow> world \<Rightarrow> 'a io \<Rightarrow> world \<Rightarrow> bool" where
  here: "leadsTo p w p w"
| there: "leadsTo (fst (f w)) (snd (f w)) q v \<Longrightarrow> leadsTo (Step f) w q v"

lemma leadsTo_settle: "leadsTo p w q v \<Longrightarrow> settle p w = settle q v"
  by (induction rule: leadsTo.induct) auto

lemma leadsTo_trans: "leadsTo p w q v \<Longrightarrow> leadsTo q v r u \<Longrightarrow> leadsTo p w r u"
  by (induction rule: leadsTo.induct) (auto intro: leadsTo.intros)

lemma leadsTo_bindP: "leadsTo p w q v \<Longrightarrow> leadsTo (bindP p k) w (bindP q k) v"
  by (induction rule: leadsTo.induct) (auto intro: leadsTo.intros)

lemma leadsTo_catchP: "leadsTo p w q v \<Longrightarrow> leadsTo (catchP p h) w (catchP q h) v"
  by (induction rule: leadsTo.induct) (auto intro: leadsTo.intros)

lemma leadsTo_run: "spawnless p w \<Longrightarrow> run p w = (Inr a, v) \<Longrightarrow> leadsTo p w (Ret a) v"
proof (induction p arbitrary: w)
  case (Step f)
  then show ?case by (auto intro: leadsTo.there)
qed (auto intro: leadsTo.here)

lemma leadsTo_next: "spawnless p w \<Longrightarrow> run p w = (Inr a, v) \<Longrightarrow> k a = q \<Longrightarrow> leadsTo (bindP p k) w q v"
  using leadsTo_bindP [OF leadsTo_run, of p w a v k] by simp

lemma leadsTo_seq: "spawnless p w \<Longrightarrow> run p w = (Inr a, v) \<Longrightarrow> leadsTo (seqP p q) w q v"
  unfolding seqP_def by (rule leadsTo_next) auto

lemma spawnless_leaf [simp]:
  "spawnless (takeJob i) w" "spawnless (updateJob A i f) w" "spawnless (addEvent A i s t m) w"
  "spawnless (findById i) w" "spawnless now w" "spawnless modelCall w" "spawnless (moveJob i s') w"
  "spawnless (setStatus A i st em) w" "spawnless nextDeadline w"
  by (simp_all add: takeJob_def updateJob_def addEvent_def findById_def query_def now_def modelCall_def
      moveJob_def setStatus_def remote_def nextDeadline_def)

text \<open>The body of the render stage from the printing on.\<close>

definition printAndStore :: "app \<Rightarrow> js \<Rightarrow> js \<Rightarrow> ReportView \<Rightarrow> unit io" where
  "printAndStore A u i view = bindP (render A view) (\<lambda>pdf.
     seqP (putObject (pdfKey u i) pdf PDF_CONTENT_TYPE) (setPdfReady A i (pdfKey u i)))"

lemma serene_printAndStore: "serene (printAndStore A u i view)"
  unfolding printAndStore_def by (intro serene_intros)

lemma run_printAndStore:
  assumes "faults w = []" and "rowOf w i = Some k" and "\<And>n html. \<exists>pdf. chromiumPdf A n html = Inr pdf"
  shows "\<exists>w'. run (printAndStore A u i view) w = (Inr (), w') \<and> rowOf w' i = Some (readyRow w u i k)
    \<and> queue w' = queue w \<and> dlq w' = dlq w \<and> events w' = events w \<and> bucket w' (pdfKey u i) \<noteq> None"
proof -
  let ?w1 = "w\<lparr>modelCalls := Suc (modelCalls w)\<rparr>"
  obtain pdf where pdf: "chromiumPdf A (modelCalls w) (buildReportHtml view) = Inr pdf" using assms(3) by blast
  let ?w2 = "?w1\<lparr>bucket := (bucket w)(pdfKey u i \<mapsto> \<lparr>o_body = pdf, o_contentType = PDF_CONTENT_TYPE\<rparr>)\<rparr>"
  have "run (render A view) w = (Inr pdf, ?w1)" using pdf by (simp add: render_def Let_def)
  moreover have "run (setPdfReady A i (pdfKey u i)) ?w2 = (Inr (),
      setRow i (\<lambda>j. j\<lparr>j_pdfKey := Some (pdfKey u i), j_status := READY, j_errorMessage := None\<rparr>) ?w2)"
    unfolding setPdfReady_def by (rule run_updateJob) (use assms(1,2) in simp_all)
  moreover have "touch ?w2 = touch w" by (rule touch_clock) simp
  ultimately show ?thesis using assms(1,2) by (simp add: printAndStore_def readyRow_def)
qed

text \<open>A stage whose timer fires after its first call: the caller gets the timeout, the rest of the body is left running.\<close>

lemma deadline_after_now:
  "leadsTo (deadline e (bindP now (\<lambda>t. printAndStore A u i (view t))) 1) w
     (Spawn (detach (printAndStore A u i (view (clock w)))) (Throw e)) w"
proof -
  obtain f where f: "printAndStore A u i (view (clock w)) = Step f"
    by (auto simp: printAndStore_def render_def Let_def modelCall_def call_def)
  have "deadline e (bindP now (\<lambda>t. printAndStore A u i (view t))) 1
      = Step (\<lambda>w. (deadline e (printAndStore A u i (view (clock w))) 0, w))"
    by (simp add: now_def call_def)
  then show ?thesis using f by (auto intro!: leadsTo.intros)
qed

lemma renderStage_timeout:
  fixes A :: app
  assumes "faults w = []" and "deadlines w = [Some 1]" and "rowOf w i = Some k"
  defines "v \<equiv> (started i STAGE_RENDER RENDERING w)\<lparr>deadlines := []\<rparr>"
    and "e \<equiv> StageTimeoutError STAGE_RENDER (stageTimeoutMs (ai (cfg A)))"
  shows "leadsTo (renderStage A i u label secs) w
    (Spawn (detach (printAndStore A u i (toReportView i label (clock w) secs)))
      (seqP (addEvent A i STAGE_RENDER ''failed'' (Some (take 1000 (err_message e)))) (Throw e))) v"
proof -
  let ?view = "\<lambda>t. toReportView i label t secs"
  let ?w1 = "setRow i (\<lambda>j. j\<lparr>j_status := RENDERING\<rparr>) w" and ?w2 = "started i STAGE_RENDER RENDERING w"
  let ?body = "bindP now (\<lambda>t. printAndStore A u i (?view t))"
  let ?k = "\<lambda>result. seqP (addEvent A i STAGE_RENDER ''completed'' None) (Ret result)"
  let ?h = "\<lambda>e. seqP (addEvent A i STAGE_RENDER ''failed'' (Some (take 1000 (err_message e)))) (Throw e)"
  have def_: "renderStage A i u label secs = seqP (setStatus A i RENDERING Undefined)
      (seqP (addEvent A i STAGE_RENDER ''started'' None)
      (catchP (bindP (withTimeout ?body (stageTimeoutMs (ai (cfg A))) STAGE_RENDER) ?k) ?h))"
    by (simp add: renderStage_def runStage_def printAndStore_def Let_def)
  have 1: "run (setStatus A i RENDERING Undefined) w = (Inr (), ?w1)"
    using assms(1,3) by (simp add: setStatus_def run_updateJob Let_def)
  have 2: "run (addEvent A i STAGE_RENDER ''started'' None) ?w1 = (Inr (), ?w2)"
    using assms(1,3) by (simp add: run_addEvent started_def)
  have "run nextDeadline ?w2 = (Inr (Some 1), v)" using assms(2) by (simp add: nextDeadline_def v_def)
  then have "leadsTo (withTimeout ?body (stageTimeoutMs (ai (cfg A))) STAGE_RENDER) ?w2 (deadline e ?body 1) v"
    unfolding withTimeout_def e_def by (rule leadsTo_next [OF spawnless_leaf(9)]) simp
  from leadsTo_trans [OF this deadline_after_now] have "leadsTo (withTimeout ?body (stageTimeoutMs (ai (cfg A))) STAGE_RENDER) ?w2
      (Spawn (detach (printAndStore A u i (?view (clock v)))) (Throw e)) v" .
  moreover have clk: "clock v = clock w" by (simp add: v_def)
  ultimately have "leadsTo (withTimeout ?body (stageTimeoutMs (ai (cfg A))) STAGE_RENDER) ?w2
      (Spawn (detach (printAndStore A u i (?view (clock w)))) (Throw e)) v" by (simp only:)
  from leadsTo_catchP [OF leadsTo_bindP [OF this, of ?k], of ?h] show ?thesis
    unfolding def_ by (intro leadsTo_trans [OF leadsTo_seq [OF spawnless_leaf(8) 1]] leadsTo_trans [OF leadsTo_seq [OF spawnless_leaf(3) 2]])
      simp
qed

lemma workerRun_timeout:
  fixes A :: app and h :: "err \<Rightarrow> unit io" and k :: "err + unit \<Rightarrow> unit io"
  assumes "inv A w" and "faults w = []" and "deadlines w = [Some 1]" and "ready_to_run w b j"
    and "reusable (j_transcript j) \<noteq> None" and "storedReport w j \<noteq> []"
  defines "w1 \<equiv> takenJob (b_id b) w"
    and "e \<equiv> StageTimeoutError STAGE_RENDER (stageTimeoutMs (ai (cfg A)))"
  defines "h \<equiv> \<lambda>err. if isPermanent err
      then seqP (markFailed A (b_id b) (err_message err)) (Throw (asUnrecoverable err)) else Throw err"
    and "k \<equiv> \<lambda>outcome. case outcome of Inr _ \<Rightarrow> moveJob (b_id b) BCompleted
      | Inl e \<Rightarrow> (let s = failedState b e in
          seqP (moveJob (b_id b) s) (Spawn (detach (handleFailure A (Some (settled s b)) e)) (Ret ())))"
  shows "leadsTo (workerRun A (b_id b)) w
    (Spawn (detach (printAndStore A (j_userId j) (b_id b) (toReportView (b_id b) (j_label j) (clock w) (storedReport w j))))
      (bindP (attempt (catchP (seqP (addEvent A (b_id b) STAGE_RENDER ''failed'' (Some (take 1000 (err_message e))))
         (Throw e)) h)) k))
    ((started (b_id b) STAGE_RENDER RENDERING w1)\<lparr>deadlines := []\<rparr>)"
proof -
  let ?i = "b_id b" and ?d = "b_data b" and ?u = "j_userId j"
  note p = pending_of_queue [OF assms(1,4)]
  have row: "rowOf w1 ?i = Some j" "pj_userId ?d = ?u" using p(1,2) by (simp_all add: pending_def w1_def)
  obtain t where t: "reusable (j_transcript j) = Some t" using assms(5) by auto
  let ?secs = "storedReport w j" and ?job = "JOB_REPORT_INCLUDE w1 j"
  let ?bg = "printAndStore A ?u ?i (toReportView ?i (j_label j) (clock w) ?secs)"
  let ?fail = "seqP (addEvent A ?i STAGE_RENDER ''failed'' (Some (take 1000 (err_message e)))) (Throw e)"
  let ?v = "(started ?i STAGE_RENDER RENDERING w1)\<lparr>deadlines := []\<rparr>"
  have take: "run (takeJob ?i) w = (Inr (Some b), w1)" by (simp add: takeJob_def p(3) w1_def takenJob_def)
  have find: "run (findById ?i) w1 = (Inr (Some ?job), w1)" using assms(2) row by (simp add: run_findById w1_def)
  have "storedReport w1 j = ?secs" by (rule storedReport_cong) (simp_all add: w1_def takenJob_def)
  then have sec: "stages A ?d ?job key = renderStage A ?i ?u (j_label j) ?secs" for key
    using assms(6) p(2) row(2) by (simp add: stages_def transcribeStage_reuse [OF t] existingReport_include
        storedReport_def [symmetric] compileStage_def)
  have 1: "leadsTo (runPipeline A ?d) w1 (catchP (renderStage A ?i ?u (j_label j) ?secs) h) w1"
    unfolding runPipeline_def p(2)
    by (rule leadsTo_next [OF spawnless_leaf(4) find]) (use p(1) in \<open>simp add: p(2) pending_def sec h_def\<close>)
  have 2: "leadsTo (renderStage A ?i ?u (j_label j) ?secs) w1 (Spawn (detach ?bg) ?fail) ?v"
    using renderStage_timeout [of w1 ?i j A ?u "j_label j" ?secs] assms(2,3) row by (simp add: w1_def e_def)
  from leadsTo_trans [OF 1 leadsTo_catchP [OF 2]] have "leadsTo (attempt (runPipeline A ?d)) w1 (attempt (catchP (Spawn (detach ?bg) ?fail) h)) ?v"
    unfolding attempt_def by (intro leadsTo_catchP leadsTo_bindP)
  from leadsTo_bindP [OF this, of k] have "leadsTo (bindP (attempt (runPipeline A ?d)) k) w1
      (Spawn (detach ?bg) (bindP (attempt (catchP ?fail h)) k)) ?v"
    by (simp add: attempt_def)
  moreover have "leadsTo (workerRun A ?i) w (bindP (attempt (runPipeline A ?d)) k) w1"
    unfolding workerRun_def by (rule leadsTo_next [OF spawnless_leaf(1) take]) (simp add: k_def)
  ultimately show ?thesis by (rule leadsTo_trans [rotated])
qed

text \<open>What follows a failed attempt: the job is moved and the listener runs.\<close>

lemma settle_after_failure:
  assumes "run p v = (Inr (Inl e), v2)" and "serene p" and "faults v = []" and "deadlines v = []" and "failedState b e = s"
    and h: "run (handleFailure A (Some (settled s b)) e) (movedJob (b_id b) s v2) = (Inr (), v4)" and "quiet v2"
  shows "settle (bindP p (\<lambda>outcome. case outcome of Inr _ \<Rightarrow> moveJob (b_id b) BCompleted
    | Inl e \<Rightarrow> (let s = failedState b e in
        seqP (moveJob (b_id b) s) (Spawn (detach (handleFailure A (Some (settled s b)) e)) (Ret ()))))) v = (Inr (), v4)"
proof -
  have sp: "spawnless p v" using assms(2,3,4) by (simp add: serene_def)
  have "serene (handleFailure A (Some (settled s b)) e)" by (intro serene_intros)
  then have sh: "spawnless (handleFailure A (Some (settled s b)) e) (movedJob (b_id b) s v2)"
    using assms(7) by (simp add: serene_def)
  have "settle (seqP (moveJob (b_id b) s) (Spawn (detach (handleFailure A (Some (settled s b)) e)) (Ret ()))) v2 = (Inr (), v4)"
    by (simp only: seqP_def settle_bindP [OF spawnless_leaf(7)] run_moveJob prod.case sum.case settle.simps runBg_detach
        settle_spawnless [OF sh] h map_prod_simp id_apply snd_conv)
  then show ?thesis by (simp only: settle_bindP [OF sp] assms(1,5) prod.case sum.case Let_def)
qed

text \<open>The listener gives the job up, then the abandoned body prints and stores.\<close>

lemma given_up_then_printed:
  assumes "quiet v" and "rowOf v (pj_jobId (b_data s)) = Some k" and "j_status k \<noteq> FAILED" and "terminal s e"
    and "\<And>n html. \<exists>pdf. chromiumPdf A n html = Inr pdf"
  shows "\<exists>v' w'. run (handleFailure A (Some s) e) v = (Inr (), v') \<and> quiet v' \<and> queue v' = queue v
    \<and> run (printAndStore A u (pj_jobId (b_data s)) view) v' = (Inr (), w') \<and> queue w' = queue v
    \<and> dlq w' = dlq v @ [dlqEntry s e]
    \<and> events w' = events v @ [event v (pj_jobId (b_data s)) (lit ''pipeline'') ''failed'' (Some (take 1000 (err_message e)))]
    \<and> rowOf w' (pj_jobId (b_data s)) = Some (readyRow v' u (pj_jobId (b_data s)) (failedRow v (err_message e) k))
    \<and> bucket w' (pdfKey u (pj_jobId (b_data s))) \<noteq> None"
proof -
  let ?i = "pj_jobId (b_data s)"
  from run_handleFailure [OF assms(1,2), of A e] assms(3,4) obtain v' where v':
    "run (handleFailure A (Some s) e) v = (Inr (), v')" "quiet v'" "queue v' = queue v" "dlq v' = dlq v @ [dlqEntry s e]"
    "rowOf v' ?i = Some (failedRow v (err_message e) k)"
    "events v' = events v @ [event v ?i (lit ''pipeline'') ''failed'' (Some (take 1000 (err_message e)))]"
    by auto
  from run_printAndStore [OF conjunct1 [OF v'(2)] v'(5) assms(5), of u view] obtain w' where
    "run (printAndStore A u ?i view) v' = (Inr (), w')" "rowOf w' ?i = Some (readyRow v' u ?i (failedRow v (err_message e) k))"
    "queue w' = queue v'" "dlq w' = dlq v'" "events w' = events v'" "bucket w' (pdfKey u ?i) \<noteq> None" by blast
  with v' show ?thesis by metis
qed

text \<open>
  C38. A stage that timed out still writes: when the timer of the last permitted attempt fires during rendering, the
  job is marked FAILED and parked on the dead-letter queue with the timeout; the abandoned rendering goes on,
  stores its PDF and turns the very same job READY, while the queue job and the parked entry keep saying that it
  failed. The run is one of the interleavings that can happen.
\<close>

theorem timed_out_job_turns_ready:
  assumes "inv A w" and "faults w = []" and "deadlines w = [Some 1]" and "ready_to_run w b j"
    and "reusable (j_transcript j) \<noteq> None" and "storedReport w j \<noteq> []" and "b_attempts b \<le> Suc (b_attemptsMade b)"
    and "\<forall>n html. \<exists>pdf. chromiumPdf A n html = Inr pdf"
  shows "\<exists>w' k e. snd (settle (workerRun A (b_id b)) w) = w'
    \<and> e = StageTimeoutError STAGE_RENDER (stageTimeoutMs (ai (cfg A)))
    \<and> queued w' (b_id b) = Some (settled BFailed b) \<and> dlq w' = dlq w @ [dlqEntry (settled BFailed b) e]
    \<and> event w (b_id b) (lit ''pipeline'') ''failed'' (Some (take 1000 (err_message e))) \<in> set (events w')
    \<and> rowOf w' (b_id b) = Some k \<and> j_status k = READY \<and> bucket w' (pdfKey (j_userId j) (b_id b)) \<noteq> None
    \<and> (\<exists>ts. reachable {detach (workerRun A (b_id b))} Env w (w', ts))"
proof -
  let ?i = "b_id b" and ?u = "j_userId j" and ?s = "settled BFailed b"
  define e where "e = StageTimeoutError STAGE_RENDER (stageTimeoutMs (ai (cfg A)))"
  have e: "isPermanent e = False" "isUnrecoverable e = False" by (simp_all add: e_def)
  note p = pending_of_queue [OF assms(1,4)]
  let ?v = "(started ?i STAGE_RENDER RENDERING (takenJob ?i w))\<lparr>deadlines := []\<rparr>"
  let ?v2 = "logged ?i STAGE_RENDER ''failed'' (Some (take 1000 (err_message e))) ?v"
  let ?v3 = "movedJob ?i BFailed ?v2"
  let ?row = "touch w (j\<lparr>j_status := RENDERING\<rparr>)"
  let ?bg = "printAndStore A ?u ?i (toReportView ?i (j_label j) (clock w) (storedReport w j))"
  let ?body = "attempt (catchP (seqP (addEvent A ?i STAGE_RENDER ''failed'' (Some (take 1000 (err_message e)))) (Throw e))
    (\<lambda>err. if isPermanent err then seqP (markFailed A ?i (err_message err)) (Throw (asUnrecoverable err)) else Throw err))
    :: (err + unit) io"
  have row1: "rowOf ?v ?i = Some ?row"
    using p(1,2) by (simp add: rowOf_def started_def setRow_def logged_def find_upd_id pending_def touch_def takenJob_def)
  have q: "quiet ?v2" "queue ?v2 = queue (takenJob ?i w)" "dlq ?v2 = dlq w" "clock ?v2 = clock w"
    using assms(2) by (simp_all add: started_def logged_def setRow_def)
  have body: "run ?body ?v = (Inr (Inl e), ?v2)" using assms(2) row1 by (simp add: attempt_def run_addEvent e)
  have "quiet ?v3" "rowOf ?v3 (pj_jobId (b_data ?s)) = Some ?row"
    using q(1) row1 p(2) by (simp_all add: settled_def)
  from given_up_then_printed [OF this, of e A ?u "toReportView ?i (j_label j) (clock w) (storedReport w j)"] assms(7,8) q
  obtain v4 w' where v4: "run (handleFailure A (Some ?s) e) ?v3 = (Inr (), v4)" "quiet v4" "queue v4 = queue ?v3"
    and w': "run ?bg v4 = (Inr (), w')" "queue w' = queue ?v3" "dlq w' = dlq w @ [dlqEntry ?s e]"
      "events w' = events ?v3 @ [event ?v3 ?i (lit ''pipeline'') ''failed'' (Some (take 1000 (err_message e)))]"
      "rowOf w' ?i = Some (readyRow v4 ?u ?i (failedRow ?v3 (err_message e) ?row))" "bucket w' (pdfKey ?u ?i) \<noteq> None"
    by (auto simp: p(2) touch_def terminal_def)
  have sbg: "spawnless ?bg v4" using serene_printAndStore v4(2) by (auto simp: serene_def)
  have "serene ?body" by (intro serene_intros serene_cases)
  then have "settle (bindP ?body (\<lambda>outcome. case outcome of Inr _ \<Rightarrow> moveJob ?i BCompleted
      | Inl e \<Rightarrow> (let s = failedState b e in
          seqP (moveJob ?i s) (Spawn (detach (handleFailure A (Some (settled s b)) e)) (Ret ()))))) ?v = (Inr (), v4)"
    by (rule settle_after_failure [OF body _ _ _ _ v4(1) q(1)]) (use assms(2,7) in \<open>simp_all add: failedState_def\<close>)
  then have final: "snd (settle (workerRun A ?i) w) = w'"
    unfolding leadsTo_settle [OF workerRun_timeout [OF assms(1-6), folded e_def]]
    by (simp only: settle.simps map_prod_simp id_apply snd_conv runBg_detach settle_spawnless [OF sbg] w'(1))
  have "queued w' ?i = Some ?s" using queued_moved [OF q(2) p(4)] w'(2) by (simp add: queued_def)
  moreover have "event ?v3 ?i s t m = event w ?i s t m" for s t m using q(4) by (simp add: event_def)
  moreover have "j_status (readyRow v4 ?u ?i k) = READY" for k by (simp add: readyRow_def touch_def)
  moreover have "\<exists>ts. reachable {detach (workerRun A ?i)} Env w (w', ts)"
    using settle_reachable [OF _ reachable.start, of "workerRun A ?i"] final by auto
  ultimately show ?thesis
    using final w' v4 e_def by (intro exI [of _ w'] exI [of _ "readyRow v4 ?u ?i (failedRow ?v3 (err_message e) ?row)"]
        exI [of _ e] conjI) simp_all
qed

text \<open>The last attempt of a job whose transcript and report are stored, with a timer that fires.\<close>

definition sampleLate :: world where
  "sampleLate = sampleWorld\<lparr>jobs := [sampleJob\<lparr>j_transcript := Some (lit ''roof'')\<rparr>, sampleReady],
     queue := [sampleWaiting\<lparr>b_attemptsMade := 2\<rparr>], entropy := 1, deadlines := [Some 1],
     sections := [\<lparr>s_id = uuid sampleApp 0, s_jobId = lit ''j1'', s_title = lit ''Roof'', s_sortOrder = 0\<rparr>]\<rparr>"

lemma sample_late:
  "inv sampleApp sampleLate" "rowOf sampleLate (lit ''j1'') = Some (sampleJob\<lparr>j_transcript := Some (lit ''roof'')\<rparr>)"
  "storedReport sampleLate (sampleJob\<lparr>j_transcript := Some (lit ''roof'')\<rparr>) \<noteq> []"
proof -
  let ?j = "sampleJob\<lparr>j_transcript := Some (lit ''roof'')\<rparr>"
  have "jobs_inv (users sampleWorld) (jobs sampleWorld)" "pdf_stored (jobs sampleWorld) (bucket sampleWorld)"
    using sample_inv by (simp_all add: inv_def)
  then have "jobs_inv (users sampleWorld) [?j, sampleReady]" "pdf_stored [?j, sampleReady] (bucket sampleWorld)"
    by (simp_all add: jobs_inv_def idempotencyKeys_def job_ok_def pdf_stored_def)
  then show "inv sampleApp sampleLate"
    using sample_inv by (simp add: inv_def sampleLate_def queue_ok_def sampleWaiting_def owns_def report_tables_def)
  show "rowOf sampleLate (lit ''j1'') = Some ?j"
    by (simp add: rowOf_def sampleLate_def)
  show "storedReport sampleLate ?j \<noteq> []"
    by (simp add: storedReport_def reportTree_def JOB_REPORT_INCLUDE_def sectionsOf_def sampleLate_def)
qed

theorem timed_out_job_turns_ready_witness:
  "\<exists>w' k. snd (settle (workerRun sampleApp (lit ''j1'')) sampleLate) = w'
    \<and> queued w' (lit ''j1'') = Some (settled BFailed (sampleWaiting\<lparr>b_attemptsMade := 2\<rparr>))
    \<and> rowOf w' (lit ''j1'') = Some k \<and> j_status k = READY"
proof -
  let ?b = "sampleWaiting\<lparr>b_attemptsMade := 2\<rparr>" and ?j = "sampleJob\<lparr>j_transcript := Some (lit ''roof'')\<rparr>"
  have b: "b_id ?b = lit ''j1''" "b_attempts ?b \<le> Suc (b_attemptsMade ?b)" by (simp_all add: sampleWaiting_def)
  have "ready_to_run sampleLate ?b ?j"
    using sample_late(2) by (simp add: ready_to_run_def sampleLate_def sampleWaiting_def)
  moreover have "reusable (j_transcript ?j) \<noteq> None"
    by (simp add: reusable_def js_trim_def js_space_def lit_unfold)
  moreover have "faults sampleLate = []" "deadlines sampleLate = [Some 1]" by (simp_all add: sampleLate_def)
  moreover have "\<forall>n html. \<exists>pdf. chromiumPdf sampleApp n html = Inr pdf" by (simp add: sampleApp_def)
  ultimately obtain w' k where "snd (settle (workerRun sampleApp (b_id ?b)) sampleLate) = w'"
    "queued w' (b_id ?b) = Some (settled BFailed ?b)" "rowOf w' (b_id ?b) = Some k" "j_status k = READY"
    using timed_out_job_turns_ready [OF sample_late(1) _ _ _ _ sample_late(3) b(2)] by blast
  then show ?thesis unfolding b(1) by blast
qed

end
