(* ===== verification/Confinement.thy ===== *)
theory Confinement
  imports Safety
begin

text \<open>
  Confinement: every atomic step of a program, whatever the others do in between, leaves what belongs to
  somebody else as it finds it. The locale \<open>confined\<close> extends \<open>interference\<close> by the relation the steps satisfy;
  it is interpreted on \<open>evolves\<close> and on \<open>confines m\<close>, the steps that change nothing outside the jobs that \<open>m\<close>
  selects. The second half of the theory confines the operations of the repository, the bucket and the queue.
\<close>

section \<open>Programs whose steps satisfy a relation\<close>

text \<open>\<open>acts G T p w\<close>: whatever \<open>G\<close>-steps the others take from \<open>w\<close> on, every step of \<open>p\<close> is a \<open>T\<close>-step.\<close>

primrec bgacts :: "('w \<Rightarrow> 'w \<Rightarrow> bool) \<Rightarrow> ('w \<Rightarrow> 'w \<Rightarrow> bool) \<Rightarrow> 'w bg \<Rightarrow> 'w \<Rightarrow> bool" where
  "bgacts G T BgDone = (\<lambda>w. True)"
| "bgacts G T (BgStep f) = (\<lambda>w. \<forall>w'. G w w' \<longrightarrow>
     T w' (snd (f w')) \<and> fst (map_prod (bgacts G T) id (f w')) (snd (f w')))"
| "bgacts G T (BgFork b c) = (\<lambda>w. bgacts G T b w \<and> bgacts G T c w)"

primrec acts :: "('w \<Rightarrow> 'w \<Rightarrow> bool) \<Rightarrow> ('w \<Rightarrow> 'w \<Rightarrow> bool) \<Rightarrow> ('w, 'e, 'a) prog \<Rightarrow> 'w \<Rightarrow> bool" where
  "acts G T (Ret a) = (\<lambda>w. True)"
| "acts G T (Throw e) = (\<lambda>w. True)"
| "acts G T (Step f) = (\<lambda>w. \<forall>w'. G w w' \<longrightarrow>
     T w' (snd (f w')) \<and> fst (map_prod (acts G T) id (f w')) (snd (f w')))"
| "acts G T (Spawn b p) = (\<lambda>w. bgacts G T b w \<and> acts G T p w)"

lemma bgacts_detach: "acts G T p w \<Longrightarrow> bgacts G T (detach p) w"
  by (induction p arbitrary: w) auto

lemma acts_call: "(\<And>v. G w v \<Longrightarrow> T v (snd (f v))) \<Longrightarrow> acts G T (call f) w"
  by (auto simp: call_def split: sum.split)

text \<open>Sequencing when what follows is confined wherever it starts.\<close>

lemma acts_bind_all: "acts G T p w \<Longrightarrow> (\<And>a v. acts G T (k a) v) \<Longrightarrow> acts G T (bindP p k) w"
  by (induction p arbitrary: w) auto

lemma acts_seq_all: "acts G T p w \<Longrightarrow> (\<And>v. acts G T q v) \<Longrightarrow> acts G T (seqP p q) w"
  unfolding seqP_def by (rule acts_bind_all)

lemma acts_catch_all: "acts G T p w \<Longrightarrow> (\<And>e v. acts G T (h e) v) \<Longrightarrow> acts G T (catchP p h) w"
  by (induction p arbitrary: w) auto

locale confined = interference G for G :: "'w \<Rightarrow> 'w \<Rightarrow> bool" +
  fixes T :: "'w \<Rightarrow> 'w \<Rightarrow> bool"
  assumes T_refl: "T w w"
    and T_trans: "T u v \<Longrightarrow> T v w \<Longrightarrow> T u w"
begin

lemma bgacts_later: "bgacts G T b w \<Longrightarrow> G w v \<Longrightarrow> bgacts G T b v"
  by (induction b) (auto intro: G_trans)

lemma bgacts_outside: "\<not> G w w \<Longrightarrow> bgacts G T b w"
  by (induction b) (auto dest: G_left)

lemma acts_outside: "\<not> G w w \<Longrightarrow> acts G T p w"
  by (induction p) (auto dest: G_left simp: bgacts_outside)

lemma acts_later: "acts G T p w \<Longrightarrow> G w v \<Longrightarrow> acts G T p v"
  by (induction p) (auto intro: G_trans bgacts_later)

lemma acts_bindP:
  "acts G T p w \<Longrightarrow> wpr G (\<lambda>a v. acts G T (k a) v) E p w \<Longrightarrow> acts G T (bindP p k) w"
proof (induction p arbitrary: w)
  case (Ret a)
  then show ?case by (cases "G w w") (auto simp: acts_outside)
qed auto

lemma acts_catchP:
  "acts G T p w \<Longrightarrow> wpr G Q (\<lambda>e v. acts G T (h e) v) p w \<Longrightarrow> acts G T (catchP p h) w"
proof (induction p arbitrary: w)
  case (Throw e)
  then show ?case by (cases "G w w") (auto simp: acts_outside)
qed auto

lemma acts_bind:
  assumes "wpr G P E p w" and "acts G T p w" and "\<And>a v. P a v \<Longrightarrow> G w v \<Longrightarrow> acts G T (k a) v"
  shows "acts G T (bindP p k) w"
  by (rule acts_bindP [OF assms(2)], rule wpr_mono [OF wpr_frame [OF assms(1)]]) (use assms(3) in auto)

lemma acts_seq:
  assumes "wpr G P E p w" and "acts G T p w" and "\<And>a v. P a v \<Longrightarrow> G w v \<Longrightarrow> acts G T q v"
  shows "acts G T (seqP p q) w"
  unfolding seqP_def by (rule acts_bind [OF assms])

lemma acts_catch:
  assumes "wpr G Q F p w" and "acts G T p w" and "\<And>e v. F e v \<Longrightarrow> G w v \<Longrightarrow> acts G T (h e) v"
  shows "acts G T (catchP p h) w"
  by (rule acts_catchP [OF assms(2)], rule wpr_mono [OF wpr_frame [OF assms(1)]]) (use assms(3) in auto)

lemma acts_deadline: "acts G T p w \<Longrightarrow> acts G T (deadline e p n) w"
proof (induction p arbitrary: w n)
  case (Step f)
  show ?case
  proof (cases n)
    case 0
    then show ?thesis using bgacts_detach [OF Step.prems] by simp
  next
    case (Suc m)
    have "acts G T (deadline e (fst (f v)) m) (snd (f v))" if "G w v" for v
      by (rule Step.IH) (use Step.prems that in simp)
    with Suc Step.prems show ?thesis by simp
  qed
qed auto

text \<open>What a program does alone, and with all it leaves running, is a \<open>T\<close>-step.\<close>

lemma bgacts_run: "bgok G b w \<Longrightarrow> bgacts G T b w \<Longrightarrow> G w w \<Longrightarrow> T w (runBg b w)"
proof (induction b arbitrary: w)
  case (Step f)
  then have "G w (snd (f w))" "T w (snd (f w))" "bgok G (fst (f w)) (snd (f w))"
    "bgacts G T (fst (f w)) (snd (f w))" by auto
  with Step.IH [of w "snd (f w)"] G_right T_trans show ?case by auto
next
  case (Fork b c)
  then have c: "G w (runBg c w)" "T w (runBg c w)" using runBg_sound by auto
  have "bgok G b (runBg c w)" "bgacts G T b (runBg c w)"
    using Fork.prems c(1) bgok_later bgacts_later by auto
  with Fork.IH(1) [of "runBg c w"] c G_right T_trans show ?case by auto
qed (simp add: T_refl)

lemma acts_settle: "wpr G Q E p w \<Longrightarrow> acts G T p w \<Longrightarrow> G w w \<Longrightarrow> T w (snd (settle p w))"
  using bgacts_run [OF bgok_detach bgacts_detach] by (simp add: runBg_detach)

lemma acts_run: "wpr G Q E p w \<Longrightarrow> acts G T p w \<Longrightarrow> G w w \<Longrightarrow> T w (snd (run p w))"
proof (induction p arbitrary: w)
  case (Step f)
  then have "G w (snd (f w))" "T w (snd (f w))" "wpr G Q E (fst (f w)) (snd (f w))"
    "acts G T (fst (f w)) (snd (f w))" by auto
  with Step.IH [of w "snd (f w)"] G_right T_trans show ?case by auto
qed (auto simp: T_refl)

end

section \<open>What lies outside a selection of jobs\<close>

text \<open>
  \<open>m\<close> selects jobs by owner and id: a user's own jobs, or the one job a worker has. What lies outside: the users,
  the tokens, and of every job not selected its row, its sections and findings, its events, its queue job and its
  two objects.
\<close>

definition theirs :: "(js \<Rightarrow> js \<Rightarrow> bool) \<Rightarrow> world \<Rightarrow> job_row list" where
  "theirs m w = filter (\<lambda>j. \<not> m (j_userId j) (j_id j)) (jobs w)"

definition theirIds :: "(js \<Rightarrow> js \<Rightarrow> bool) \<Rightarrow> world \<Rightarrow> js set" where
  "theirIds m w = j_id ` set (theirs m w)"

definition theirFinding :: "(js \<Rightarrow> js \<Rightarrow> bool) \<Rightarrow> world \<Rightarrow> finding_row \<Rightarrow> bool" where
  "theirFinding m w f \<longleftrightarrow> (\<exists>s \<in> set (sections w). s_id s = f_sectionId f \<and> s_jobId s \<in> theirIds m w)"

definition theirObjects :: "(js \<Rightarrow> js \<Rightarrow> bool) \<Rightarrow> world \<Rightarrow> (obj option \<times> obj option) list" where
  "theirObjects m w = map (\<lambda>j. (bucket w (audioKey (j_userId j) (j_id j)), bucket w (pdfKey (j_userId j) (j_id j))))
     (theirs m w)"

definition confines :: "(js \<Rightarrow> js \<Rightarrow> bool) \<Rightarrow> world \<Rightarrow> world \<Rightarrow> bool" where
  "confines m w w' \<longleftrightarrow> users w' = users w \<and> tokens w' = tokens w \<and> theirs m w' = theirs m w
     \<and> filter (\<lambda>s. s_jobId s \<in> theirIds m w') (sections w') = filter (\<lambda>s. s_jobId s \<in> theirIds m w) (sections w)
     \<and> filter (theirFinding m w') (findings w') = filter (theirFinding m w) (findings w)
     \<and> filter (\<lambda>e. e_jobId e \<in> theirIds m w') (events w') = filter (\<lambda>e. e_jobId e \<in> theirIds m w) (events w)
     \<and> filter (\<lambda>b. b_id b \<in> theirIds m w') (queue w') = filter (\<lambda>b. b_id b \<in> theirIds m w) (queue w)
     \<and> theirObjects m w' = theirObjects m w"

lemma confines_refl [simp]: "confines m w w"
  and confines_trans: "confines m u v \<Longrightarrow> confines m v w \<Longrightarrow> confines m u w"
  by (simp_all add: confines_def)

interpretation conf: confined "evolves A" "confines m" for A m
  by unfold_locales (auto intro: confines_trans)

abbreviation conf :: "app \<Rightarrow> (js \<Rightarrow> js \<Rightarrow> bool) \<Rightarrow> 'a io \<Rightarrow> world \<Rightarrow> bool" where
  "conf A m p w \<equiv> acts (evolves A) (confines m) p w"

text \<open>Changes outside the projection, and to one table.\<close>

lemma theirs_simps [simp]:
  "theirs m (w\<lparr>faults := fs\<rparr>) = theirs m w" "theirs m (w\<lparr>bucket := b\<rparr>) = theirs m w"
  "theirs m (w\<lparr>sections := ss\<rparr>) = theirs m w" "theirs m (w\<lparr>findings := ff\<rparr>) = theirs m w"
  "theirs m (w\<lparr>entropy := n\<rparr>) = theirs m w" "theirs m (w\<lparr>queue := q\<rparr>) = theirs m w"
  "theirs m (w\<lparr>events := es\<rparr>) = theirs m w"
  by (simp_all add: theirs_def)

lemma confines_other [simp]:
  "confines m w (w\<lparr>faults := fs\<rparr>)" "confines m w (w\<lparr>entropy := n\<rparr>)" "confines m w (w\<lparr>modelCalls := n\<rparr>)"
  "confines m w (w\<lparr>deadlines := ds\<rparr>)" "confines m w (w\<lparr>dlq := d\<rparr>)" "confines m w (w\<lparr>clock := t\<rparr>)"
  by (simp_all add: confines_def theirs_def theirIds_def theirFinding_def [abs_def] theirObjects_def)

lemma confines_jobs:
  "theirs m (w\<lparr>jobs := js\<rparr>) = theirs m w \<Longrightarrow> confines m w (w\<lparr>jobs := js\<rparr>)"
  by (simp add: confines_def theirIds_def theirFinding_def [abs_def] theirObjects_def)

lemma confines_upd:
  assumes "\<And>j. j \<in> set (jobs w) \<Longrightarrow> P j \<Longrightarrow> m (j_userId j) (j_id j)"
    and "\<And>j. j_id (f j) = j_id j \<and> j_userId (f j) = j_userId j"
  shows "confines m w (w\<lparr>jobs := upd P f (jobs w)\<rparr>)"
proof -
  have "filter (\<lambda>j. \<not> m (j_userId j) (j_id j)) (upd P f js) = filter (\<lambda>j. \<not> m (j_userId j) (j_id j)) js"
    if "\<forall>j \<in> set js. P j \<longrightarrow> m (j_userId j) (j_id j)" for js
    using that assms(2) by (induction js) (auto simp: upd_def)
  with assms(1) show ?thesis by (intro confines_jobs) (simp add: theirs_def)
qed

lemma confines_queue:
  "filter (\<lambda>b. b_id b \<in> theirIds m w) q = filter (\<lambda>b. b_id b \<in> theirIds m w) (queue w) \<Longrightarrow>
    confines m w (w\<lparr>queue := q\<rparr>)"
  by (simp add: confines_def theirIds_def theirFinding_def [abs_def] theirObjects_def)

lemma confines_bucket:
  "(\<And>j. j \<in> set (theirs m w) \<Longrightarrow> b (audioKey (j_userId j) (j_id j)) = bucket w (audioKey (j_userId j) (j_id j))
      \<and> b (pdfKey (j_userId j) (j_id j)) = bucket w (pdfKey (j_userId j) (j_id j))) \<Longrightarrow>
    confines m w (w\<lparr>bucket := b\<rparr>)"
  by (simp add: confines_def theirIds_def theirFinding_def [abs_def] theirObjects_def)

lemma confines_events:
  "i \<notin> theirIds m w \<Longrightarrow> e_jobId e = i \<Longrightarrow> confines m w (w\<lparr>events := events w @ [e]\<rparr>)"
  by (simp add: confines_def theirs_def theirIds_def theirFinding_def [abs_def] theirObjects_def)

section \<open>Selected ids\<close>

text \<open>At no later time is \<open>i\<close> the id of a job outside.\<close>

definition mineFor :: "app \<Rightarrow> (js \<Rightarrow> js \<Rightarrow> bool) \<Rightarrow> js \<Rightarrow> world \<Rightarrow> bool" where
  "mineFor A m i w \<longleftrightarrow> (\<forall>v. evolves A w v \<longrightarrow> i \<notin> theirIds m v)"

lemma mineFor_later: "mineFor A m i w \<Longrightarrow> evolves A w v \<Longrightarrow> mineFor A m i v"
  unfolding mineFor_def using evolves_trans by blast

lemma mineFor_now: "mineFor A m i w \<Longrightarrow> evolves A w v \<Longrightarrow> i \<notin> theirIds m v"
  by (simp add: mineFor_def)

lemma mineFor_row: "i \<notin> theirIds m w \<Longrightarrow> j \<in> set (jobs w) \<Longrightarrow> j_id j = i \<Longrightarrow> m (j_userId j) (j_id j)"
  by (auto simp: theirIds_def theirs_def)

lemma mineFor_owns:
  assumes "owns (jobs w) u i" and "m u i"
  shows "mineFor A m i w"
  unfolding mineFor_def
proof (intro allI impI notI)
  fix v assume v: "evolves A w v" and "i \<in> theirIds m v"
  then obtain j where j: "j \<in> set (jobs v)" "j_id j = i" "\<not> m (j_userId j) i"
    by (auto simp: theirIds_def theirs_def)
  with owns_unique [OF evolves_inv(1) [OF v] owns_stable [OF assms(1) v]] assms(2) show False by simp
qed

lemma mineFor_id: "(\<And>u. m u i) \<Longrightarrow> mineFor A m i w"
  by (auto simp: mineFor_def theirIds_def theirs_def)

section \<open>Calls\<close>

lemma conf_remote:
  assumes "\<And>v. evolves A w v \<Longrightarrow> confines m v (snd (f v))"
  shows "conf A m (remote f) w"
  unfolding remote_def
proof (rule acts_call)
  fix v assume v: "evolves A w v"
  have "confines m v (snd (f (v\<lparr>faults := fs\<rparr>)))" for fs
    using assms [OF evolves_trans [OF v evolves_faults [OF evolves_inv(1) [OF v]]]]
    by (rule confines_trans [OF confines_other(1)])
  then show "confines m v (snd (case faults v of [] \<Rightarrow> f v | Works # fs \<Rightarrow> f (v\<lparr>faults := fs\<rparr>)
    | LostRequest e # fs \<Rightarrow> (Inl (PlainError e), v\<lparr>faults := fs\<rparr>)
    | LostReply e # fs \<Rightarrow> (Inl (PlainError e), snd (f (v\<lparr>faults := fs\<rparr>)))))"
    using assms [OF v] by (auto split: list.split fault.split)
qed

lemma conf_query [simp]: "conf A m (query f) w"
  unfolding query_def by (rule conf_remote) simp

lemma conf_command: "(\<And>v. evolves A w v \<Longrightarrow> confines m v (f v)) \<Longrightarrow> conf A m (command f) w"
  unfolding command_def by (rule conf_remote) simp

lemma conf_transaction:
  assumes "\<And>v a. evolves A w v \<Longrightarrow> fst (f v) = Inr a \<Longrightarrow> confines m v (snd (f v))"
  shows "conf A m (transaction f) w"
  unfolding transaction_def
proof (rule conf_remote)
  fix v assume "evolves A w v"
  from assms [OF this] show "confines m v (snd (case f v of (Inl e, w') \<Rightarrow> (Inl e, v\<lparr>entropy := entropy w'\<rparr>)
      | (Inr a, w') \<Rightarrow> (Inr a, w')))"
    by (cases "f v"; cases "fst (f v)") auto
qed

lemma conf_now [simp]: "conf A m now w"
  and conf_draw [simp]: "conf A m draw w"
  unfolding now_def draw_def by (rule acts_call; simp)+

section \<open>Operations of the repository\<close>

lemma conf_find [simp]:
  "conf A m (findScoped u i) w" "conf A m (findByIdempotencyKey u k) w" "conf A m (findById i) w"
  "conf A m (rawById i) w" "conf A m (objectExists k) w" "conf A m (getJob i) w" "conf A m (getState b) w"
  by (simp_all add: findScoped_def findByIdempotencyKey_def findById_def rawById_def objectExists_def
      getJob_def getState_def)

lemma conf_listScoped [simp]: "conf A m (listScoped A u c n) w"
  unfolding listScoped_def by (rule conf_remote) simp

lemma conf_getObjectStream [simp]: "conf A m (getObjectStream A k) w"
  unfolding getObjectStream_def by (rule conf_remote) (simp split: option.split)

lemma conf_updateJob:
  assumes "mineFor A m i w" and "\<And>j. j_id (f j) = j_id j \<and> j_userId (f j) = j_userId j"
  shows "conf A m (updateJob A i f) w"
  unfolding updateJob_def
proof (rule conf_remote)
  fix v assume v: "evolves A w v"
  have "confines m v (v\<lparr>jobs := upd (\<lambda>j. j_id j = i) (\<lambda>j. touch v (f j)) (jobs v)\<rparr>)"
    using mineFor_row [OF mineFor_now [OF assms(1) v]] assms(2) by (intro confines_upd) auto
  then show "confines m v (snd (if i \<notin> j_id ` set (jobs v) then (Inl (prismaKnown A ''P2025''), v)
    else (Inr (), v\<lparr>jobs := upd (\<lambda>j. j_id j = i) (\<lambda>j. touch v (f j)) (jobs v)\<rparr>)))" by simp
qed

lemma conf_setStatus: "mineFor A m i w \<Longrightarrow> conf A m (setStatus A i s e) w"
  and conf_saveTranscript: "mineFor A m i w \<Longrightarrow> conf A m (saveTranscript A i t) w"
  and conf_setPdfReady: "mineFor A m i w \<Longrightarrow> conf A m (setPdfReady A i k) w"
  unfolding setStatus_def saveTranscript_def setPdfReady_def
  by (rule conf_updateJob; simp add: Let_def split: field.split)+

lemma conf_addEvent:
  assumes "mineFor A m i w"
  shows "conf A m (addEvent A i stage s e) w"
  unfolding addEvent_def
  using mineFor_now [OF assms] by (intro conf_remote) (auto intro!: confines_events [OF _ refl])

lemma conf_updateLabelScoped:
  assumes "m u i"
  shows "conf A m (updateLabelScoped A u i l) w"
  unfolding updateLabelScoped_def
proof (rule conf_remote)
  fix v
  have "confines m v (v\<lparr>jobs := upd (\<lambda>j. j_id j = i \<and> visible u j) f (jobs v)\<rparr>)"
    if "\<And>j. j_id (f j) = j_id j \<and> j_userId (f j) = j_userId j" for f
    using assms that by (intro confines_upd) auto
  then show "confines m v (snd (case l of
       Null \<Rightarrow> (Inl (prismaValidation A), v)
     | Undefined \<Rightarrow> (Inr (), v\<lparr>jobs := upd (\<lambda>j. j_id j = i \<and> visible u j) (touch v) (jobs v)\<rparr>)
     | Given l \<Rightarrow> (Inr (), v\<lparr>jobs := upd (\<lambda>j. j_id j = i \<and> visible u j)
                     (\<lambda>j. touch v (j\<lparr>j_label := l\<rparr>)) (jobs v)\<rparr>)))"
    by (simp split: field.split)
qed

lemma conf_softDeleteScoped:
  assumes "m u i"
  shows "conf A m (softDeleteScoped u i) w"
  unfolding softDeleteScoped_def
  using assms by (auto intro!: conf_remote confines_upd)

lemma conf_createDraft:
  assumes "m u i"
  shows "conf A m (createDraft A i u l k key) w"
  unfolding createDraft_def Let_def
proof (rule conf_remote)
  fix v
  have "confines m v (v\<lparr>jobs := jobs v @ [draftRow i u l k key (clock v)]\<rparr>)"
    using assms by (intro confines_jobs) (simp add: theirs_def draftRow_def)
  then show "confines m v (snd (
      if \<exists>j \<in> set (jobs v). conflicts i u key j then (Inl (prismaKnown A ''P2002''), v)
      else if u \<notin> u_id ` set (users v) then (Inl (prismaKnown A ''P2003''), v)
      else (Inr (JOB_REPORT_INCLUDE (v\<lparr>jobs := jobs v @ [draftRow i u l k key (clock v)]\<rparr>)
              (draftRow i u l k key (clock v))), v\<lparr>jobs := jobs v @ [draftRow i u l k key (clock v)]\<rparr>)))"
    by simp
qed

text \<open>The steps of a transaction that replaces the report of job \<open>i\<close>.\<close>

definition tidy :: "(js \<Rightarrow> js \<Rightarrow> bool) \<Rightarrow> js \<Rightarrow> world \<Rightarrow> bool" where
  "tidy m i w \<longleftrightarrow> i \<notin> theirIds m w \<and> distinct (map s_id (sections w))"

definition txConf :: "(js \<Rightarrow> js \<Rightarrow> bool) \<Rightarrow> js \<Rightarrow> 'a tx \<Rightarrow> bool" where
  "txConf m i f \<longleftrightarrow> (\<forall>w a. tidy m i w \<longrightarrow> fst (f w) = Inr a \<longrightarrow> confines m w (snd (f w)) \<and> tidy m i (snd (f w)))"

lemma txConfD: "txConf m i f \<Longrightarrow> tidy m i w \<Longrightarrow> f w = (Inr a, w') \<Longrightarrow> confines m w w' \<and> tidy m i w'"
  unfolding txConf_def by (metis fst_conv snd_conv)

lemma txConf_bind: "txConf m i f \<Longrightarrow> (\<And>a. txConf m i (g a)) \<Longrightarrow> txConf m i (txBind f g)"
  unfolding txConf_def txBind_def
  by (auto split: prod.splits sum.splits) (metis confines_trans fst_conv snd_conv)+

lemma tidy_section: "tidy m i w \<Longrightarrow> s \<in> set (sections w) \<Longrightarrow> t \<in> set (sections w) \<Longrightarrow> s_id s = s_id t \<Longrightarrow> s = t"
  by (auto simp: tidy_def distinct_map inj_on_def)

lemma theirIds_simps [simp]:
  "theirIds m (w\<lparr>sections := ss\<rparr>) = theirIds m w" "theirIds m (w\<lparr>findings := ff\<rparr>) = theirIds m w"
  "theirIds m (w\<lparr>entropy := n\<rparr>) = theirIds m w"
  by (simp_all add: theirIds_def)

lemma confines_report:
  assumes "filter (\<lambda>s. s_jobId s \<in> theirIds m w) ss = filter (\<lambda>s. s_jobId s \<in> theirIds m w) (sections w)"
    and "filter (theirFinding m (w\<lparr>sections := ss\<rparr>)) ff = filter (theirFinding m w) (findings w)"
  shows "confines m w (w\<lparr>entropy := n, sections := ss, findings := ff\<rparr>)"
proof -
  have "theirFinding m (w\<lparr>entropy := n, sections := ss, findings := ff\<rparr>) = theirFinding m (w\<lparr>sections := ss\<rparr>)"
    by (rule ext) (simp add: theirFinding_def)
  with assms show ?thesis by (simp add: confines_def theirObjects_def)
qed

lemma txConf_deleteFindings: "txConf m i (deleteFindings i)"
  unfolding txConf_def
proof (intro allI impI)
  fix w a assume t: "tidy m i w"
  let ?P = "\<lambda>f. \<not> (\<exists>s \<in> set (sections w). s_id s = f_sectionId f \<and> s_jobId s = i)"
  have keep: "?P f" if "theirFinding m w f" for f
    using that t tidy_section [OF t] unfolding theirFinding_def by (metis tidy_def)
  have "filter (theirFinding m w) (filter ?P (findings w)) = filter (theirFinding m w) (findings w)"
    unfolding filter_filter by (rule filter_cong [OF refl]) (use keep in blast)
  moreover have "theirFinding m (w\<lparr>findings := ff\<rparr>) = theirFinding m w" for ff
    by (rule ext) (simp add: theirFinding_def)
  ultimately show "confines m w (snd (deleteFindings i w)) \<and> tidy m i (snd (deleteFindings i w))"
    using t by (simp add: deleteFindings_def confines_def theirObjects_def tidy_def)
qed

lemma txConf_deleteSections: "txConf m i (deleteSections i)"
  unfolding txConf_def
proof (intro allI impI)
  fix w a assume t: "tidy m i w"
  let ?ss = "filter (\<lambda>s. s_jobId s \<noteq> i) (sections w)"
  have "filter (\<lambda>s. s_jobId s \<in> theirIds m w) ?ss = filter (\<lambda>s. s_jobId s \<in> theirIds m w) (sections w)"
    unfolding filter_filter by (rule filter_cong [OF refl]) (use t in \<open>auto simp: tidy_def\<close>)
  moreover have "theirFinding m (w\<lparr>sections := ?ss\<rparr>) = theirFinding m w"
    by (rule ext) (use t in \<open>auto simp: theirFinding_def tidy_def\<close>)
  ultimately show "confines m w (snd (deleteSections i w)) \<and> tidy m i (snd (deleteSections i w))"
    using t by (simp add: deleteSections_def confines_def theirObjects_def tidy_def distinct_map_filter)
qed

text \<open>The step of one section: its row, then the rows of its findings.\<close>

lemma conf_sectionRow:
  assumes t: "tidy m i w" and s: "s_id s \<notin> s_id ` set (sections w)" "s_jobId s = i"
  shows "confines m w (w\<lparr>entropy := n, sections := sections w @ [s]\<rparr>)
    \<and> tidy m i (w\<lparr>entropy := n, sections := sections w @ [s]\<rparr>)"
proof -
  have "theirFinding m (w\<lparr>sections := sections w @ [s]\<rparr>) = theirFinding m w"
    by (rule ext) (use t s in \<open>auto simp: theirFinding_def tidy_def\<close>)
  then have "confines m w (w\<lparr>entropy := n, sections := sections w @ [s], findings := findings w\<rparr>)"
    by (intro confines_report) (use t s in \<open>simp_all add: tidy_def\<close>)
  then show ?thesis using t s by (simp add: tidy_def)
qed

lemma conf_findingRows:
  assumes t: "tidy m i w" and s: "s \<in> set (sections w)" "s_jobId s = i"
    and f: "createFindings A (s_id s) fs w = (Inr (), w')"
  shows "confines m w w' \<and> tidy m i w'"
proof -
  let ?rows = "findingRows A (s_id s) (entropy w) 0 fs"
  have "\<not> theirFinding m w g" if "g \<in> set ?rows" for g
  proof
    assume "theirFinding m w g"
    then obtain r where r: "r \<in> set (sections w)" "s_id r = f_sectionId g" "s_jobId r \<in> theirIds m w"
      unfolding theirFinding_def by blast
    have "f_sectionId g = s_id s" using that findingRows_sectionId by blast
    with r tidy_section [OF t r(1) s(1)] have "r = s" by simp
    with r(3) s(2) t show False by (simp add: tidy_def)
  qed
  then have none: "filter (theirFinding m w) ?rows = []" by (simp add: filter_empty_conv)
  have w': "w' = w\<lparr>entropy := entropy w + length fs, findings := findings w @ ?rows\<rparr>"
    using f by (auto simp: createFindings_def Let_def split: if_splits)
  have "theirFinding m w' = theirFinding m w" by (rule ext) (simp add: w' theirFinding_def)
  with none t show ?thesis by (simp add: w' confines_def theirObjects_def tidy_def)
qed

lemma txConf_insertSections: "txConf m i (insertSections A i n secs)"
proof (induction secs arbitrary: n)
  case (Cons sec rest)
  show ?case
    unfolding txConf_def
  proof (intro allI impI)
    fix w :: world and a
    let ?row = "\<lparr>s_id = uuid A (entropy w), s_jobId = i, s_title = rs_title sec, s_sortOrder = n\<rparr>"
    let ?w1 = "w\<lparr>entropy := Suc (entropy w), sections := sections w @ [?row]\<rparr>"
    let ?fs = "if length (rs_findings sec) > 0 then createFindings A (s_id ?row) (rs_findings sec) else (\<lambda>w. (Inr (), w))"
    assume t: "tidy m i w" and r: "fst (insertSections A i n (sec # rest) w) = Inr a"
    then have new: "s_id ?row \<notin> s_id ` set (sections w)"
      and c: "createSection A i (rs_title sec) n w = (Inr (s_id ?row), ?w1)"
      and r1: "fst (txBind ?fs (\<lambda>_. insertSections A i (n + 1) rest) ?w1) = Inr a"
      by (auto simp: txBind_def createSection_def Let_def split: if_splits)
    from conf_sectionRow [OF t new] have c1: "confines m w ?w1" and t1: "tidy m i ?w1" by simp_all
    from r1 obtain w2 where f: "?fs ?w1 = (Inr (), w2)"
      and r2: "fst (insertSections A i (n + 1) rest w2) = Inr a"
      by (auto simp: txBind_def split: prod.splits sum.splits)
    have c2: "confines m ?w1 w2 \<and> tidy m i w2"
      using f t1 conf_findingRows [OF t1, of ?row A "rs_findings sec" w2]
      by (cases "rs_findings sec = []") simp_all
    from Cons.IH [of "n + 1"] c2 r2 have "confines m w2 (snd (insertSections A i (n + 1) rest w2))
        \<and> tidy m i (snd (insertSections A i (n + 1) rest w2))" by (auto simp: txConf_def)
    moreover have "insertSections A i n (sec # rest) w = insertSections A i (n + 1) rest w2"
      using c f by (cases "rs_findings sec = []") (simp_all add: txBind_def)
    ultimately show "confines m w (snd (insertSections A i n (sec # rest) w))
        \<and> tidy m i (snd (insertSections A i n (sec # rest) w))"
      using c1 c2 confines_trans by metis
  qed
qed (simp add: txConf_def)

lemma tidy_now: "mineFor A m i w \<Longrightarrow> evolves A w v \<Longrightarrow> tidy m i v"
  using evolves_inv(1) mineFor_now by (auto simp: tidy_def inv_def report_tables_def)

lemma conf_replaceReport:
  assumes "mineFor A m i w"
  shows "conf A m (replaceReport A i secs) w"
proof -
  have "txConf m i (txBind (deleteFindings i) (\<lambda>_. txBind (deleteSections i) (\<lambda>_. insertSections A i 0 secs)))"
    by (intro txConf_bind txConf_deleteFindings txConf_deleteSections txConf_insertSections)
  then show ?thesis
    unfolding replaceReport_def txConf_def by (intro conf_transaction) (use tidy_now [OF assms] in blast)
qed

lemma txConf_setLabel:
  assumes "m u i"
  shows "txConf m i (setLabel A u i l)"
  unfolding txConf_def
proof (intro allI impI)
  fix w a assume t: "tidy m i w" and r: "fst (setLabel A u i l w) = Inr a"
  let ?f = "\<lambda>j. touch w (case l of Given l \<Rightarrow> j\<lparr>j_label := l\<rparr> | _ \<Rightarrow> j)"
  let ?w = "w\<lparr>jobs := upd (\<lambda>j. j_id j = i \<and> j_userId j = u) ?f (jobs w)\<rparr>"
  have w: "snd (setLabel A u i l w) = ?w" using r by (auto simp: setLabel_def split: if_splits)
  have c: "confines m w ?w" using assms by (intro confines_upd) (auto split: field.split)
  then have "theirs m ?w = theirs m w" by (simp add: confines_def)
  with t have "tidy m i ?w" by (simp add: tidy_def theirIds_def)
  with c show "confines m w (snd (setLabel A u i l w)) \<and> tidy m i (snd (setLabel A u i l w))" unfolding w ..
qed

lemma conf_replaceReportScoped:
  assumes "m u i" and "mineFor A m i w"
  shows "conf A m (replaceReportScoped A u i l secs) w"
  unfolding replaceReportScoped_def
proof (rule conf_transaction)
  let ?tx = "txBind (deleteFindings i) (\<lambda>_. txBind (deleteSections i) (\<lambda>_.
      txBind (insertSections A i 0 secs) (\<lambda>_. setLabel A u i l)))"
  have tx: "txConf m i ?tx"
    by (intro txConf_bind txConf_deleteFindings txConf_deleteSections txConf_insertSections
        txConf_setLabel [of m u i, OF assms(1)])
  fix v a assume v: "evolves A w v"
  let ?c = "\<exists>j \<in> set (jobs v). j_id j = i \<and> visible u j"
  assume "fst (if \<not> ?c then (Inl (PrismaKnown (lit ''P2025'') (lit ''Job not found'')), v) else ?tx v) = Inr a"
  with tx tidy_now [OF assms(2) v] show
    "confines m v (snd (if \<not> ?c then (Inl (PrismaKnown (lit ''P2025'') (lit ''Job not found'')), v) else ?tx v))"
    by (auto simp: txConf_def split: if_splits)
qed

section \<open>Objects and queue\<close>

text \<open>No job outside has the keys of a selected job.\<close>

lemma their_keys:
  assumes "inv A v" and "owns (jobs v) u i" and "i \<notin> theirIds m v" and "j \<in> set (theirs m v)"
  shows "audioKey (j_userId j) (j_id j) \<notin> {[], audioKey u i, pdfKey u i}"
    and "pdfKey (j_userId j) (j_id j) \<notin> {[], audioKey u i, pdfKey u i}"
proof -
  obtain j0 where j0: "j0 \<in> set (jobs v)" "j_id j0 = i" "j_userId j0 = u"
    using assms(2) by (auto simp: owns_def)
  have j: "j \<in> set (jobs v)" "j_id j \<noteq> i" using assms(3,4) by (auto simp: theirs_def theirIds_def)
  note sl = slashless [OF assms(1) j(1)] slashless [OF assms(1) j0(1)]
  have "audioKey (j_userId j) (j_id j) \<noteq> audioKey u i" "pdfKey (j_userId j) (j_id j) \<noteq> pdfKey u i"
    using audioKey_inj pdfKey_inj sl j0(2,3) j(2) by blast+
  then show "audioKey (j_userId j) (j_id j) \<notin> {[], audioKey u i, pdfKey u i}"
    "pdfKey (j_userId j) (j_id j) \<notin> {[], audioKey u i, pdfKey u i}"
    by (auto simp: audioKey_neq_pdfKey [symmetric])
qed

lemma conf_putObject_pdf:
  assumes "mineFor A m i w" and "owns (jobs w) u i"
  shows "conf A m (putObject (pdfKey u i) b t) w"
  unfolding putObject_def
proof (rule conf_command, rule confines_bucket)
  fix v j assume v: "evolves A w v" and j: "j \<in> set (theirs m v)"
  from their_keys [OF evolves_inv(1) [OF v] owns_stable [OF assms(2) v] mineFor_now [OF assms(1) v] j]
  show "((bucket v)(pdfKey u i \<mapsto> \<lparr>o_body = b, o_contentType = t\<rparr>)) (audioKey (j_userId j) (j_id j))
      = bucket v (audioKey (j_userId j) (j_id j))
    \<and> ((bucket v)(pdfKey u i \<mapsto> \<lparr>o_body = b, o_contentType = t\<rparr>)) (pdfKey (j_userId j) (j_id j))
      = bucket v (pdfKey (j_userId j) (j_id j))" by simp
qed

lemma conf_deleteObjects:
  assumes "mineFor A m i w" and "owns (jobs w) u i" and "set ks \<subseteq> {[], audioKey u i, pdfKey u i}"
  shows "conf A m (deleteObjects ks) w"
proof -
  let ?present = "filter (\<lambda>k. length k > 0) ks"
  have "conf A m (command (\<lambda>w. w\<lparr>bucket := (bucket w) |` (- set ?present)\<rparr>)) w"
  proof (rule conf_command, rule confines_bucket)
    fix v j assume v: "evolves A w v" and j: "j \<in> set (theirs m v)"
    from their_keys [OF evolves_inv(1) [OF v] owns_stable [OF assms(2) v] mineFor_now [OF assms(1) v] j] assms(3)
    have "audioKey (j_userId j) (j_id j) \<notin> set ?present" "pdfKey (j_userId j) (j_id j) \<notin> set ?present" by auto
    then show "((bucket v) |` (- set ?present)) (audioKey (j_userId j) (j_id j)) = bucket v (audioKey (j_userId j) (j_id j))
      \<and> ((bucket v) |` (- set ?present)) (pdfKey (j_userId j) (j_id j)) = bucket v (pdfKey (j_userId j) (j_id j))"
      by (simp add: restrict_map_def)
  qed
  then show ?thesis by (simp add: deleteObjects_def Let_def)
qed

lemma conf_removeJob:
  assumes "mineFor A m (b_id b) w"
  shows "conf A m (removeJob A b) w"
  unfolding removeJob_def
proof (rule conf_remote)
  fix v assume "evolves A w v"
  from mineFor_now [OF assms this] have "filter (\<lambda>c. b_id c \<in> theirIds m v) (filter (\<lambda>c. b_id c \<noteq> b_id b) (queue v))
      = filter (\<lambda>c. b_id c \<in> theirIds m v) (queue v)"
    unfolding filter_filter by (intro filter_cong) auto
  then show "confines m v (snd (if \<exists>c \<in> set (queue v). b_id c = b_id b \<and> b_state c = BActive
     then (Inl (PlainError (libraryMessage A (lit ''locked''))), v)
     else (Inr (), v\<lparr>queue := filter (\<lambda>c. b_id c \<noteq> b_id b) (queue v)\<rparr>)))" by (simp add: confines_queue)
qed

lemma conf_addJob: "mineFor A m i w \<Longrightarrow> conf A m (addJob d i n) w"
  unfolding addJob_def by (rule conf_command) (auto intro!: confines_queue dest: mineFor_now)

lemma confines_queue_upd:
  assumes "i \<notin> theirIds m w" and "\<And>b. P b \<Longrightarrow> b_id b = i" and "\<And>b. b_id (f b) = b_id b"
  shows "confines m w (w\<lparr>queue := upd P f (queue w)\<rparr>)"
proof -
  have "filter (\<lambda>b. b_id b \<in> theirIds m w) (upd P f q) = filter (\<lambda>b. b_id b \<in> theirIds m w) q" for q
    using assms by (induction q) (auto simp: upd_def)
  then show ?thesis by (intro confines_queue) simp
qed

end
