(* ===== verification/Http.thy ===== *)
theory Http
  imports Jobs_Service Auth
begin

text \<open>
  The HTTP surface: the controllers (\<^verbatim>\<open>jobs.controller.ts\<close>, \<^verbatim>\<open>auth.controller.ts\<close>), the global guard and the
  \<^verbatim>\<open>@CurrentUser()\<close> decorator in front of them, and the exception filter (\<^verbatim>\<open>all-exceptions.filter.ts\<close>) behind
  them. A request is taken as the framework has routed and transformed it: the route with its path parameter and
  body or query object, and the headers that are read. The validation pipe applies the rules declared on the DTOs
  (\<open>Domain\<close>); its texts, like those of the UUID pipe, come from outside.
\<close>

section \<open>Requests and replies\<close>

datatype route =
    GetJobs PaginationQueryDto
  | PostJobs CreateJobDto
  | GetJob js
  | PatchJob js UpdateJobDto
  | PostJobProcess js
  | GetJobPdf js
  | DeleteJob js
  | PostAuthApple AppleSignInDto
  | PostAuthRefresh RefreshDto

record http_request =
  hr_route :: route
  hr_url :: js
  hr_id :: "js option"
  hr_authorization :: "js option"
  hr_idempotencyKey :: "js option"

datatype body =
    JobsBody PaginatedJobs
  | CreatedBody CreateJobResponseDto
  | JobBody JobDto
  | PdfBody PdfUrlDto
  | NoBody
  | TokenBody TokenResponseDto

datatype message = Text js | Texts "js list"

record ProblemResponse =
  pr_statusCode :: nat
  pr_error :: js
  pr_message :: message
  pr_requestId :: "js option"
  pr_timestamp :: nat
  pr_path :: js

datatype reply = Success nat body | Problem ProblemResponse

section \<open>The exception filter\<close>

text \<open>Status and \<^verbatim>\<open>error\<close> field of Nest's exceptions.\<close>

fun kindStatus :: "http_kind \<Rightarrow> nat \<times> js" where
  "kindStatus BadRequest = (400, lit ''Bad Request'')"
| "kindStatus Unauthorized = (401, lit ''Unauthorized'')"
| "kindStatus NotFound = (404, lit ''Not Found'')"
| "kindStatus Conflict = (409, lit ''Conflict'')"

definition mapPrisma :: "js \<Rightarrow> nat \<times> js \<times> js" where
  "mapPrisma code =
     (if code = lit ''P2025'' then (404, lit ''Not Found'', lit ''Resource not found.'')
      else if code = lit ''P2002'' then (409, lit ''Conflict'', lit ''Resource already exists.'')
      else if code = lit ''P2003'' then (400, lit ''Bad Request'', lit ''Related resource missing.'')
      else (500, lit ''Internal Server Error'', lit ''A database error occurred.''))"

definition normalizeError :: "err \<Rightarrow> nat \<times> js \<times> message" where
  "normalizeError ex =
     (case ex of
        HttpException k m \<Rightarrow> (fst (kindStatus k), snd (kindStatus k), Text m)
      | ValidationFailed ms \<Rightarrow> (fst (kindStatus BadRequest), snd (kindStatus BadRequest), Texts ms)
      | PrismaKnown code m \<Rightarrow> (case mapPrisma code of (s, e, t) \<Rightarrow> (s, e, Text t))
      | PrismaValidation m \<Rightarrow> (400, lit ''Bad Request'', Text (lit ''Invalid query parameters.''))
      | _ \<Rightarrow> (500, lit ''Internal Server Error'', Text (lit ''An unexpected error occurred.'')))"

definition problemOf :: "http_request \<Rightarrow> nat \<Rightarrow> err \<Rightarrow> ProblemResponse" where
  "problemOf r t ex = (case normalizeError ex of (status, error, message) \<Rightarrow>
     \<lparr>pr_statusCode = status, pr_error = error, pr_message = message,
      pr_requestId = hr_id r, pr_timestamp = t, pr_path = hr_url r\<rparr>)"

section \<open>Guard and decorator\<close>

fun isPublic :: "route \<Rightarrow> bool" where
  "isPublic (PostAuthApple d) = True"
| "isPublic (PostAuthRefresh d) = True"
| "isPublic _ = False"

text \<open>The user the guard attaches to the request.\<close>

definition guardRoute :: "app \<Rightarrow> http_request \<Rightarrow> AuthenticatedUser option io" where
  "guardRoute A r = (if isPublic (hr_route r) then Ret None
     else bindP (canActivate A (hr_authorization r)) (\<lambda>user. Ret (Some user)))"

definition currentUser :: "AuthenticatedUser option \<Rightarrow> AuthenticatedUser io" where
  "currentUser user = (case user of
     None \<Rightarrow> Throw (unauthorized ''Authentication required.'') | Some u \<Rightarrow> Ret u)"

section \<open>Pipes\<close>

definition validBody :: "app \<Rightarrow> route \<Rightarrow> bool" where
  "validBody A rt = (case rt of
     GetJobs q \<Rightarrow> valid_PaginationQueryDto q
   | PostJobs d \<Rightarrow> valid_CreateJobDto (charCount A) d
   | PatchJob i d \<Rightarrow> valid_UpdateJobDto (charCount A) d
   | PostAuthApple d \<Rightarrow> valid_AppleSignInDto (charCount A) d
   | PostAuthRefresh d \<Rightarrow> valid_RefreshDto (charCount A) d
   | _ \<Rightarrow> True)"

fun pathId :: "route \<Rightarrow> js option" where
  "pathId (GetJob i) = Some i"
| "pathId (PatchJob i d) = Some i"
| "pathId (PostJobProcess i) = Some i"
| "pathId (GetJobPdf i) = Some i"
| "pathId (DeleteJob i) = Some i"
| "pathId _ = None"

text \<open>Where both are wrong, which of the two answers 400 is not specified; here it is the path parameter.\<close>

definition pipes :: "app \<Rightarrow> (route \<Rightarrow> js list) \<Rightarrow> route \<Rightarrow> unit io" where
  "pipes A texts rt =
     (if \<exists>i \<in> set_option (pathId rt). \<not> isUUID A i
      then Throw (HttpException BadRequest (libraryMessage A (lit ''uuid'')))
      else if \<not> validBody A rt then Throw (ValidationFailed (texts rt))
      else Ret ())"

section \<open>Controllers\<close>

text \<open>\<^verbatim>\<open>idempotencyKey?.trim() || null\<close>\<close>

definition headerKey :: "js option \<Rightarrow> js option" where
  "headerKey h = (case h of None \<Rightarrow> None | Some k \<Rightarrow> if truthy (js_trim k) then Some (js_trim k) else None)"

definition jobsController :: "app \<Rightarrow> AuthenticatedUser \<Rightarrow> http_request \<Rightarrow> body io" where
  "jobsController A user r =
     (let u = au_userId user in
      case hr_route r of
        GetJobs q \<Rightarrow> bindP (list A u (pq_cursor q) (nat (pq_limit q))) (\<lambda>p. Ret (JobsBody p))
      | PostJobs d \<Rightarrow> bindP (create A u d (headerKey (hr_idempotencyKey r))) (\<lambda>c. Ret (CreatedBody c))
      | GetJob i \<Rightarrow> bindP (findOne A u i) (\<lambda>j. Ret (JobBody j))
      | PatchJob i d \<Rightarrow> bindP (update A u i d) (\<lambda>j. Ret (JobBody j))
      | PostJobProcess i \<Rightarrow> bindP (process A u i) (\<lambda>j. Ret (JobBody j))
      | GetJobPdf i \<Rightarrow> bindP (getPdfUrl A u i) (\<lambda>p. Ret (PdfBody p))
      | DeleteJob i \<Rightarrow> bindP (remove u i) (\<lambda>_. Ret NoBody)
      | _ \<Rightarrow> Ret NoBody)"

definition authController :: "app \<Rightarrow> route \<Rightarrow> body io" where
  "authController A rt = (case rt of
     PostAuthApple d \<Rightarrow>
       bindP (signInWithApple A (as_identityToken d) (as_nonce d) (as_email d)) (\<lambda>t. Ret (TokenBody t))
   | PostAuthRefresh d \<Rightarrow> bindP (refresh A (rd_refreshToken d)) (\<lambda>t. Ret (TokenBody t))
   | _ \<Rightarrow> Ret NoBody)"

fun successStatus :: "route \<Rightarrow> nat" where
  "successStatus (PostJobs d) = 201"
| "successStatus (DeleteJob i) = 204"
| "successStatus _ = 200"

text \<open>Guard, pipes, handler, and the filter around them all.\<close>

definition respond :: "app \<Rightarrow> (route \<Rightarrow> js list) \<Rightarrow> http_request \<Rightarrow> body io" where
  "respond A texts r =
     bindP (guardRoute A r) (\<lambda>user.
       if isPublic (hr_route r) then seqP (pipes A texts (hr_route r)) (authController A (hr_route r))
       else bindP (currentUser user) (\<lambda>u.
         seqP (pipes A texts (hr_route r)) (jobsController A u r)))"

definition serve :: "app \<Rightarrow> (route \<Rightarrow> js list) \<Rightarrow> http_request \<Rightarrow> reply io" where
  "serve A texts r = catchP
     (bindP (respond A texts r) (\<lambda>b. Ret (Success (successStatus (hr_route r)) b)))
     (\<lambda>ex. bindP now (\<lambda>t. Ret (Problem (problemOf r t ex))))"

section \<open>Every request is answered\<close>

fun replyStatus :: "reply \<Rightarrow> nat" where
  "replyStatus (Success s b) = s"
| "replyStatus (Problem p) = pr_statusCode p"

lemma run_serve:
  "run (serve A texts r) w = (case run (respond A texts r) w of
     (Inr b, w') \<Rightarrow> (Inr (Success (successStatus (hr_route r)) b), w')
   | (Inl ex, w') \<Rightarrow> (Inr (Problem (problemOf r (clock w') ex)), w'))"
  by (simp add: serve_def split: prod.split sum.split)

text \<open>What a problem document tells: its status, its \<^verbatim>\<open>error\<close> and its message.\<close>

definition tells :: "ProblemResponse \<Rightarrow> nat \<Rightarrow> string \<Rightarrow> message \<Rightarrow> bool" where
  "tells p status error m \<longleftrightarrow> pr_statusCode p = status \<and> pr_error p = lit error \<and> pr_message p = m"

lemma normalizeError_status: "fst (normalizeError ex) \<in> {400, 401, 404, 409, 500}"
proof -
  have "fst (kindStatus k) \<in> {400, 401, 404, 409, 500}" for k by (cases k) simp_all
  then show ?thesis by (cases ex) (simp_all add: normalizeError_def mapPrisma_def)
qed

text \<open>
  C21. Every request to one of the nine jobs and auth routes that the throttler lets through is answered, whatever
  fails on the way: with the route's success status, or with a problem document that carries the request's id, path
  and the time, and tells exactly this. An HTTP exception: its status and name, and its text; failed validation: 400
  with all the texts. Postgres: 404 for a missing row, 409 for a taken key, 400 for a missing reference or a bad
  query, else 500, each with a text of its own that is not the library's. Any other error, of the queue, storage or
  the code: 500 and one fixed text.
\<close>

theorem every_request_answered:
  "case run (respond A texts r) w of
     (Inr b, w') \<Rightarrow> run (serve A texts r) w = (Inr (Success
         (case hr_route r of PostJobs d \<Rightarrow> 201 | DeleteJob i \<Rightarrow> 204 | _ \<Rightarrow> 200) b), w')
   | (Inl ex, w') \<Rightarrow> \<exists>p. run (serve A texts r) w = (Inr (Problem p), w')
       \<and> pr_requestId p = hr_id r \<and> pr_path p = hr_url r \<and> pr_timestamp p = clock w'
       \<and> (case ex of
            HttpException BadRequest m \<Rightarrow> tells p 400 ''Bad Request'' (Text m)
          | HttpException Unauthorized m \<Rightarrow> tells p 401 ''Unauthorized'' (Text m)
          | HttpException NotFound m \<Rightarrow> tells p 404 ''Not Found'' (Text m)
          | HttpException Conflict m \<Rightarrow> tells p 409 ''Conflict'' (Text m)
          | ValidationFailed ms \<Rightarrow> tells p 400 ''Bad Request'' (Texts ms)
          | PrismaKnown code m \<Rightarrow>
              if code = lit ''P2002'' then tells p 409 ''Conflict'' (Text (lit ''Resource already exists.''))
              else if code = lit ''P2003'' then tells p 400 ''Bad Request'' (Text (lit ''Related resource missing.''))
              else if code = lit ''P2025'' then tells p 404 ''Not Found'' (Text (lit ''Resource not found.''))
              else tells p 500 ''Internal Server Error'' (Text (lit ''A database error occurred.''))
          | PrismaValidation m \<Rightarrow> tells p 400 ''Bad Request'' (Text (lit ''Invalid query parameters.''))
          | _ \<Rightarrow> tells p 500 ''Internal Server Error'' (Text (lit ''An unexpected error occurred.'')))"
proof (cases "run (respond A texts r) w")
  case (Pair x w')
  show ?thesis
  proof (cases x)
    case (Inl ex)
    have "pr_requestId (problemOf r t ex) = hr_id r" "pr_path (problemOf r t ex) = hr_url r"
      "pr_timestamp (problemOf r t ex) = t" for t by (simp_all add: problemOf_def split: prod.split)
    moreover have "run (serve A texts r) w = (Inr (Problem (problemOf r (clock w') ex)), w')"
      using Pair Inl by (simp add: run_serve)
    ultimately show ?thesis using Pair Inl
      by (auto simp: tells_def problemOf_def normalizeError_def mapPrisma_def lit_unfold split: err.split http_kind.split)
  next
    case (Inr b)
    with Pair show ?thesis by (simp add: run_serve split: route.split)
  qed
qed

section \<open>Nothing without a token\<close>

text \<open>
  C20. A request to any jobs route without a bearer token that verifies against the server's secret, issuer and
  audience is answered 401, and nothing is read or written: neither the validation rules nor the services are
  reached.
\<close>

theorem unauthenticated_refused:
  assumes "\<not> isPublic (hr_route r)"
    and "case extractToken (hr_authorization r) of None \<Rightarrow> True
      | Some t \<Rightarrow> jwtVerify A (accessSecret (jwt (cfg A))) (appBaseUrl (cfg A)) JWT_AUDIENCE (clock w) t = None"
  shows "\<exists>p. run (serve A texts r) w = (Inr (Problem p), w) \<and> pr_statusCode p = 401"
proof -
  have "\<exists>m. run (canActivate A (hr_authorization r)) w = (Inl (unauthorized m), w)"
    using assms(2) by (auto simp: canActivate_def split: option.splits)
  with assms(1) show ?thesis
    by (auto simp: run_serve respond_def guardRoute_def problemOf_def normalizeError_def unauthorized_def)
qed

theorem unauthenticated_refused_witness:
  "\<exists>p. run (serve sampleApp (\<lambda>_. []) \<lparr>hr_route = DeleteJob (lit ''j1''), hr_url = lit ''/jobs/j1'', hr_id = None,
      hr_authorization = Some (lit ''Bearer forged''), hr_idempotencyKey = None\<rparr>) sampleWorld
    = (Inr (Problem p), sampleWorld) \<and> pr_statusCode p = 401"
proof -
  have "extractToken (Some (lit ''Bearer forged'')) = Some (lit ''forged'')"
    by (simp add: extractToken_def lit_unfold js_lower_def js_lower_char_def)
  moreover have "jwtVerify sampleApp k i a t (lit ''forged'') = None" for k i a t
    by (simp add: sampleApp_def lit_unfold)
  ultimately show ?thesis
    using unauthenticated_refused [of "\<lparr>hr_route = DeleteJob (lit ''j1''), hr_url = lit ''/jobs/j1'', hr_id = None,
      hr_authorization = Some (lit ''Bearer forged''), hr_idempotencyKey = None\<rparr>" sampleApp sampleWorld] by simp
qed

section \<open>Under interference\<close>

lemma ok_Ret_True: "ok A (\<lambda>_ _. True) (Ret a) w"
  by simp

lemma ok_guardRoute: "ok A (\<lambda>_ _. True) (guardRoute A r) w"
  by (auto simp: guardRoute_def intro!: ok_bind [OF ok_canActivate])

lemma ok_pipes: "ok A (\<lambda>_ _. True) (pipes A texts rt) w"
  by (auto simp: pipes_def)

lemma ok_reply: "ok A Q p w \<Longrightarrow> ok A (\<lambda>_ _. True) (bindP p (\<lambda>x. Ret (f x))) w"
  by (rule ok_bind) auto

lemma ok_create_any: "ok A (\<lambda>_ _. True) (create A u dto key) w"
  by (rule ev.wpr_start, rule ok_True [OF ok_create]) (auto dest: evolves_inv simp: inv_def)

lemma ok_jobsController: "ok A (\<lambda>_ _. True) (jobsController A user r) w"
  by (cases "hr_route r") (simp_all add: jobsController_def ok_reply [OF ok_list] ok_reply [OF ok_create_any]
      ok_reply [OF ok_findOne] ok_reply [OF ok_update] ok_reply [OF ok_process] ok_reply [OF ok_getPdfUrl]
      ok_reply [OF ok_remove])

lemma ok_authController: "ok A (\<lambda>_ _. True) (authController A rt) w"
  by (cases rt) (simp_all add: authController_def ok_reply [OF ok_signInWithApple] ok_reply [OF ok_refresh])

lemma ok_respond: "ok A (\<lambda>_ _. True) (respond A texts r) w"
proof -
  have "ok A (\<lambda>_ _. True) (currentUser u) v" for u v
    by (simp add: currentUser_def split: option.split)
  then show ?thesis
    by (auto simp: respond_def intro!: ok_bind [OF ok_guardRoute] ok_bind ok_seq [OF ok_pipes]
        ok_jobsController ok_authController)
qed

lemma ok_serve: "ok A (\<lambda>_ _. True) (serve A texts r) w"
  unfolding serve_def by (rule ok_catch [OF ok_reply [OF ok_respond]]) (rule ok_reply [OF ok_now])

end
