(* ===== verification/Isolation.thy ===== *)
theory Isolation
  imports Confinement Http Pipeline
begin

text \<open>
  Isolation: a request changes nothing outside the jobs of its user, and a worker nothing outside the one job
  it was handed, step by step and whatever others do in between.
\<close>

section \<open>Requests\<close>

text \<open>The jobs of user \<open>u\<close>, and the job \<open>i\<close>.\<close>

definition ofUser :: "js \<Rightarrow> js \<Rightarrow> js \<Rightarrow> bool" where
  "ofUser u v i \<longleftrightarrow> v = u"

definition ofJob :: "js \<Rightarrow> js \<Rightarrow> js \<Rightarrow> bool" where
  "ofJob k v i \<longleftrightarrow> i = k"

lemma ofUser_self [simp]: "ofUser u u i"
  by (simp add: ofUser_def)

lemma mineFor_ofJob [simp]: "mineFor A (ofJob i) i w"
  by (rule mineFor_id) (simp add: ofJob_def)

lemma conf_requireOwned [simp]: "conf A m (requireOwned u i) w"
  unfolding requireOwned_def by (rule acts_bind_all) (auto split: option.split)

lemma conf_presign [simp]: "conf A m (presignAudioUpload A u i) w" "conf A m (presignPdfDownload A k) w"
  by (auto simp: presignAudioUpload_def presignPdfDownload_def Let_def intro!: acts_bind_all)

lemma conf_maybePdfUrl [simp]: "conf A m (maybePdfUrl A row) w"
  by (auto simp: maybePdfUrl_def intro!: acts_bind_all)

lemma conf_reads [simp]:
  "conf A m (list A u c n) w" "conf A m (findOne A u i) w" "conf A m (getPdfUrl A u i) w"
  by (auto simp: list_def findOne_def getPdfUrl_def Let_def intro!: acts_bind_all)

lemma conf_create [simp]: "conf A (ofUser u) (create A u dto key) w"
proof -
  have "conf A (ofUser u) (bindP draw (\<lambda>n. let i = uuid A n; k = audioKey u i in
      bindP (createDraft A i u (cj_label dto) k key) (\<lambda>job. bindP (presignAudioUpload A u i) (\<lambda>upload.
        Ret \<lparr>cr_job = jobToDto job None, cr_audioUploadUrl = upload\<rparr>)))) v" for v
    by (auto simp: Let_def intro!: acts_bind_all conf_createDraft)
  then show ?thesis
    unfolding create_def Let_def by (auto intro!: acts_bind_all split: option.split)
qed

lemma mine_readable: "readable jr v \<Longrightarrow> j_id (jr_row jr) = i \<and> visible u (jr_row jr) \<Longrightarrow>
    owns (jobs v) u i \<and> mineFor A (ofUser u) i v"
  using seen_owns mineFor_owns by (fastforce simp: readable_def)

lemma conf_update [simp]: "conf A (ofUser u) (update A u i dto) w"
  unfolding update_def
proof (rule conf.acts_bind [OF ok_requireOwned])
  fix jr v assume "(j_id (jr_row jr) = i \<and> visible u (jr_row jr)) \<and> readable jr v"
  then have "mineFor A (ofUser u) i v" using mine_readable by blast
  then show "conf A (ofUser u) (seqP
       (if uj_sections dto \<noteq> Undefined then
          replaceReportScoped A u i (uj_label dto) (toReportInput (case uj_sections dto of Given ss \<Rightarrow> Some ss | _ \<Rightarrow> None))
        else if uj_label dto \<noteq> Undefined then updateLabelScoped A u i (uj_label dto) else Ret ())
       (findOne A u i)) v"
    by (intro acts_seq_all) (simp_all add: conf_replaceReportScoped conf_updateLabelScoped)
qed simp

lemma conf_enqueueProcessing:
  assumes "mineFor A m (pj_jobId d) w"
  shows "conf A m (enqueueProcessing A d) w"
  unfolding enqueueProcessing_def Let_def
proof (rule conf.acts_bind)
  show "ok A (\<lambda>b _. \<forall>c. b = Some c \<longrightarrow> b_id c = pj_jobId d) (getJob (pj_jobId d)) w"
    unfolding getJob_def by (rule ok_query) (auto dest: find_SomeD)
  fix b :: "bull_job option" and v assume b: "\<forall>c. b = Some c \<longrightarrow> b_id c = pj_jobId d" and v: "evolves A w v"
  note mine = mineFor_later [OF assms v]
  have "conf A m (bindP (getState c) (\<lambda>state. if state = Some BCompleted \<or> state = Some BFailed
      then seqP (removeJob A c) (addJob d (pj_jobId d) n) else Ret ())) v" if "b = Some c" for c :: bull_job and n
  proof (rule conf.acts_bind [OF ok_getState])
    fix s v1 assume "evolves A v v1"
    with mine have m1: "mineFor A m (pj_jobId d) v1" by (rule mineFor_later)
    have "conf A m (seqP (removeJob A c) (addJob d (pj_jobId d) n)) v1"
      by (rule conf.acts_seq [OF ok_removeJob conf_removeJob]) (use b that m1 mineFor_later conf_addJob in auto)
    then show "conf A m (if s = Some BCompleted \<or> s = Some BFailed
      then seqP (removeJob A c) (addJob d (pj_jobId d) n) else Ret ()) v1" by simp
  qed simp
  then show "conf A m (case b of None \<Rightarrow> addJob d (pj_jobId d) (nat (jobMaxAttempts (ai (cfg A))))
    | Some b \<Rightarrow> bindP (getState b) (\<lambda>state. if state = Some BCompleted \<or> state = Some BFailed
        then seqP (removeJob A b) (addJob d (pj_jobId d) (nat (jobMaxAttempts (ai (cfg A))))) else Ret ())) v"
    using conf_addJob [OF mine] by (auto split: option.split)
qed simp

lemma conf_process [simp]: "conf A (ofUser u) (process A u i) w"
  unfolding process_def Let_def
proof (rule conf.acts_bind [OF ok_requireOwned])
  fix jr v assume "(j_id (jr_row jr) = i \<and> visible u (jr_row jr)) \<and> readable jr v"
  then have mine: "mineFor A (ofUser u) i v" using mine_readable by blast
  have "conf A (ofUser u) (seqP (setStatus A i QUEUED Null) (seqP (enqueueProcessing A \<lparr>pj_jobId = i, pj_userId = u\<rparr>)
      (bindP (findScoped u i) (\<lambda>r. Ret (jobToDto (case r of Some r \<Rightarrow> r | None \<Rightarrow> jr) None))))) v1"
    if "evolves A v v1" for v1
  proof (rule conf.acts_seq [OF ok_setStatus conf_setStatus])
    show "mineFor A (ofUser u) i v1" by (rule mineFor_later [OF mine that])
    fix v2 assume "evolves A v1 v2"
    then have "mineFor A (ofUser u) i v2" using mineFor_later mine that by blast
    then show "conf A (ofUser u) (seqP (enqueueProcessing A \<lparr>pj_jobId = i, pj_userId = u\<rparr>)
      (bindP (findScoped u i) (\<lambda>r. Ret (jobToDto (case r of Some r \<Rightarrow> r | None \<Rightarrow> jr) None)))) v2"
      by (intro acts_seq_all acts_bind_all) (simp_all add: conf_enqueueProcessing)
  qed simp
  then have "conf A (ofUser u) (bindP (objectExists k) (\<lambda>uploaded. if \<not> uploaded then Throw audioMissing
      else seqP (setStatus A i QUEUED Null) (seqP (enqueueProcessing A \<lparr>pj_jobId = i, pj_userId = u\<rparr>)
      (bindP (findScoped u i) (\<lambda>r. Ret (jobToDto (case r of Some r \<Rightarrow> r | None \<Rightarrow> jr) None)))))) v" for k
    by (intro conf.acts_bind [OF ok_objectExists]) simp_all
  then show "conf A (ofUser u) (if j_status (jr_row jr) = READY
      then bindP (maybePdfUrl A (jr_row jr)) (\<lambda>url. Ret (jobToDto jr url))
      else if j_status (jr_row jr) \<in> IN_FLIGHT then Ret (jobToDto jr None)
      else bindP (objectExists (case j_audioKey (jr_row jr) of Some k \<Rightarrow> k | None \<Rightarrow> audioKey u i)) (\<lambda>uploaded.
        if \<not> uploaded then Throw audioMissing
        else seqP (setStatus A i QUEUED Null) (seqP (enqueueProcessing A \<lparr>pj_jobId = i, pj_userId = u\<rparr>)
          (bindP (findScoped u i) (\<lambda>r. Ret (jobToDto (case r of Some r \<Rightarrow> r | None \<Rightarrow> jr) None)))))) v"
    by (auto intro!: acts_bind_all)
qed simp

lemma conf_remove [simp]: "conf A (ofUser u) (remove u i) w"
  unfolding remove_def
proof (rule conf.acts_bind [OF ok_requireOwned])
  fix jr v assume jr: "(j_id (jr_row jr) = i \<and> visible u (jr_row jr)) \<and> readable jr v"
  then have mine: "mineFor A (ofUser u) i v" and own: "owns (jobs v) u i" using mine_readable by blast+
  have keys: "set (presentKeys (jr_row jr)) \<subseteq> {[], audioKey u i, pdfKey u i}"
    using presentKeys_of [of "jr_row jr"] jr by (auto simp: readable_def)
  show "conf A (ofUser u) (bindP (softDeleteScoped u i) (\<lambda>count. if count = 0 then Throw jobNotFound
       else catchP (deleteObjects (presentKeys (jr_row jr))) (\<lambda>err. Ret ()))) v"
  proof (rule conf.acts_bind [OF ok_softDeleteScoped conf_softDeleteScoped])
    fix n v1 assume v1: "evolves A v v1"
    have "conf A (ofUser u) (deleteObjects (presentKeys (jr_row jr))) v1"
      by (rule conf_deleteObjects [OF mineFor_later [OF mine v1] owns_stable [OF own v1] keys])
    then show "conf A (ofUser u) (if n = 0 then Throw jobNotFound
       else catchP (deleteObjects (presentKeys (jr_row jr))) (\<lambda>err. Ret ())) v1"
      by (simp add: acts_catch_all)
  qed simp
qed simp

text \<open>The header's token, whenever it verifies, is the token of user \<open>u\<close>.\<close>

definition tokenOf :: "app \<Rightarrow> js option \<Rightarrow> js \<Rightarrow> bool" where
  "tokenOf A header u \<longleftrightarrow> (\<forall>tok t p. extractToken header = Some tok \<longrightarrow>
     jwtVerify A (accessSecret (jwt (cfg A))) (appBaseUrl (cfg A)) JWT_AUDIENCE t tok = Some p \<longrightarrow>
     strClaim p ''sub'' = Some u)"

lemma ok_canActivate_user:
  assumes "tokenOf A h u"
  shows "ok A (\<lambda>r _. au_userId r = u) (canActivate A h) w"
proof (cases "extractToken h")
  case (Some tok)
  have "ok A (\<lambda>r _. au_userId r = u) (bindP now (\<lambda>t. case jwtVerify A (accessSecret (jwt (cfg A))) (appBaseUrl (cfg A)) JWT_AUDIENCE t tok of
      None \<Rightarrow> Throw (unauthorized ''Invalid or expired access token.'')
    | Some payload \<Rightarrow> if claim payload ''type'' \<noteq> Some (JStr (lit ''access'')) \<or> strClaim payload ''sub'' = None
        then Throw (unauthorized ''Invalid or expired access token.'')
        else Ret \<lparr>au_userId = the (strClaim payload ''sub''),
          au_appleSub = (case strClaim payload ''appleSub'' of Some s \<Rightarrow> s | None \<Rightarrow> [])\<rparr>)) w"
    using assms Some by (intro ok_bind [OF ok_now]) (auto simp: tokenOf_def split: option.split)
  with Some show ?thesis by (simp add: canActivate_def)
qed (simp add: canActivate_def)

lemma conf_canActivate [simp]: "conf A m (canActivate A h) w"
  by (auto simp: canActivate_def intro!: acts_bind_all split: option.split)

lemma conf_pipes [simp]: "conf A m (pipes A texts rt) w"
  by (simp add: pipes_def)

lemma conf_jobsController [simp]: "conf A (ofUser (au_userId user)) (jobsController A user r) w"
  by (auto simp: jobsController_def Let_def intro!: acts_bind_all split: route.split)

lemma conf_respond:
  assumes "\<not> isPublic (hr_route r)" and "tokenOf A (hr_authorization r) u"
  shows "conf A (ofUser u) (respond A texts r) w"
  unfolding respond_def
proof (rule conf.acts_bind)
  show "ok A (\<lambda>user _. \<exists>x. user = Some x \<and> au_userId x = u) (guardRoute A r) w"
    using assms(1) by (auto simp: guardRoute_def intro!: ok_bind [OF ok_canActivate_user [OF assms(2)]])
  show "conf A (ofUser u) (guardRoute A r) w" by (auto simp: guardRoute_def intro!: acts_bind_all)
  fix user :: "AuthenticatedUser option" and v assume "\<exists>x. user = Some x \<and> au_userId x = u"
  then obtain x where x: "user = Some x" "au_userId x = u" by blast
  have "conf A (ofUser u) (seqP (pipes A texts (hr_route r)) (jobsController A x r)) v"
    using conf_jobsController [of A x] x(2) by (intro acts_seq_all) simp_all
  then show "conf A (ofUser u) (if isPublic (hr_route r)
      then seqP (pipes A texts (hr_route r)) (authController A (hr_route r))
      else bindP (currentUser user) (\<lambda>u. seqP (pipes A texts (hr_route r)) (jobsController A u r))) v"
    using assms(1) x(1) by (simp add: currentUser_def)
qed

lemma conf_serve:
  assumes "\<not> isPublic (hr_route r)" and "tokenOf A (hr_authorization r) u"
  shows "conf A (ofUser u) (serve A texts r) w"
  unfolding serve_def
  by (rule acts_catch_all [OF acts_bind_all [OF conf_respond [OF assms]]]) (auto intro!: acts_bind_all)

text \<open>
  C2. Tenant isolation over HTTP: a request to any jobs route, with any path, body, headers and faults, and while
  anything else happens in between, changes with none of its steps any user, any token, or of another
  user's jobs the row, the report, the events, the queue job or the objects. The user is the one the token was
  issued for; nothing the client sends besides the token matters.
\<close>

theorem request_isolated:
  assumes "inv A w" and "\<not> isPublic (hr_route r)" and "tokenOf A (hr_authorization r) u"
  shows "acts (evolves A) (confines (ofUser u)) (serve A texts r) w
    \<and> confines (ofUser u) w (snd (run (serve A texts r) w))"
  using conf_serve [OF assms(2,3)] conf.acts_run [OF ok_serve conf_serve [OF assms(2,3)] evolves_refl [OF assms(1)]]
  by blast

definition sampleRequest :: http_request where
  "sampleRequest = \<lparr>hr_route = DeleteJob (lit ''j1''), hr_url = lit ''/jobs/j1'', hr_id = None,
     hr_authorization = Some (lit ''Bearer good''), hr_idempotencyKey = None\<rparr>"

lemma sample_token: "tokenOf sampleApp (hr_authorization sampleRequest) (lit ''u1'')"
proof -
  have "extractToken (hr_authorization sampleRequest) = Some (lit ''good'')"
    by (simp add: sampleRequest_def extractToken_def lit_unfold js_lower_def js_lower_char_def)
  then show ?thesis
    by (auto simp: tokenOf_def sampleApp_def strClaim_def claim_def lit_unfold split: if_splits)
qed

theorem request_isolated_witness:
  "confines (ofUser (lit ''u1'')) sampleWorld (snd (run (serve sampleApp (\<lambda>_. []) sampleRequest) sampleWorld))"
  using request_isolated [OF sample_inv _ sample_token] by (simp add: sampleRequest_def)

section \<open>The worker\<close>

lemma conf_transcribe [simp]: "conf A m (transcribe A b f) w"
proof -
  have call: "conf A m modelCall v" for v
    unfolding modelCall_def by (rule acts_call) simp
  have "conf A m (sttProvider A b f) v" for v
    by (auto simp: sttProvider_def mockTranscribe_def openaiTranscription_def deepgramTranscribe_def
        intro!: acts_bind_all call split: openai_outcome.split deepgram_outcome.split)
  then show ?thesis by (auto simp: transcribe_def transcribeWith_def Let_def intro!: acts_bind_all)
qed

lemma conf_compile [simp]: "conf A m (compile A input) w"
proof -
  have call: "conf A m modelCall v" for v
    unfolding modelCall_def by (rule acts_call) simp
  have "conf A m (compilerProvider A input h) v" for h v
    by (auto simp: compilerProvider_def mockCompile_def deepseekCompile_def Let_def
        intro!: acts_bind_all call split: sum.split option.split)
  then show ?thesis by (auto simp: compile_def compileWith_def Let_def intro!: acts_bind_all)
qed

lemma conf_render [simp]: "conf A m (render A view) w"
proof -
  have "conf A m modelCall v" for v
    unfolding modelCall_def by (rule acts_call) simp
  then show ?thesis by (auto simp: render_def Let_def intro!: acts_bind_all split: sum.split)
qed

text \<open>A job's own steps are confined to it wherever they start.\<close>

lemma conf_own [simp]:
  "conf A (ofJob i) (setStatus A i s e) w" "conf A (ofJob i) (addEvent A i stage st msg) w"
  "conf A (ofJob i) (saveTranscript A i t) w" "conf A (ofJob i) (replaceReport A i secs) w"
  "conf A (ofJob i) (setPdfReady A i k) w"
  by (simp_all add: conf_setStatus conf_addEvent conf_saveTranscript conf_replaceReport conf_setPdfReady)

lemma conf_runStage:
  assumes "st \<noteq> READY" and body: "\<And>v. evolves A w v \<Longrightarrow> conf A (ofJob i) p v"
  shows "conf A (ofJob i) (runStage A i stage st p) w"
  unfolding runStage_def
proof (rule conf.acts_seq [OF ok_setStatus [OF assms(1)] conf_own(1)],
    rule conf.acts_seq [OF ok_addEvent conf_own(2)], rule acts_catch_all)
  fix v v' assume v: "evolves A w v" and v': "evolves A v v'"
  have "conf A (ofJob i) (withTimeout p ms stage) v'" for ms
    unfolding withTimeout_def
  proof (rule conf.acts_bind [OF ok_nextDeadline])
    show "conf A (ofJob i) nextDeadline v'"
      unfolding nextDeadline_def by (rule acts_call) (simp split: list.split)
    fix d x assume "evolves A v' x"
    with body v v' evolves_trans have "conf A (ofJob i) p x" by blast
    then show "conf A (ofJob i) (case d of None \<Rightarrow> p | Some n \<Rightarrow> deadline (StageTimeoutError stage ms) p n) x"
      by (auto intro: conf.acts_deadline split: option.split)
  qed
  then show "conf A (ofJob i) (bindP (withTimeout p (stageTimeoutMs (ai (cfg A))) stage)
      (\<lambda>r. seqP (addEvent A i stage ''completed'' None) (Ret r))) v'"
    by (rule acts_bind_all) (simp add: acts_seq_all)
qed (simp add: acts_seq_all)

lemma conf_transcribeStage [simp]: "conf A (ofJob i) (transcribeStage A i key ex) w"
proof -
  have "conf A (ofJob i) (runStage A i STAGE_TRANSCRIBE TRANSCRIBING
      (bindP (getObjectStream A key) (\<lambda>stream. bindP (transcribe A stream key) (\<lambda>transcript.
         seqP (saveTranscript A i transcript) (Ret transcript))))) w"
    by (rule conf_runStage) (auto intro!: acts_bind_all acts_seq_all)
  then show ?thesis by (simp add: transcribeStage_def Let_def split: option.split)
qed

lemma conf_compileStage [simp]: "conf A (ofJob i) (compileStage A i label t ex) w"
  by (auto simp: compileStage_def intro!: conf_runStage acts_bind_all acts_seq_all)

lemma conf_renderStage:
  assumes "owns (jobs w) u i"
  shows "conf A (ofJob i) (renderStage A i u label secs) w"
  unfolding renderStage_def Let_def
proof (rule conf_runStage)
  fix v assume v: "evolves A w v"
  show "conf A (ofJob i) (bindP now (\<lambda>t. bindP (render A (toReportView i label t secs)) (\<lambda>pdf.
      seqP (putObject (pdfKey u i) pdf PDF_CONTENT_TYPE) (setPdfReady A i (pdfKey u i))))) v"
  proof (rule conf.acts_bind [OF ok_now conf_now], rule conf.acts_bind [OF ok_render conf_render], rule acts_seq_all)
    fix v1 v2 pdf assume "evolves A v v1" "evolves A v1 v2"
    with owns_stable [OF owns_stable [OF owns_stable [OF assms v]]] have "owns (jobs v2) u i" by blast
    then show "conf A (ofJob i) (putObject (pdfKey u i) pdf PDF_CONTENT_TYPE) v2"
      by (intro conf_putObject_pdf) simp_all
  qed simp
qed simp

lemma conf_markFailed [simp]: "conf A (ofJob i) (markFailed A i msg) w"
  by (auto simp: markFailed_def Let_def intro!: acts_bind_all acts_seq_all split: option.split)

lemma conf_runPipeline: "conf A (ofJob (pj_jobId d)) (runPipeline A d) w"
  unfolding runPipeline_def
proof (rule conf.acts_bind [OF ok_findById])
  let ?i = "pj_jobId d"
  fix found v assume found: "\<forall>jr. found = Some jr \<longrightarrow> j_id (jr_row jr) = ?i \<and> readable jr v"
  have stages: "conf A (ofJob ?i) (stages A d job key) v"
    if "found = Some job" "j_userId (jr_row job) = pj_userId d" for job key
  proof -
    have own: "owns (jobs v) (pj_userId d) ?i"
      using found that seen_owns unfolding readable_def by metis
    show ?thesis
      unfolding stages_def
      by (rule conf.acts_bind [OF ok_transcribeStage conf_transcribeStage],
          rule conf.acts_bind [OF ok_compileStage conf_compileStage], rule conf_renderStage)
        (use own owns_stable in blast)
  qed
  have "conf A (ofJob ?i) (catchP (stages A d job key) (\<lambda>err. if isPermanent err
      then seqP (markFailed A ?i (err_message err)) (Throw (asUnrecoverable err)) else Throw err)) v"
    if "found = Some job" "j_userId (jr_row job) = pj_userId d" for job key
    by (rule acts_catch_all [OF stages [OF that]]) (simp add: acts_seq_all)
  then show "conf A (ofJob ?i) (case found of None \<Rightarrow> Ret () | Some job \<Rightarrow>
      if j_deletedAt (jr_row job) \<noteq> None then Ret ()
      else if j_userId (jr_row job) \<noteq> pj_userId d then Throw (ownerMismatch ?i)
      else if j_status (jr_row job) = READY then Ret ()
      else (case j_audioKey (jr_row job) of None \<Rightarrow> Throw (noAudioKey ?i)
        | Some key \<Rightarrow> if \<not> truthy key then Throw (noAudioKey ?i)
           else catchP (stages A d job key) (\<lambda>err. if isPermanent err
             then seqP (markFailed A ?i (err_message err)) (Throw (asUnrecoverable err)) else Throw err))) v"
    by (auto split: option.split)
qed simp

lemma conf_handleFailure: "conf A (ofJob (pj_jobId (b_data b))) (handleFailure A (Some b) e) w"
proof -
  have "conf A m (addToDlq x) v" for m x v
    unfolding addToDlq_def by (rule conf_command) simp
  then show ?thesis by (auto simp: handleFailure_def intro!: acts_catch_all acts_seq_all)
qed

lemma mine_ofJob: "i \<notin> theirIds (ofJob i) v"
  by (auto simp: theirIds_def theirs_def ofJob_def)

lemma conf_moveJob [simp]: "conf A (ofJob i) (moveJob i s) w"
  unfolding moveJob_def
  by (rule acts_call) (auto intro: confines_queue_upd [OF mine_ofJob] simp: settled_def)

lemma conf_takeJob [simp]: "conf A (ofJob i) (takeJob i) w"
  unfolding takeJob_def
  by (rule acts_call) (auto intro: confines_queue_upd [OF mine_ofJob] split: option.split)

text \<open>The payload of the job a worker takes names that job.\<close>

lemma ok_takeJob_data: "ok A (\<lambda>b _. \<forall>c. b = Some c \<longrightarrow> pj_jobId (b_data c) = i) (takeJob i) w"
  unfolding takeJob_def
proof (rule ok_call)
  fix v assume "evolves A w v"
  note v = evolves_inv(1) [OF this]
  show "evolves A v (snd (case find (\<lambda>b. b_id b = i \<and> b_state b = BWaiting) (queue v) of None \<Rightarrow> (Inr None, v)
      | Some b \<Rightarrow> (Inr (Some b), v\<lparr>queue := upd (\<lambda>c. b_id c = i) (\<lambda>c. c\<lparr>b_state := BActive\<rparr>) (queue v)\<rparr>)))"
    using v by (auto split: option.split intro: evolves_refl evolves_queue_upd)
  have "queue_ok (jobs v) (queue v)" using v by (simp add: inv_def)
  then show "\<forall>c. a = Some c \<longrightarrow> pj_jobId (b_data c) = i"
    if "fst (case find (\<lambda>b. b_id b = i \<and> b_state b = BWaiting) (queue v) of None \<Rightarrow> (Inr None, v)
      | Some b \<Rightarrow> (Inr (Some b), v\<lparr>queue := upd (\<lambda>c. b_id c = i) (\<lambda>c. c\<lparr>b_state := BActive\<rparr>) (queue v)\<rparr>))
      = (Inr a :: err + bull_job option)" for a
    using that by (auto simp: queue_ok_def split: option.splits dest!: find_SomeD)
qed

lemma conf_workerRun: "conf A (ofJob i) (workerRun A i) w"
  unfolding workerRun_def
proof (rule conf.acts_bind [OF ok_takeJob_data conf_takeJob])
  fix job :: "bull_job option" and v assume job: "\<forall>c. job = Some c \<longrightarrow> pj_jobId (b_data c) = i"
  have "conf A (ofJob i) (attempt (runPipeline A (b_data b))) v" if "job = Some b" for b
    using conf_runPipeline [of A "b_data b"] job that unfolding attempt_def
    by (intro acts_catch_all acts_bind_all) simp_all
  moreover have "bgacts (evolves A) (confines (ofJob i)) (detach (handleFailure A (Some (settled s b)) e)) x"
    if "job = Some b" for b s e x
    using bgacts_detach [OF conf_handleFailure [of A "settled s b"]] job that by (simp add: settled_def)
  ultimately show "conf A (ofJob i) (case job of None \<Rightarrow> Ret ()
      | Some b \<Rightarrow> bindP (attempt (runPipeline A (b_data b))) (\<lambda>outcome. case outcome of
          Inr _ \<Rightarrow> moveJob i BCompleted
        | Inl e \<Rightarrow> (let s = failedState b e in
            seqP (moveJob i s) (Spawn (detach (handleFailure A (Some (settled s b)) e)) (Ret ()))))) v"
    by (auto simp: Let_def intro!: acts_bind_all acts_seq_all split: option.split sum.split)
qed

text \<open>
  C3. Job isolation: an attempt at the queue job \<open>i\<close>, with its failure listener and with stages abandoned by their
  timer, at any point and whatever else happens in between, changes with none of its steps any user, any token,
  or of any other job the row, the report, the events, the queue job or the objects.
\<close>

theorem worker_isolated:
  assumes "inv A w"
  shows "acts (evolves A) (confines (ofJob i)) (workerRun A i) w
    \<and> confines (ofJob i) w (snd (settle (workerRun A i) w))"
  using conf_workerRun conf.acts_settle [OF ok_workerRun conf_workerRun evolves_refl [OF assms]] by blast

theorem worker_isolated_witness:
  "confines (ofJob (lit ''j1'')) sampleWorld (snd (settle (workerRun sampleApp (lit ''j1'')) sampleWorld))"
  using worker_isolated [OF sample_inv] by blast

end
