(* ===== verification/Health.thy ===== *)
theory Health
  imports Http
begin

text \<open>
  Liveness and readiness, \<^verbatim>\<open>server/src/health\<close>: the probes of Postgres and Redis, and what the exception filter makes of
  a failed readiness check. Terminus' \<^verbatim>\<open>HealthCheckService.check\<close> is a parameter; what it is relied on to do is the
  hypothesis \<open>terminus\<close>.
\<close>

section \<open>Probes\<close>

text \<open>
  How the stores answer the probes, and the Redis clients that are open: each readiness check opens one of its own.
\<close>

record probed =
  selectOne :: "err option"
  redisConnect :: "err option"
  redisPing :: "err + js"
  redisClients :: nat

type_synonym 'a probe = "(probed, err, 'a) prog"

text \<open>\<^verbatim>\<open>check.up()\<close> and \<^verbatim>\<open>check.down({ message })\<close> of Terminus, under the indicator's key.\<close>

datatype health = Up | Down js

type_synonym indicator = "js \<times> health"

text \<open>\<^verbatim>\<open>err instanceof Error\<close>\<close>

fun isError :: "err \<Rightarrow> bool" where
  "isError (NonError s) = False"
| "isError _ = True"

definition outcome :: "err option \<Rightarrow> err + unit" where
  "outcome e = (case e of None \<Rightarrow> Inr () | Some x \<Rightarrow> Inl x)"

definition prismaHealthy :: "js \<Rightarrow> indicator probe" where
  "prismaHealthy key =
     catchP (seqP (call (\<lambda>s. (outcome (selectOne s), s))) (Ret (key, Up)))
       (\<lambda>err. Ret (key, Down (if isError err then err_message err else lit ''postgres unreachable'')))"

definition redisHealthy :: "js \<Rightarrow> indicator probe" where
  "redisHealthy key =
     seqP (call (\<lambda>s. (Inr (), s\<lparr>redisClients := Suc (redisClients s)\<rparr>)))
       (finallyP
         (catchP
           (seqP (call (\<lambda>s. (outcome (redisConnect s), s)))
             (bindP (call (\<lambda>s. (redisPing s, s)))
               (\<lambda>pong. if pong \<noteq> lit ''PONG'' then Throw (PlainError (lit ''unexpected ping reply: '' @ pong))
                 else Ret (key, Up))))
           (\<lambda>err. Ret (key, Down (if isError err then err_message err else lit ''redis unreachable''))))
         (call (\<lambda>s. (Inr (), s\<lparr>redisClients := redisClients s - 1\<rparr>))))"

text \<open>\<^verbatim>\<open>liveness\<close>, with the uptime of the process in milliseconds: \<^verbatim>\<open>Math.round\<close> of the seconds.\<close>

definition liveness :: "nat \<Rightarrow> js \<times> nat" where
  "liveness uptimeMs = (lit ''ok'', (uptimeMs + 500) div 1000)"

definition readiness :: "(indicator probe list \<Rightarrow> 'r) \<Rightarrow> 'r" where
  "readiness healthCheck = healthCheck [prismaHealthy (lit ''postgres''), redisHealthy (lit ''redis'')]"

section \<open>The filter on any HTTP exception\<close>

text \<open>
  \<^verbatim>\<open>normalize\<close> for an \<^verbatim>\<open>HttpException\<close> with any response, a string or an object. \<open>Http.normalizeError\<close> is its
  outcome on the exceptions that the server throws itself.
\<close>

definition orElse :: "json option \<Rightarrow> js \<Rightarrow> json" where
  "orElse v d = (case v of None \<Rightarrow> JStr d | Some JNull \<Rightarrow> JStr d | Some x \<Rightarrow> x)"

definition normalizeHttp :: "nat \<Rightarrow> js \<Rightarrow> js \<Rightarrow> json \<Rightarrow> nat \<times> json \<times> json" where
  "normalizeHttp status name message res =
     (case res of
        JStr s \<Rightarrow> (status, JStr name, JStr s)
      | JObj obj \<Rightarrow> (status, orElse (map_of obj (lit ''error'')) name, orElse (map_of obj (lit ''message'')) message)
      | _ \<Rightarrow> (status, JStr name, JStr message))"

text \<open>
  A readiness check resolves (\<open>Inr\<close>) with its body or rejects (\<open>Inl\<close>) with a \<^verbatim>\<open>ServiceUnavailableException\<close> holding a
  response; the client sees 200 or what the filter makes of it.
\<close>

datatype ready_reply = ReadyOk json | ReadyProblem "nat \<times> json \<times> json"

definition readyReply :: "(indicator probe list \<Rightarrow> (json + json) probe) \<Rightarrow> ready_reply probe" where
  "readyReply healthCheck = bindP (readiness healthCheck) (\<lambda>r. Ret (case r of
     Inr body \<Rightarrow> ReadyOk body
   | Inl response \<Rightarrow> ReadyProblem (normalizeHttp 503 (lit ''ServiceUnavailableException'')
       (lit ''Service Unavailable Exception'') response)))"

lemma normalizeHttp_agrees:
  "normalizeError (HttpException k m) = (s, e, Text t) \<Longrightarrow>
    normalizeHttp s name m (JObj [(lit ''message'', JStr m), (lit ''error'', JStr e), (lit ''statusCode'', JNum n)])
      = (s, JStr e, JStr t)"
  by (cases k) (auto simp: normalizeError_def normalizeHttp_def orElse_def)

section \<open>What Terminus does\<close>

definition indicatorJson :: "indicator \<Rightarrow> js \<times> json" where
  "indicatorJson i = (fst i, JObj (case snd i of
     Up \<Rightarrow> [(lit ''status'', JStr (lit ''up''))]
   | Down m \<Rightarrow> [(lit ''status'', JStr (lit ''down'')), (lit ''message'', JStr m)]))"

definition healthBody :: "indicator list \<Rightarrow> json" where
  "healthBody is = JObj [
     (lit ''status'', JStr (lit (if \<forall>i \<in> set is. snd i = Up then ''ok'' else ''error''))),
     (lit ''info'', JObj (map indicatorJson (filter (\<lambda>i. snd i = Up) is))),
     (lit ''error'', JObj (map indicatorJson (filter (\<lambda>i. snd i \<noteq> Up) is))),
     (lit ''details'', JObj (map indicatorJson is))]"

primrec allProbes :: "indicator probe list \<Rightarrow> indicator list probe" where
  "allProbes [] = Ret []"
| "allProbes (p # ps) = bindP p (\<lambda>i. bindP (allProbes ps) (\<lambda>is. Ret (i # is)))"

text \<open>
  It runs all indicators and resolves with the collected result, or rejects with it when one is down (as the
  documentation of Terminus shows it).
\<close>

definition terminus :: "(indicator probe list \<Rightarrow> (json + json) probe) \<Rightarrow> bool" where
  "terminus healthCheck \<longleftrightarrow> (\<forall>ps s is s'. run (allProbes ps) s = (Inr is, s') \<longrightarrow>
     run (healthCheck ps) s = (Inr (if \<forall>i \<in> set is. snd i = Up then Inr (healthBody is) else Inl (healthBody is)), s'))"

section \<open>Every readiness check is answered\<close>

definition failure :: "err \<Rightarrow> string \<Rightarrow> js" where
  "failure e unknown = (if isError e then err_message e else lit unknown)"

definition postgresHealth :: "probed \<Rightarrow> health" where
  "postgresHealth s = (case selectOne s of None \<Rightarrow> Up | Some e \<Rightarrow> Down (failure e ''postgres unreachable''))"

definition redisHealth :: "probed \<Rightarrow> health" where
  "redisHealth s =
     (case redisConnect s of
        Some e \<Rightarrow> Down (failure e ''redis unreachable'')
      | None \<Rightarrow> (case redisPing s of
          Inl e \<Rightarrow> Down (failure e ''redis unreachable'')
        | Inr pong \<Rightarrow> if pong = lit ''PONG'' then Up else Down (lit ''unexpected ping reply: '' @ pong)))"

lemma run_prismaHealthy: "run (prismaHealthy key) s = (Inr (key, postgresHealth s), s)"
  by (simp add: prismaHealthy_def postgresHealth_def failure_def outcome_def split: option.split)

lemma run_redisHealthy: "run (redisHealthy key) s = (Inr (key, redisHealth s), s)"
  by (auto simp: redisHealthy_def redisHealth_def run_finallyP failure_def outcome_def split: option.split sum.split)

text \<open>
  C25. Readiness is answered whatever Postgres and Redis do: 200 exactly when Postgres answers the query and Redis
  connects and answers PONG, else the filter's 503 whose \<^verbatim>\<open>error\<close> field is the object of the indicators that are down,
  each with the message of the error behind it; and the Redis client of the probe is disconnected on every path.
\<close>

theorem ready_answers:
  assumes "terminus healthCheck"
  shows "run (readyReply healthCheck) s =
    (Inr (if postgresHealth s = Up \<and> redisHealth s = Up
       then ReadyOk (healthBody [(lit ''postgres'', Up), (lit ''redis'', Up)])
       else ReadyProblem (503,
         JObj (map indicatorJson (filter (\<lambda>i. snd i \<noteq> Up) [(lit ''postgres'', postgresHealth s), (lit ''redis'', redisHealth s)])),
         JStr (lit ''Service Unavailable Exception''))), s)"
proof -
  have "run (allProbes [prismaHealthy (lit ''postgres''), redisHealthy (lit ''redis'')]) s =
      (Inr [(lit ''postgres'', postgresHealth s), (lit ''redis'', redisHealth s)], s)"
    by (simp add: run_prismaHealthy run_redisHealthy)
  with assms have "run (readiness healthCheck) s =
      (Inr (if postgresHealth s = Up \<and> redisHealth s = Up
        then Inr (healthBody [(lit ''postgres'', postgresHealth s), (lit ''redis'', redisHealth s)])
        else Inl (healthBody [(lit ''postgres'', postgresHealth s), (lit ''redis'', redisHealth s)])), s)"
    unfolding terminus_def readiness_def by fastforce
  then show ?thesis by (simp add: readyReply_def normalizeHttp_def orElse_def healthBody_def)
qed

text \<open>A check as documented, and Postgres down with the text of its error.\<close>

definition sampleCheck :: "indicator probe list \<Rightarrow> (json + json) probe" where
  "sampleCheck ps = bindP (allProbes ps) (\<lambda>is. Ret (if \<forall>i \<in> set is. snd i = Up then Inr (healthBody is) else Inl (healthBody is)))"

lemma terminus_sampleCheck: "terminus sampleCheck"
  by (simp add: terminus_def sampleCheck_def)

definition postgresDown :: probed where
  "postgresDown = \<lparr>selectOne = Some (PlainError (lit ''no server at db:5432'')), redisConnect = None,
     redisPing = Inr (lit ''PONG''), redisClients = 0\<rparr>"

theorem ready_answers_witness:
  "run (readyReply sampleCheck) postgresDown =
    (Inr (ReadyProblem (503, JObj [(lit ''postgres'', JObj [(lit ''status'', JStr (lit ''down'')),
       (lit ''message'', JStr (lit ''no server at db:5432''))])], JStr (lit ''Service Unavailable Exception''))), postgresDown)"
  using ready_answers [OF terminus_sampleCheck, of postgresDown]
  by (simp add: postgresDown_def postgresHealth_def redisHealth_def failure_def indicatorJson_def)

end
