(* ===== verification/Startup.thy ===== *)
theory Startup
  imports Media
begin

text \<open>
  What happens before the first request: the S3 clients and the development bucket of
  \<^verbatim>\<open>media/media.service.ts\<close>, and the settings that \<^verbatim>\<open>main.ts\<close> and \<^verbatim>\<open>worker.ts\<close> apply in their order. Also how a HEAD
  request that fails is read (\<^verbatim>\<open>isNotFound\<close>), of which \<open>Media.objectExists\<close> is the outcome on the modelled bucket.
\<close>

section \<open>S3 clients\<close>

record S3ClientConfig =
  s3_region :: js
  s3_endpoint :: js
  s3_forcePathStyle :: bool
  s3_accessKeyId :: js
  s3_secretAccessKey :: js
  s3_requestChecksumCalculation :: "js option"
  s3_responseChecksumValidation :: "js option"

definition mediaClient :: "AppConfig \<Rightarrow> S3ClientConfig" where
  "mediaClient c = \<lparr>s3_region = lit ''auto'', s3_endpoint = endpoint (r2 c), s3_forcePathStyle = forcePathStyle (r2 c),
     s3_accessKeyId = accessKeyId (r2 c), s3_secretAccessKey = secretAccessKey (r2 c),
     s3_requestChecksumCalculation = Some (lit ''WHEN_REQUIRED''),
     s3_responseChecksumValidation = Some (lit ''WHEN_REQUIRED'')\<rparr>"

definition adminClient :: "AppConfig \<Rightarrow> S3ClientConfig" where
  "adminClient c = \<lparr>s3_region = lit ''us-east-1'', s3_endpoint = endpoint (r2 c), s3_forcePathStyle = forcePathStyle (r2 c),
     s3_accessKeyId = accessKeyId (r2 c), s3_secretAccessKey = secretAccessKey (r2 c),
     s3_requestChecksumCalculation = None, s3_responseChecksumValidation = None\<rparr>"

text \<open>An S3 rejection: its name and HTTP status if it has them, and its \<^verbatim>\<open>String\<close> form.\<close>

record s3_error =
  se_name :: "js option"
  se_httpStatusCode :: "nat option"
  se_string :: js

definition isNotFound :: "s3_error \<Rightarrow> bool" where
  "isNotFound e \<longleftrightarrow> se_name e = Some (lit ''NotFound'') \<or> se_name e = Some (lit ''NoSuchKey'') \<or> se_httpStatusCode e = Some 404"

text \<open>\<^verbatim>\<open>objectExists\<close>, given what the HEAD request comes to.\<close>

definition headOutcome :: "s3_error + unit \<Rightarrow> s3_error + bool" where
  "headOutcome r = (case r of Inr _ \<Rightarrow> Inr True | Inl e \<Rightarrow> if isNotFound e then Inr False else Inl e)"

section \<open>The development bucket\<close>

text \<open>
  What R2 will answer to the creation of the bucket, and what is seen of the call: the requests with the client they
  were sent by, the clients that are open, and the log.
\<close>

datatype log_line = Info js | Warn js

record r2admin =
  createReply :: "s3_error + unit"
  createRequests :: "(S3ClientConfig \<times> js) list"
  adminClients :: nat
  adminLog :: "log_line list"

type_synonym 'a admin = "(r2admin, s3_error, 'a) prog"

definition sendCreateBucket :: "S3ClientConfig \<Rightarrow> js \<Rightarrow> unit admin" where
  "sendCreateBucket client b = call (\<lambda>s. (createReply s, s\<lparr>createRequests := createRequests s @ [(client, b)]\<rparr>))"

definition log_to :: "log_line \<Rightarrow> unit admin" where
  "log_to l = call (\<lambda>s. (Inr (), s\<lparr>adminLog := adminLog s @ [l]\<rparr>))"

definition ensureBucketExists :: "AppConfig \<Rightarrow> unit admin" where
  "ensureBucketExists c =
     (if isProduction c then Ret ()
      else (let b = r2_bucket (r2 c) in
        seqP (call (\<lambda>s. (Inr (), s\<lparr>adminClients := Suc (adminClients s)\<rparr>)))
          (finallyP
            (catchP (seqP (sendCreateBucket (adminClient c) b) (log_to (Info (lit ''Created bucket '' @ b))))
              (\<lambda>err.
                if se_name err = Some (lit ''BucketAlreadyOwnedByYou'') \<or> se_name err = Some (lit ''BucketAlreadyExists'')
                then Ret ()
                else log_to (Warn (lit ''ensureBucketExists: ''
                  @ (case se_name err of Some n \<Rightarrow> n | None \<Rightarrow> se_string err)))))
            (call (\<lambda>s. (Inr (), s\<lparr>adminClients := adminClients s - 1\<rparr>))))))"

section \<open>Startup\<close>

datatype cors_origin = AnyOrigin | Origins "js list"

definition corsOrigin :: "AppConfig \<Rightarrow> cors_origin" where
  "corsOrigin c = (if lit ''*'' \<in> set (corsOrigins c) then AnyOrigin else Origins (corsOrigins c))"

datatype startup =
    TrustProxy nat
  | Helmet
  | EnableCors cors_origin "js list" "js list"
  | ValidationPipe
  | ShutdownHooks
  | Swagger
  | BullBoard
  | EnsureBucket
  | Listen int js

definition apiStartup :: "AppConfig \<Rightarrow> startup list" where
  "apiStartup c =
     [TrustProxy 1, Helmet,
      EnableCors (corsOrigin c) (map lit [''GET'', ''POST'', ''PATCH'', ''DELETE'', ''OPTIONS''])
        (map lit [''Authorization'', ''Content-Type'', ''Idempotency-Key'']),
      ValidationPipe, ShutdownHooks, Swagger, BullBoard]
     @ (if isProduction c then [] else [EnsureBucket]) @ [Listen (port c) (lit ''0.0.0.0'')]"

definition workerStartup :: "AppConfig \<Rightarrow> startup list" where
  "workerStartup c = [ShutdownHooks] @ (if isProduction c then [] else [EnsureBucket])"

section \<open>What holds\<close>

text \<open>
  On the modelled bucket, a HEAD request whose rejection for a missing key is one of S3's not-found errors makes
  \<^verbatim>\<open>objectExists\<close> what \<open>Media.objectExists\<close> says.
\<close>

lemma headOutcome_objectExists:
  assumes "isNotFound missing" and "faults w = []"
  shows "headOutcome (if bucket w k = None then Inl missing else Inr ()) = Inr x \<longleftrightarrow> fst (run (objectExists k) w) = Inr x"
  using assms by (auto simp: headOutcome_def)

text \<open>
  Creating the development bucket never keeps a service from starting, and never happens in production: the call
  returns whatever R2 answers, production sends nothing, any other stage sends one request with the us-east-1 client
  and closes it, and only an unexpected rejection is logged as a warning.
\<close>

theorem ensure_bucket_returns:
  "\<exists>s'. run (ensureBucketExists c) s = (Inr (), s') \<and> adminClients s' = adminClients s
    \<and> createRequests s' = createRequests s @ (if isProduction c then [] else [(adminClient c, r2_bucket (r2 c))])"
  by (auto simp: ensureBucketExists_def run_finallyP sendCreateBucket_def log_to_def Let_def split: sum.split)

text \<open>
  The API listens last; the bucket is created outside production only; and a configuration that loads in production
  never answers CORS requests of any origin.
\<close>

theorem startup_order:
  assumes "loadConfig isUrl toNumber zodMessage src = Inr c"
  shows "last (apiStartup c) = Listen (port c) (lit ''0.0.0.0'') \<and> (EnsureBucket \<in> set (apiStartup c) \<longleftrightarrow> \<not> isProduction c)
    \<and> (EnsureBucket \<in> set (workerStartup c) \<longleftrightarrow> \<not> isProduction c)
    \<and> (isProduction c \<longrightarrow> corsOrigin c = Origins (corsOrigins c))"
proof -
  from assms obtain e where e: "superRefine e = []" "c = toAppConfig e" by (auto simp: loadConfig_Inr)
  then have "isProduction c \<Longrightarrow> lit ''*'' \<notin> set (corsOrigins c)"
    by (auto simp: superRefine_def Let_def toAppConfig_def split: if_splits)
  then show ?thesis by (auto simp: apiStartup_def workerStartup_def corsOrigin_def)
qed

end
