(* ===== verification/Edge.thy ===== *)
theory Edge
  imports Http Health Startup
begin

text \<open>
  What stands around the controllers: the request id and the logger settings (\<^verbatim>\<open>logger.module.ts\<close>), the rate limits
  (\<^verbatim>\<open>app.module.ts\<close>, \<^verbatim>\<open>auth.controller.ts\<close>) and the address they count by (\<^verbatim>\<open>main.ts\<close>). Express' reading of
  \<^verbatim>\<open>X-Forwarded-For\<close> and the throttler's counters are parameters.
\<close>

section \<open>The logger\<close>

text \<open>A header of Node: absent, one value, or a list of values.\<close>

datatype header_value = One js | Many "js list"

fun existingId :: "header_value option \<Rightarrow> js option" where
  "existingId (Some (One s)) = Some s"
| "existingId (Some (Many (s # ss))) = Some s"
| "existingId _ = None"

text \<open>The id of a request; the same value is set as the \<^verbatim>\<open>x-request-id\<close> header of the response.\<close>

definition genReqId :: "app \<Rightarrow> header_value option \<Rightarrow> js io" where
  "genReqId A existing = (case existingId existing of
     Some rid \<Rightarrow> Ret rid | None \<Rightarrow> bindP draw (\<lambda>n. Ret (uuid A n)))"

record pino_transport =
  pt_target :: js
  pt_singleLine :: bool
  pt_colorize :: bool

record pino_http =
  ph_level :: js
  ph_redactPaths :: "js list"
  ph_redactRemove :: bool
  ph_autoLogging :: bool
  ph_transport :: "pino_transport option"

definition pinoHttp :: "bool \<Rightarrow> AppConfig \<Rightarrow> pino_http" where
  "pinoHttp isPrettyTransportAvailable c =
     \<lparr>ph_level = logLevel c,
      ph_redactPaths = [lit ''req.headers.authorization'', lit ''req.headers.cookie'',
        lit (''res.headers['' @ [CHR 0x22] @ ''set-cookie'' @ [CHR 0x22] @ '']'')],
      ph_redactRemove = True, ph_autoLogging = True,
      ph_transport = (if isProduction c \<or> \<not> isPrettyTransportAvailable then None
        else Some \<lparr>pt_target = lit ''pino-pretty'', pt_singleLine = True, pt_colorize = True\<rparr>)\<rparr>"

section \<open>Rate limits\<close>

text \<open>Requests and milliseconds.\<close>

fun throttleOf :: "route \<Rightarrow> nat \<times> nat" where
  "throttleOf (PostAuthApple d) = (10, 60000)"
| "throttleOf (PostAuthRefresh d) = (10, 60000)"
| "throttleOf _ = (100, 60000)"

text \<open>What arrives with a request: the entries of \<^verbatim>\<open>X-Forwarded-For\<close>, the peer of the socket, the id header.\<close>

record connection =
  cn_forwarded :: "js list"
  cn_socket :: js
  cn_requestId :: "header_value option"

definition trustProxy :: nat where "trustProxy = 1"

type_synonym proxy_addr = "nat \<Rightarrow> js list \<Rightarrow> js \<Rightarrow> js"

definition reqIp :: "proxy_addr \<Rightarrow> connection \<Rightarrow> js" where
  "reqIp address cn = address trustProxy (cn_forwarded cn) (cn_socket cn)"

text \<open>
  The guard's exception is an \<^verbatim>\<open>HttpException\<close> with a string for its response, so the filter takes its class name
  as the error.
\<close>

definition throttledProblem :: "app \<Rightarrow> http_request \<Rightarrow> nat \<Rightarrow> ProblemResponse" where
  "throttledProblem A r t = \<lparr>pr_statusCode = 429, pr_error = lit ''ThrottlerException'',
     pr_message = Text (libraryMessage A (lit ''throttler'')), pr_requestId = hr_id r, pr_timestamp = t,
     pr_path = hr_url r\<rparr>"

lemma throttledProblem_normalize:
  "normalizeHttp 429 (lit ''ThrottlerException'') m (JStr s) = (429, JStr (pr_error (throttledProblem A r t)), JStr s)"
  by (simp add: normalizeHttp_def throttledProblem_def)

section \<open>One request\<close>

text \<open>
  The id middleware, the first global guard (\<open>blocked\<close>: the throttler refuses this address under this limit), and
  the rest of the application. The client gets the id and the reply.
\<close>

definition edge ::
  "app \<Rightarrow> proxy_addr \<Rightarrow> (js \<Rightarrow> nat \<times> nat \<Rightarrow> bool) \<Rightarrow> (route \<Rightarrow> js list) \<Rightarrow> connection \<Rightarrow> http_request \<Rightarrow> (js \<times> reply) io" where
  "edge A address blocked texts cn r =
     bindP (genReqId A (cn_requestId cn)) (\<lambda>rid.
       let r' = r\<lparr>hr_id := Some rid\<rparr> in
       bindP (if blocked (reqIp address cn) (throttleOf (hr_route r))
              then bindP now (\<lambda>t. Ret (Problem (throttledProblem A r' t)))
              else serve A texts r')
         (\<lambda>answer. Ret (rid, answer)))"

lemma run_genReqId:
  "run (genReqId A h) w = (case existingId h of
     Some rid \<Rightarrow> (Inr rid, w) | None \<Rightarrow> (Inr (uuid A (entropy w)), w\<lparr>entropy := Suc (entropy w)\<rparr>))"
  by (simp add: genReqId_def split: option.split)

lemma run_edge:
  assumes "run (genReqId A (cn_requestId cn)) w = (Inr rid, w')"
  shows "run (edge A address blocked texts cn r) w =
    (if blocked (reqIp address cn) (throttleOf (hr_route r))
     then (Inr (rid, Problem (throttledProblem A (r\<lparr>hr_id := Some rid\<rparr>) (clock w'))), w')
     else case run (respond A texts (r\<lparr>hr_id := Some rid\<rparr>)) w' of
       (Inr b, v) \<Rightarrow> (Inr (rid, Success (successStatus (hr_route r)) b), v)
     | (Inl ex, v) \<Rightarrow> (Inr (rid, Problem (problemOf (r\<lparr>hr_id := Some rid\<rparr>) (clock v) ex)), v))"
  by (simp add: edge_def Let_def assms run_serve split: prod.split sum.split)

text \<open>
  C23. Every request is answered with an \<^verbatim>\<open>x-request-id\<close>: the client's own (the first, where it sent several), or
  else the next random one. An address over its limit is answered 429 before the guard, the pipes and the services are
  reached, and nothing is written; any other request is answered as without the limits. Every problem document carries
  that id, the path and a status of 400, 401, 404, 409, 429 or 500.
\<close>

theorem edge_answers:
  "\<exists>rid w'. run (genReqId A (cn_requestId cn)) w = (Inr rid, w')
    \<and> (case existingId (cn_requestId cn) of Some given \<Rightarrow> rid = given \<and> w' = w
       | None \<Rightarrow> rid = uuid A (entropy w) \<and> w' = w\<lparr>entropy := Suc (entropy w)\<rparr>)
    \<and> (\<exists>answer v. run (edge A address blocked texts cn r) w = (Inr (rid, answer), v)
       \<and> (if blocked (reqIp address cn) (throttleOf (hr_route r)) then v = w' \<and> replyStatus answer = 429
          else run (serve A texts (r\<lparr>hr_id := Some rid\<rparr>)) w' = (Inr answer, v))
       \<and> (case answer of Success s b \<Rightarrow> s = successStatus (hr_route r)
          | Problem p \<Rightarrow> pr_requestId p = Some rid \<and> pr_path p = hr_url r
              \<and> pr_statusCode p \<in> {400, 401, 404, 409, 429, 500}))"
proof -
  obtain rid w' where rid: "run (genReqId A (cn_requestId cn)) w = (Inr rid, w')"
    by (cases "existingId (cn_requestId cn)") (auto simp: run_genReqId)
  have problem: "pr_requestId (problemOf q t ex) = hr_id q" "pr_path (problemOf q t ex) = hr_url q"
    "pr_statusCode (problemOf q t ex) \<in> {400, 401, 404, 409, 429, 500}" for q t ex
    using normalizeError_status [of ex] by (auto simp: problemOf_def split: prod.split)
  let ?r = "r\<lparr>hr_id := Some rid\<rparr>"
  have answered: "\<exists>answer v. run (edge A address blocked texts cn r) w = (Inr (rid, answer), v)
       \<and> (if blocked (reqIp address cn) (throttleOf (hr_route r)) then v = w' \<and> replyStatus answer = 429
          else run (serve A texts ?r) w' = (Inr answer, v))
       \<and> (case answer of Success s b \<Rightarrow> s = successStatus (hr_route r)
          | Problem p \<Rightarrow> pr_requestId p = Some rid \<and> pr_path p = hr_url r
              \<and> pr_statusCode p \<in> {400, 401, 404, 409, 429, 500})"
  proof (cases "blocked (reqIp address cn) (throttleOf (hr_route r))")
    case True
    then show ?thesis by (simp add: run_edge [OF rid] throttledProblem_def)
  next
    case False
    then show ?thesis using problem [of ?r]
      by (cases "run (respond A texts ?r) w'") (auto simp: run_edge [OF rid] run_serve split: sum.split)
  qed
  with rid show ?thesis
    by (intro exI [of _ rid] exI [of _ w'] conjI) (auto simp: run_genReqId split: option.splits)
qed

lemma ok_edge: "ok A (\<lambda>_ _. True) (edge A address blocked texts cn r) w"
proof -
  have "ok A (\<lambda>_ _. True) (genReqId A h) v" for h v
    by (cases "existingId h") (auto simp: genReqId_def intro: ok_reply [OF ok_draw])
  then show ?thesis unfolding edge_def Let_def
    by (rule ok_bind) (auto intro!: ok_reply [OF ok_serve] ok_reply [OF ok_reply [OF ok_now]])
qed

section \<open>Whose limit it is\<close>

text \<open>
  Express' documented reading of \<^verbatim>\<open>trust proxy\<close> as a number of hops: the address at most that many hops away, the
  socket's peer being the first hop and the header's entries the rest, from right to left.
\<close>

definition hopsTrusted :: "proxy_addr \<Rightarrow> bool" where
  "hopsTrusted address \<longleftrightarrow> (\<forall>n forwarded peer.
     address n forwarded peer = (let hops = peer # rev forwarded in hops ! min n (length forwarded)))"

lemma trustProxy_startup: "TrustProxy trustProxy = hd (apiStartup c)"
  by (simp add: apiStartup_def trustProxy_def)

lemma reqIp_appended:
  "hopsTrusted address \<Longrightarrow> reqIp address \<lparr>cn_forwarded = forged @ [client], cn_socket = proxy, cn_requestId = h\<rparr> = client"
  by (simp add: hopsTrusted_def reqIp_def trustProxy_def)

text \<open>
  C24. Behind a proxy that appends its peer to \<^verbatim>\<open>X-Forwarded-For\<close>, the limits count by the client's address whatever
  the client put into the header: two requests of one client that differ in that header alone are answered alike. It
  takes an appending proxy: behind one that prepends its peer, a client gets any address it likes.
\<close>

theorem limits_not_dodged:
  assumes "hopsTrusted address"
  shows "run (edge A address blocked texts \<lparr>cn_forwarded = forged @ [client], cn_socket = proxy, cn_requestId = h\<rparr> r) w
      = run (edge A address blocked texts \<lparr>cn_forwarded = [client], cn_socket = proxy, cn_requestId = h\<rparr> r) w
    \<and> (case run (edge A address blocked texts \<lparr>cn_forwarded = forged @ [client], cn_socket = proxy, cn_requestId = h\<rparr> r) w of
         (Inr (rid, answer), v) \<Rightarrow> blocked client (throttleOf (hr_route r)) \<longrightarrow> replyStatus answer = 429
       | (Inl ex, v) \<Rightarrow> False)
    \<and> (\<exists>forged'. reqIp address \<lparr>cn_forwarded = client # forged', cn_socket = proxy, cn_requestId = h\<rparr> = other)"
proof (intro conjI)
  let ?cn = "\<lambda>xs. \<lparr>cn_forwarded = xs, cn_socket = proxy, cn_requestId = h\<rparr>"
  have ip: "reqIp address (?cn (xs @ [client])) = client" for xs by (rule reqIp_appended [OF assms])
  obtain rid w' where rid: "run (genReqId A h) w = (Inr rid, w')"
    by (cases "existingId h") (auto simp: run_genReqId)
  have run: "run (edge A address blocked texts (?cn (xs @ [client])) r) w =
      run (edge A address blocked texts (?cn [client]) r) w" for xs
    using ip [of "[]"] by (simp add: edge_def ip)
  show "run (edge A address blocked texts (?cn (forged @ [client])) r) w
      = run (edge A address blocked texts (?cn [client]) r) w" by (rule run)
  show "case run (edge A address blocked texts (?cn (forged @ [client])) r) w of
      (Inr (rid, answer), v) \<Rightarrow> blocked client (throttleOf (hr_route r)) \<longrightarrow> replyStatus answer = 429
    | (Inl ex, v) \<Rightarrow> False"
    using rid by (simp add: run_edge ip throttledProblem_def split: prod.split sum.split)
  have "reqIp address (?cn [client, other]) = other"
    using assms by (simp add: hopsTrusted_def reqIp_def trustProxy_def)
  then show "\<exists>forged'. reqIp address (?cn (client # forged')) = other" by (intro exI [of _ "[other]"]) simp
qed

text \<open>The production image, which lacks \<^verbatim>\<open>pino-pretty\<close>, never asks for it, whatever its stage.\<close>

lemma lean_image_logs_json: "ph_transport (pinoHttp False c) = None"
  by (simp add: pinoHttp_def)

definition nearestHops :: proxy_addr where
  "nearestHops n forwarded peer = (peer # rev forwarded) ! min n (length forwarded)"

theorem limits_not_dodged_witness:
  "\<exists>rid answer v. run (edge sampleApp nearestHops (\<lambda>a limit. a = lit ''203.0.113.7'' \<and> limit = (10, 60000)) (\<lambda>_. [])
      \<lparr>cn_forwarded = [lit ''1.1.1.1'', lit ''203.0.113.7''], cn_socket = lit ''10.0.0.1'', cn_requestId = None\<rparr>
      \<lparr>hr_route = PostAuthRefresh \<lparr>rd_refreshToken = lit ''t''\<rparr>, hr_url = lit ''/auth/refresh'', hr_id = None,
        hr_authorization = None, hr_idempotencyKey = None\<rparr>) sampleWorld = (Inr (rid, answer), v)
    \<and> replyStatus answer = 429"
proof -
  let ?blocked = "\<lambda>a limit. a = lit ''203.0.113.7'' \<and> limit = (10, 60000)"
  let ?r = "\<lparr>hr_route = PostAuthRefresh \<lparr>rd_refreshToken = lit ''t''\<rparr>, hr_url = lit ''/auth/refresh'', hr_id = None,
    hr_authorization = None, hr_idempotencyKey = None\<rparr>"
  let ?run = "run (edge sampleApp nearestHops ?blocked (\<lambda>_. []) \<lparr>cn_forwarded = [lit ''1.1.1.1'', lit ''203.0.113.7''],
    cn_socket = lit ''10.0.0.1'', cn_requestId = None\<rparr> ?r) sampleWorld"
  have "hopsTrusted nearestHops" by (simp add: hopsTrusted_def nearestHops_def Let_def)
  from limits_not_dodged [OF this, of sampleApp ?blocked "\<lambda>_. []" "[lit ''1.1.1.1'']" "lit ''203.0.113.7''"
      "lit ''10.0.0.1''" None ?r sampleWorld, THEN conjunct2, THEN conjunct1]
  have "case ?run of (Inr (rid, answer), v) \<Rightarrow> replyStatus answer = 429 | (Inl ex, v) \<Rightarrow> False"
    by (simp only: append.simps simp_thms http_request.select_convs throttleOf.simps)
  then show ?thesis by (cases ?run) (simp split: sum.splits prod.splits)
qed

end
