(* ===== verification/System.thy ===== *)
theory System
  imports Jobs_Behaviour Auth_Behaviour Worker_Behaviour Isolation Edge
begin

text \<open>
  The whole system: any number of API requests, worker attempts and abandoned stages, interleaved call by call
  with each other, with crashes, and with what happens outside (the clock, uploads through presigned URLs, the
  storage lifecycle, BullMQ's timers); and the way of one recording through all components.
\<close>

section \<open>The outside world\<close>

text \<open>
  What happens without the server's code: time passes, faults and timers are scheduled, a client stores a
  recording under an audio key, the bucket's lifecycle rule removes one, BullMQ promotes a delayed job, returns a
  stalled one to the queue or fails it for stalling too often, and forgets completed ones (\<^verbatim>\<open>removeOnComplete\<close>).
\<close>

inductive outside_step :: "world \<Rightarrow> world \<Rightarrow> bool" where
  tick: "clock w \<le> t \<Longrightarrow> outside_step w (w\<lparr>clock := t\<rparr>)"
| failures: "outside_step w (w\<lparr>faults := fs\<rparr>)"
| timers: "outside_step w (w\<lparr>deadlines := ds\<rparr>)"
| upload: "outside_step w (w\<lparr>bucket := (bucket w)(audioKey u i \<mapsto> ob)\<rparr>)"
| expire: "outside_step w (w\<lparr>bucket := (bucket w)(audioKey u i := None)\<rparr>)"
| promote: "outside_step w (w\<lparr>queue := upd (\<lambda>b. b_id b = i \<and> b_state b = BDelayed) (\<lambda>b. b\<lparr>b_state := BWaiting\<rparr>) (queue w)\<rparr>)"
| stalled: "outside_step w (w\<lparr>queue := upd (\<lambda>b. b_id b = i \<and> b_state b = BActive) (\<lambda>b. b\<lparr>b_state := BWaiting\<rparr>) (queue w)\<rparr>)"
| stalled_out: "outside_step w (w\<lparr>queue := upd (\<lambda>b. b_id b = i \<and> b_state b = BActive) (\<lambda>b. b\<lparr>b_state := BFailed\<rparr>) (queue w)\<rparr>)"
| forget: "outside_step w (w\<lparr>queue := filter (\<lambda>b. b_state b \<noteq> BCompleted \<or> P b) (queue w)\<rparr>)"

lemma evolves_outside:
  assumes "outside_step w w'" and "inv A w"
  shows "evolves A w w'"
  using assms
proof (induction rule: outside_step.induct)
  case (tick w t)
  then show ?case by (intro evolves_clock)
next
  case (forget w P)
  then have "queue_ok (jobs w) (queue w)" by (simp add: inv_def)
  with forget show ?case by (intro evolves_queue queue_ok_filter)
qed (auto simp: audioKey_neq_pdfKey [symmetric] intro!: evolves_faults evolves_deadlines evolves_bucket evolves_queue_upd)





text \<open>Isolation holds behind the request id and the rate limits, too.\<close>

theorem edge_isolated:
  assumes "\<not> isPublic (hr_route r)" and "tokenOf A (hr_authorization r) u"
  shows "conf A (ofUser u) (edge A address blocked texts cn r) w"
proof -
  have draw: "conf A (ofUser u) draw v" for v unfolding draw_def by (rule acts_call) simp
  have gen: "conf A (ofUser u) (genReqId A h) v" for h v
    by (cases "existingId h") (auto simp: genReqId_def intro!: acts_bind_all draw)
  have "conf A (ofUser u) (serve A texts (r\<lparr>hr_id := x\<rparr>)) v" for x v
    by (rule conf_serve) (use assms in simp_all)
  then show ?thesis unfolding edge_def Let_def by (auto intro!: acts_bind_all gen)
qed

section \<open>The way of a recording\<close>

text \<open>The header's token is an access token of user \<open>u\<close> at time \<open>t\<close>.\<close>

definition admitted :: "app \<Rightarrow> js option \<Rightarrow> js \<Rightarrow> nat \<Rightarrow> bool" where
  "admitted A h u t \<longleftrightarrow> (case extractToken h of None \<Rightarrow> False
     | Some tok \<Rightarrow> (case jwtVerify A (accessSecret (jwt (cfg A))) (appBaseUrl (cfg A)) JWT_AUDIENCE t tok of
         None \<Rightarrow> False
       | Some p \<Rightarrow> claim p ''type'' = Some (JStr (lit ''access'')) \<and> strClaim p ''sub'' = Some u))"

definition request :: "js option \<Rightarrow> js \<Rightarrow> route \<Rightarrow> http_request" where
  "request h url rt = \<lparr>hr_route = rt, hr_url = url, hr_id = None, hr_authorization = h, hr_idempotencyKey = None\<rparr>"

lemma request_simps [simp]:
  "hr_route (request h url rt) = rt" "hr_authorization (request h url rt) = h"
  "hr_idempotencyKey (request h url rt) = None"
  by (simp_all add: request_def)

lemma run_serve_admitted:
  assumes "admitted A h u (clock w)" and "\<not> isPublic rt" and "validBody A rt"
    and "\<forall>i \<in> set_option (pathId rt). isUUID A i"
  obtains x where "au_userId x = u"
    and "\<And>texts. run (serve A texts (request h url rt)) w =
      (case run (jobsController A x (request h url rt)) w of
         (Inr b, w') \<Rightarrow> (Inr (Success (successStatus rt) b), w')
       | (Inl ex, w') \<Rightarrow> (Inr (Problem (problemOf (request h url rt) (clock w') ex)), w'))"
proof -
  from assms(1) obtain x where x: "run (canActivate A h) w = (Inr x, w)" "au_userId x = u"
    by (auto simp: admitted_def canActivate_def split: option.splits)
  have "run (pipes A texts rt) w = (Inr (), w)" for texts
    using assms(3,4) by (auto simp: pipes_def)
  with x assms(2) have "run (respond A texts (request h url rt)) w = run (jobsController A x (request h url rt)) w" for texts
    by (simp add: respond_def guardRoute_def currentUser_def)
  then show thesis by (intro that [OF x(2)]) (simp add: run_serve split: prod.split sum.split)
qed

text \<open>What a handler returns is what the client gets.\<close>

lemma serve_create:
  assumes "admitted A h u (clock w)" and "valid_CreateJobDto (charCount A) dto" and "run (create A u dto None) w = (Inr c, w')"
  shows "run (serve A texts (request h url (PostJobs dto))) w = (Inr (Success 201 (CreatedBody c)), w')"
  by (rule run_serve_admitted [OF assms(1), of "PostJobs dto"])
    (use assms(2,3) in \<open>auto simp: validBody_def jobsController_def headerKey_def\<close>)

lemma serve_process:
  assumes "admitted A h u (clock w)" and "isUUID A i" and "run (process A u i) w = (Inr d, w')"
  shows "run (serve A texts (request h url (PostJobProcess i))) w = (Inr (Success 200 (JobBody d)), w')"
  by (rule run_serve_admitted [OF assms(1), of "PostJobProcess i"])
    (use assms(2,3) in \<open>auto simp: validBody_def jobsController_def\<close>)

lemma serve_pdf:
  assumes "admitted A h u (clock w)" and "isUUID A i" and "run (getPdfUrl A u i) w = (Inr p, w')"
  shows "run (serve A texts (request h url (GetJobPdf i))) w = (Inr (Success 200 (PdfBody p)), w')"
  by (rule run_serve_admitted [OF assms(1), of "GetJobPdf i"])
    (use assms(2,3) in \<open>auto simp: validBody_def jobsController_def\<close>)

lemma inv_serve: "inv A w \<Longrightarrow> run (serve A texts r) w = (x, w') \<Longrightarrow> inv A w'"
  using ev.run_sound [OF ok_serve evolves_refl, of A w texts r] evolves_inv(1) by (metis snd_conv)

text \<open>A queued job whose recording is there, and what one attempt makes of it.\<close>

lemma attempt_then_pdf:
  assumes "quiet w" and "inv A w" and "inj (uuid A)" and "servicesUp A" and "ready_to_run w b j"
    and "bucket w (audioKey (j_userId j) (b_id b)) \<noteq> None"
  shows "\<exists>p. run (getPdfUrl A (j_userId j) (b_id b)) (snd (settle (workerRun A (b_id b)) w))
      = (Inr p, snd (settle (workerRun A (b_id b)) w))
    \<and> clock (snd (settle (workerRun A (b_id b)) w)) = clock w
    \<and> bucket (snd (settle (workerRun A (b_id b)) w)) (pdfKey (j_userId j) (b_id b)) \<noteq> None
    \<and> pd_url p = getSignedUrl A (GetOp (r2_bucket (r2 (cfg A))) (pdfKey (j_userId j) (b_id b)))
        (presignGetTtl (r2 (cfg A))) (clock w)"
proof -
  let ?w = "snd (settle (workerRun A (b_id b)) w)"
  from settle_workerRun [OF assms(1-3,5)] assms(4,6) obtain k where k: "rowOf ?w (b_id b) = Some k" "sameJob j k"
    "ended Done b k w ?w" "faults ?w = []" "clock ?w = clock w" by blast
  note inv = inv_workerRun [OF assms(2)]
  have vis: "visible (j_userId j) k" "j_status k = READY"
    using k(2,3) assms(5) by (auto simp: sameJob_def ended_def ready_to_run_def)
  have "ownRow ?w (j_userId j) (b_id b) = Some k"
    by (rule find_distinct [where k = j_id])
      (use rowOf_Some [OF k(1)] vis inv in \<open>auto simp: inv_def jobs_inv_def\<close>)
  from run_getPdfUrl_ready [OF k(4) inv this vis(2)] k(5) show ?thesis by simp
qed

lemma run_create_plain:
  assumes "faults w = []" and "u \<in> u_id ` set (users w)" and "uuid A (entropy w) \<notin> j_id ` set (jobs w)"
  shows "\<exists>c. run (create A u dto None) w = (Inr c, w\<lparr>entropy := Suc (entropy w),
      jobs := jobs w @ [draftRow (uuid A (entropy w)) u (cj_label dto) (audioKey u (uuid A (entropy w))) None (clock w)]\<rparr>)
    \<and> jd_id (cr_job c) = uuid A (entropy w) \<and> pu_key (cr_audioUploadUrl c) = audioKey u (uuid A (entropy w))"
proof -
  have "\<not> (\<exists>j \<in> set (jobs (w\<lparr>entropy := Suc (entropy w)\<rparr>)). conflicts (uuid A (entropy w)) u None j)"
    using assms(3) by (auto simp: conflicts_def) (metis imageI)
  from run_createDraft [OF _ this] assms(1,2) show ?thesis
    by (simp add: create_def Let_def jobToDto_def JOB_REPORT_INCLUDE_def draftRow_def)
qed

text \<open>Starting a job that was just created and whose recording is there.\<close>

definition newQueueJob :: "app \<Rightarrow> js \<Rightarrow> js \<Rightarrow> bull_job" where
  "newQueueJob A u i = \<lparr>b_id = i, b_data = \<lparr>pj_jobId = i, pj_userId = u\<rparr>,
     b_attempts = nat (jobMaxAttempts (ai (cfg A))), b_attemptsMade = 0, b_state = BWaiting\<rparr>"

lemma start_new_job:
  assumes q: "quiet v" and inv: "inv A v" and row: "jobs v = js @ [draftRow i u l (audioKey u i) None t]"
    and new: "i \<notin> j_id ` set js" "i \<notin> b_id ` set (queue v)" and audio: "bucket v (audioKey u i) \<noteq> None"
  shows "\<exists>d w2. run (process A u i) v = (Inr d, w2) \<and> jd_id d = i \<and> jd_status d = QUEUED
    \<and> quiet w2 \<and> clock w2 = clock v \<and> bucket w2 = bucket v
    \<and> ready_to_run w2 (newQueueJob A u i) (queuedRow v (draftRow i u l (audioKey u i) None t))"
proof -
  let ?row = "draftRow i u l (audioKey u i) None t"
  define w2 where "w2 = v\<lparr>jobs := upd (\<lambda>j. j_id j = i) (queuedRow v) (jobs v), queue := queue v @ [newQueueJob A u i]\<rparr>"
  have find1: "find P (jobs v) = Some ?row" if "P ?row" and "\<And>j. P j \<Longrightarrow> j_id j = i" for P
  proof -
    have "find P js = None" using new(1) that(2) by (auto simp: find_None_iff)
    with that(1) row show ?thesis by simp
  qed
  have own: "ownRow v u i = Some ?row" by (rule find1) (simp_all add: draftRow_def)
  have "\<exists>d. run (process A u i) v = (Inr d, w2) \<and> jd_id d = i \<and> jd_status d = QUEUED \<and> jd_errorMessage d = None"
    unfolding w2_def
  proof (rule run_process_start [OF conjunct1 [OF q] inv own])
    show "run (enqueueProcessing A \<lparr>pj_jobId = i, pj_userId = u\<rparr>) (v\<lparr>jobs := upd (\<lambda>j. j_id j = i) (queuedRow v) (jobs v)\<rparr>)
      = (Inr (), v\<lparr>jobs := upd (\<lambda>j. j_id j = i) (queuedRow v) (jobs v), queue := queue v @ [newQueueJob A u i]\<rparr>)"
      using new(2) q by (simp add: enqueue_new newQueueJob_def)
  qed (simp_all add: startable_def draftRow_def IN_FLIGHT_def audio)
  moreover have "ready_to_run w2 (newQueueJob A u i) (queuedRow v ?row)"
    using find1 [of "\<lambda>j. j_id j = i"]
    by (simp add: ready_to_run_def rowOf_def find_upd_id draftRow_def w2_def newQueueJob_def)
  ultimately show ?thesis using q by (auto simp: w2_def)
qed

text \<open>
  C4. From a recording to its report, through every component: with the services up and no faults, a signed-in
  user's \<^verbatim>\<open>POST /jobs\<close> answers 201 with a fresh job and the key to upload to; once the recording is there,
  \<^verbatim>\<open>POST /jobs/:id/process\<close> answers 200 with the job QUEUED; one worker attempt later, \<^verbatim>\<open>GET /jobs/:id/pdf\<close>
  answers 200 with a link to the job's PDF, which is in the bucket.
\<close>

theorem recording_becomes_report:
  assumes w: "quiet w" "inv A w" "u \<in> u_id ` set (users w)" and A: "inj (uuid A)" "servicesUp A"
    and i: "i = uuid A (entropy w)" "i \<notin> j_id ` set (jobs w)" "isUUID A i"
    and token: "admitted A h u (clock w)" and dto: "valid_CreateJobDto (charCount A) dto"
  shows "\<exists>c w1 d w2 p w3.
    run (serve A texts (request h url1 (PostJobs dto))) w = (Inr (Success 201 (CreatedBody c)), w1)
    \<and> jd_id (cr_job c) = i \<and> pu_key (cr_audioUploadUrl c) = audioKey u i
    \<and> run (serve A texts (request h url2 (PostJobProcess i)))
        (w1\<lparr>bucket := (bucket w1)(audioKey u i \<mapsto> recording)\<rparr>) = (Inr (Success 200 (JobBody d)), w2)
    \<and> jd_id d = i \<and> jd_status d = QUEUED
    \<and> run (serve A texts (request h url3 (GetJobPdf i))) (snd (settle (workerRun A i) w2))
        = (Inr (Success 200 (PdfBody p)), w3)
    \<and> pd_url p = getSignedUrl A (GetOp (r2_bucket (r2 (cfg A))) (pdfKey u i)) (presignGetTtl (r2 (cfg A))) (clock w)
    \<and> bucket w3 (pdfKey u i) \<noteq> None"
proof -
  let ?row = "draftRow i u (cj_label dto) (audioKey u i) None (clock w)"
  define w1 where "w1 = w\<lparr>entropy := Suc (entropy w), jobs := jobs w @ [?row]\<rparr>"
  define w1' where "w1' = w1\<lparr>bucket := (bucket w1)(audioKey u i \<mapsto> recording)\<rparr>"
  have same: "quiet w1'" "clock w1' = clock w" "jobs w1' = jobs w @ [?row]" "queue w1' = queue w"
    "bucket w1' (audioKey u i) \<noteq> None" using w(1) by (simp_all add: w1_def w1'_def)
  from run_create_plain [OF _ w(3), of A dto] w(1) i obtain c where c: "run (create A u dto None) w = (Inr c, w1)"
    "jd_id (cr_job c) = i" "pu_key (cr_audioUploadUrl c) = audioKey u i" by (auto simp: w1_def)
  note s1 = serve_create [OF token dto c(1), of texts url1]
  have inv1: "inv A w1'"
    unfolding w1'_def by (rule evolves_inv(1) [OF evolves_outside [OF outside_step.upload inv_serve [OF w(2) s1]]])
  have "queue_ok (jobs w) (queue w)" using w(2) by (simp add: inv_def)
  then have "i \<notin> b_id ` set (queue w1')" using i(2) same(4) by (auto simp: queue_ok_def owns_def) (metis imageI)
  from start_new_job [OF same(1) inv1 same(3) i(2) this same(5)] obtain d w2 where
    d: "run (process A u i) w1' = (Inr d, w2)" "jd_id d = i" "jd_status d = QUEUED"
    and w2: "quiet w2" "clock w2 = clock w1'" "bucket w2 = bucket w1'"
      "ready_to_run w2 (newQueueJob A u i) (queuedRow w1' ?row)" by blast
  have "admitted A h u (clock w1')" using token same by simp
  note s2 = serve_process [OF this i(3) d(1), of texts url2]
  have row: "j_userId (queuedRow w1' ?row) = u" "b_id (newQueueJob A u i) = i" by (simp_all add: draftRow_def newQueueJob_def)
  have "bucket w2 (audioKey u i) \<noteq> None" using w2(3) same(5) by simp
  from attempt_then_pdf [OF w2(1) inv_serve [OF inv1 s2] A w2(4)] this obtain p where
    p: "run (getPdfUrl A u i) (snd (settle (workerRun A i) w2)) = (Inr p, snd (settle (workerRun A i) w2))"
    "clock (snd (settle (workerRun A i) w2)) = clock w" "bucket (snd (settle (workerRun A i) w2)) (pdfKey u i) \<noteq> None"
    "pd_url p = getSignedUrl A (GetOp (r2_bucket (r2 (cfg A))) (pdfKey u i)) (presignGetTtl (r2 (cfg A))) (clock w)"
    unfolding row w2(2) same(2) by blast
  have "admitted A h u (clock (snd (settle (workerRun A i) w2)))" using token p(2) by simp
  note s3 = serve_pdf [OF this i(3) p(1), of texts url3]
  from s1 s2 s3 c(2,3) d(2,3) p(3,4) show ?thesis unfolding w1'_def by blast
qed

theorem recording_becomes_report_witness:
  "\<exists>w2 p w3. run (serve sampleApp (\<lambda>_. []) (request (Some (lit ''Bearer good'')) [] (GetJobPdf [105])))
      (snd (settle (workerRun sampleApp [105]) w2)) = (Inr (Success 200 (PdfBody p)), w3)
    \<and> bucket w3 (pdfKey (lit ''u1'') [105]) \<noteq> None"
proof -
  have "admitted sampleApp (Some (lit ''Bearer good'')) (lit ''u1'') (clock sampleWorld)"
    by (simp add: admitted_def extractToken_def claim_def strClaim_def sampleApp_def js_lower_def js_lower_char_def lit_unfold)
  moreover have "lit ''u1'' \<in> u_id ` set (users sampleWorld)" by (simp add: sampleWorld_def)
  moreover have "[105] = uuid sampleApp (entropy sampleWorld)" "isUUID sampleApp [105]" by (simp_all add: sampleApp_def)
  moreover have "[105] \<notin> j_id ` set (jobs sampleWorld)" by (simp add: lit_unfold)
  moreover have "valid_CreateJobDto (charCount sampleApp) \<lparr>cj_label = lit ''Oak''\<rparr>"
    by (simp add: valid_CreateJobDto_def lengthIn_def sampleApp_def lit_unfold)
  ultimately show ?thesis
    using recording_becomes_report [OF _ sample_inv _ sample_inj sample_services, of "lit ''u1''" "[105]"
      "Some (lit ''Bearer good'')" "\<lparr>cj_label = lit ''Oak''\<rparr>" "\<lambda>_. []" "[]" "[]" _ "[]"] by simp blast
qed

end
