(* ===== verification/Jobs_Refinement.thy ===== *)
theory Jobs_Refinement
  imports Jobs_Behaviour Pipeline_Behaviour
begin

text \<open>
  What the jobs API promises, without tables, transactions, queues and objects: every user has a shelf, one entry
  per live job, and each request reads or changes one entry of its user's shelf. The theory shows that any sequence
  of requests and uploads, served by the handlers of \<^verbatim>\<open>jobs.service.ts\<close> one after the other without failing
  calls, gives the answers and the shelves of this specification.
\<close>

section \<open>The specification\<close>

record jobnote =
  n_label :: js
  n_status :: JobStatus
  n_transcript :: "js option"
  n_error :: "js option"
  n_report :: "ReportSectionInput list"

text \<open>An entry is what a response shows of a job, and whether its recording is there.\<close>

type_synonym shelf = "js \<Rightarrow> (jobnote \<times> bool) option"

record desk =
  d_shelf :: "js \<Rightarrow> shelf"
  d_ids :: "js set"

datatype command = Look js | Edit js UpdateJobDto | Start js | Discard js | Fetch js

datatype event = New js CreateJobDto | Ask js command | Upload js js obj

datatype answer = Refused | Shown js jobnote | Gone | Linked js | Stored

definition blank :: "CreateJobDto \<Rightarrow> jobnote" where
  "blank dto = \<lparr>n_label = cj_label dto, n_status = CREATED, n_transcript = None, n_error = None, n_report = []\<rparr>"

definition edited :: "UpdateJobDto \<Rightarrow> jobnote \<Rightarrow> jobnote" where
  "edited dto n = n\<lparr>n_label := (case uj_label dto of Given l \<Rightarrow> l | _ \<Rightarrow> n_label n),
     n_report := (case uj_sections dto of Undefined \<Rightarrow> n_report n | Null \<Rightarrow> [] | Given ss \<Rightarrow> toReportInput (Some ss))\<rparr>"

definition queued :: "jobnote \<Rightarrow> jobnote" where
  "queued n = n\<lparr>n_status := QUEUED, n_error := None\<rparr>"

text \<open>A command about entry \<open>i\<close>; \<open>link i\<close> is the signed link to the PDF of job \<open>i\<close>.\<close>

fun about :: "command \<Rightarrow> js" where
  "about (Look i) = i"
| "about (Edit i dto) = i"
| "about (Start i) = i"
| "about (Discard i) = i"
| "about (Fetch i) = i"

fun react :: "(js \<Rightarrow> js) \<Rightarrow> command \<Rightarrow> jobnote \<Rightarrow> bool \<Rightarrow> answer \<times> (jobnote \<times> bool) option" where
  "react link (Look i) n r = (Shown i n, Some (n, r))"
| "react link (Edit i dto) n r =
     (if uj_label dto = Null then (Refused, Some (n, r)) else (Shown i (edited dto n), Some (edited dto n, r)))"
| "react link (Start i) n r =
     (if \<not> startable (n_status n) then (Shown i n, Some (n, r))
      else if \<not> r then (Refused, Some (n, r))
      else (Shown i (queued n), Some (queued n, r)))"
| "react link (Discard i) n r = (Gone, None)"
| "react link (Fetch i) n r = (if n_status n = READY then Linked (link i) else Refused, Some (n, r))"

definition spec :: "(js \<Rightarrow> js) \<Rightarrow> command \<Rightarrow> shelf \<Rightarrow> answer \<times> shelf" where
  "spec link c S = (case S (about c) of
     None \<Rightarrow> (Refused, S)
   | Some (n, r) \<Rightarrow> (case react link c n r of (a, e) \<Rightarrow> (a, S(about c := e))))"

text \<open>
  Steps of all users together. A new job gets an id that was never used; its recording may be there already
  (\<open>r\<close>) only because the specification does not say what lies in the bucket. An upload goes to the
  link that a job of the user was created with.
\<close>

inductive desk_step :: "(js \<Rightarrow> js \<Rightarrow> js) \<Rightarrow> desk \<Rightarrow> event \<Rightarrow> answer \<Rightarrow> desk \<Rightarrow> bool" for link where
  created: "i \<notin> d_ids D \<Longrightarrow> desk_step link D (New u dto) (Shown i (blank dto))
     (D\<lparr>d_shelf := (d_shelf D)(u := (d_shelf D u)(i \<mapsto> (blank dto, r))), d_ids := insert i (d_ids D)\<rparr>)"
| asked: "spec (link u) c (d_shelf D u) = (a, S) \<Longrightarrow>
     desk_step link D (Ask u c) a (D\<lparr>d_shelf := (d_shelf D)(u := S)\<rparr>)"
| uploaded: "desk_step link D (Upload u i ob) Stored
     (D\<lparr>d_shelf := (d_shelf D)(u := (d_shelf D u)(i := map_option (\<lambda>(n, r). (n, True)) (d_shelf D u i)))\<rparr>)"

inductive desk_steps :: "(js \<Rightarrow> js \<Rightarrow> js) \<Rightarrow> desk \<Rightarrow> event list \<Rightarrow> answer list \<Rightarrow> desk \<Rightarrow> bool" for link where
  none: "desk_steps link D [] [] D"
| more: "desk_step link D e a D' \<Longrightarrow> desk_steps link D' es as D'' \<Longrightarrow> desk_steps link D (e # es) (a # as) D''"

text \<open>What the specification is for: a shelf changes only through its user's own events.\<close>

fun actor :: "event \<Rightarrow> js" where
  "actor (New u dto) = u"
| "actor (Ask u c) = u"
| "actor (Upload u i ob) = u"

lemma desk_step_private: "desk_step link D e a D' \<Longrightarrow> actor e \<noteq> u \<Longrightarrow> d_shelf D' u = d_shelf D u"
  by (induction rule: desk_step.induct) auto

lemma desk_steps_private:
  "desk_steps link D es as D' \<Longrightarrow> u \<notin> actor ` set es \<Longrightarrow> d_shelf D' u = d_shelf D u"
  by (induction rule: desk_steps.induct) (auto simp: desk_step_private)

section \<open>The implementation\<close>

definition noteOf :: "world \<Rightarrow> job_row \<Rightarrow> jobnote" where
  "noteOf w j = \<lparr>n_label = j_label j, n_status = j_status j, n_transcript = j_transcript j,
     n_error = j_errorMessage j, n_report = storedReport w j\<rparr>"

text \<open>What a response shows of a note.\<close>

definition noteOfDto :: "JobDto \<Rightarrow> jobnote" where
  "noteOfDto d = \<lparr>n_label = jd_label d, n_status = jd_status d, n_transcript = jd_transcript d,
     n_error = jd_errorMessage d,
     n_report = map (\<lambda>s. \<lparr>rs_title = sd_title s,
       rs_findings = map (\<lambda>f. \<lparr>rf_text = fd_text f, rf_severity = severityFromApi (fd_severity f)\<rparr>) (sd_findings s)\<rparr>)
       (jd_sections d)\<rparr>"

text \<open>The handler of a command; any error is a refusal.\<close>

fun handler :: "app \<Rightarrow> js \<Rightarrow> command \<Rightarrow> answer io" where
  "handler A u (Look i) = bindP (findOne A u i) (\<lambda>d. Ret (Shown (jd_id d) (noteOfDto d)))"
| "handler A u (Edit i dto) = bindP (update A u i dto) (\<lambda>d. Ret (Shown (jd_id d) (noteOfDto d)))"
| "handler A u (Start i) = bindP (process A u i) (\<lambda>d. Ret (Shown (jd_id d) (noteOfDto d)))"
| "handler A u (Discard i) = bindP (remove u i) (\<lambda>_. Ret Gone)"
| "handler A u (Fetch i) = bindP (getPdfUrl A u i) (\<lambda>p. Ret (Linked (pd_url p)))"

definition newHandler :: "app \<Rightarrow> js \<Rightarrow> CreateJobDto \<Rightarrow> answer io" where
  "newHandler A u dto = bindP (create A u dto None) (\<lambda>r. Ret (Shown (jd_id (cr_job r)) (noteOfDto (cr_job r))))"

definition answerOf :: "err + answer \<Rightarrow> answer" where
  "answerOf r = (case r of Inl e \<Rightarrow> Refused | Inr a \<Rightarrow> a)"

text \<open>An upload is the client's own \<^verbatim>\<open>PUT\<close>; only the link of an existing job was signed.\<close>

fun perform :: "app \<Rightarrow> event \<Rightarrow> world \<Rightarrow> answer \<times> world" where
  "perform A (New u dto) w = (case run (newHandler A u dto) w of (r, w') \<Rightarrow> (answerOf r, w'))"
| "perform A (Ask u c) w = (case run (handler A u c) w of (r, w') \<Rightarrow> (answerOf r, w'))"
| "perform A (Upload u i ob) w =
     (Stored, if ownRow w u i = None then w else w\<lparr>bucket := (bucket w)(audioKey u i \<mapsto> ob)\<rparr>)"

fun session :: "app \<Rightarrow> event list \<Rightarrow> world \<Rightarrow> answer list \<times> world" where
  "session A [] w = ([], w)"
| "session A (e # es) w =
     (case perform A e w of (a, w') \<Rightarrow> case session A es w' of (as, w'') \<Rightarrow> (a # as, w''))"

text \<open>The abstraction.\<close>

definition recorded :: "world \<Rightarrow> job_row \<Rightarrow> bool" where
  "recorded w j \<longleftrightarrow> bucket w (audioKey (j_userId j) (j_id j)) \<noteq> None"

definition shelf :: "world \<Rightarrow> js \<Rightarrow> shelf" where
  "shelf w u i = map_option (\<lambda>j. (noteOf w j, recorded w j)) (ownRow w u i)"

definition desk :: "world \<Rightarrow> desk" where
  "desk w = \<lparr>d_shelf = shelf w, d_ids = j_id ` set (jobs w)\<rparr>"

definition linkOf :: "app \<Rightarrow> nat \<Rightarrow> js \<Rightarrow> js \<Rightarrow> js" where
  "linkOf A t u i = getSignedUrl A (GetOp (r2_bucket (r2 (cfg A))) (pdfKey u i)) (presignGetTtl (r2 (cfg A))) t"

section \<open>The abstraction under changes of the tables\<close>

lemma noteOfDto_include: "noteOfDto (jobToDto (JOB_REPORT_INCLUDE w j) url) = noteOf w j"
proof -
  have "map (\<lambda>s. \<lparr>rs_title = sd_title s, rs_findings = map (\<lambda>f. \<lparr>rf_text = fd_text f,
        rf_severity = severityFromApi (fd_severity f)\<rparr>) (sd_findings s)\<rparr>) (jd_sections (jobToDto jr url))
      = existingReport jr" for jr
    by (simp add: jobToDto_def Let_def existingReport_def sectionToDto_def findingToDto_def comp_def split_beta)
  then show ?thesis
    by (simp add: noteOfDto_def noteOf_def existingReport_include storedReport_def)
      (simp add: jobToDto_def Let_def JOB_REPORT_INCLUDE_def)
qed

lemma find_upd_keep:
  assumes "\<And>j. j_id (f j) = j_id j" "\<And>j. j_userId (f j) = j_userId j" "\<And>j. j_deletedAt (f j) = j_deletedAt j"
  shows "find (\<lambda>j. j_id j = k \<and> visible v j) (upd P f js)
    = map_option (\<lambda>j. if P j then f j else j) (find (\<lambda>j. j_id j = k \<and> visible v j) js)"
  using assms by (induction js) (auto simp: upd_def)

lemma ownRow_other_user:
  assumes "distinct (map j_id (jobs w))" and "ownRow w u i = Some j" and "v \<noteq> u"
  shows "ownRow w v i = None"
proof -
  from find_SomeD [OF assms(2)] have j: "j \<in> set (jobs w)" "j_id j = i" "visible u j" by auto
  have "\<not> visible v k" if "k \<in> set (jobs w)" "j_id k = i" for k
    using that j assms(1,3) by (auto simp: distinct_map inj_on_def)
  then show ?thesis by (auto simp: find_None_iff)
qed

lemma find_upd_gone:
  assumes "\<And>j. j_deletedAt (f j) \<noteq> None"
  shows "find (\<lambda>j. j_id j = k \<and> visible v j) (upd (\<lambda>j. j_id j = i \<and> visible u j) f js)
    = (if k = i \<and> v = u then None else find (\<lambda>j. j_id j = k \<and> visible v j) js)"
  by (induction js) (auto simp: upd_def assms)

text \<open>A transaction whose last step always fails leaves the tables as they were.\<close>

definition fails :: "'a tx \<Rightarrow> bool" where
  "fails f \<longleftrightarrow> (\<forall>w. \<exists>e w'. f w = (Inl e, w'))"

lemma fails_txBind: "(\<And>a. fails (g a)) \<Longrightarrow> fails (txBind f g)"
  unfolding fails_def txBind_def by (fastforce split: prod.splits sum.splits)

lemma fails_setLabel: "fails (setLabel A u i Null)"
  by (simp add: fails_def setLabel_def)

lemma run_failing:
  assumes "faults w = []" and "fails f"
  shows "\<exists>e n. run (transaction (\<lambda>w. if P w then (Inl e0, w) else f w)) w = (Inl e, w\<lparr>entropy := n\<rparr>)"
proof -
  obtain e w' where "f w = (Inl e, w')" using assms(2) unfolding fails_def by blast
  then have "\<exists>n. run (transaction (\<lambda>w. if P w then (Inl e0, w) else f w)) w
      = (Inl (if P w then e0 else e), w\<lparr>entropy := n\<rparr>)"
    using assms(1) by (intro exI [of _ "if P w then entropy w else entropy w'"]) (simp add: run_transaction)
  then show ?thesis by blast
qed

lemma refused_update:
  assumes "faults w = []" and "ownRow w u i = Some j" and "uj_label dto = Null"
  shows "\<exists>e n. run (update A u i dto) w = (Inl e, w\<lparr>entropy := n\<rparr>)"
proof (cases "uj_sections dto = Undefined")
  case True
  with assms have "run (update A u i dto) w = (Inl (prismaValidation A), w\<lparr>entropy := entropy w\<rparr>)"
    by (simp add: update_def run_requireOwned updateLabelScoped_def run_remote)
  then show ?thesis by blast
next
  case False
  let ?secs = "toReportInput (case uj_sections dto of Given ss \<Rightarrow> Some ss | _ \<Rightarrow> None)"
  from find_SomeD [OF assms(2)] have "\<exists>j \<in> set (jobs w). j_id j = i \<and> visible u j" by auto
  moreover have "fails (txBind (deleteFindings i) (\<lambda>_. txBind (deleteSections i) (\<lambda>_.
      txBind (insertSections A i 0 ?secs) (\<lambda>_. setLabel A u i Null))))"
    by (intro fails_txBind fails_setLabel)
  ultimately have "\<exists>e n. run (replaceReportScoped A u i Null ?secs) w = (Inl e, w\<lparr>entropy := n\<rparr>)"
    using run_failing [OF assms(1)] by (simp add: replaceReportScoped_def)
  with False assms show ?thesis by (auto simp: update_def run_requireOwned)
qed


section \<open>The commands one by one\<close>

definition steady :: "world \<Rightarrow> world \<Rightarrow> bool" where
  "steady w w' \<longleftrightarrow> faults w' = [] \<and> users w' = users w \<and> clock w' = clock w
     \<and> j_id ` set (jobs w') = j_id ` set (jobs w)"

definition implements :: "app \<Rightarrow> js \<Rightarrow> command \<Rightarrow> world \<Rightarrow> bool" where
  "implements A u c w \<longleftrightarrow> (case run (handler A u c) w of (r, w') \<Rightarrow> steady w w'
     \<and> (answerOf r, shelf w' u) = spec (linkOf A (clock w) u) c (shelf w u)
     \<and> (\<forall>v. v \<noteq> u \<longrightarrow> shelf w' v = shelf w v))"

lemma own_facts:
  assumes "inv A w" and "ownRow w u i = Some j"
  shows "j \<in> set (jobs w)" "j_id j = i" "j_userId j = u" "j_deletedAt j = None"
    "j_audioKey j = Some (audioKey u i)" "distinct (map j_id (jobs w))" "report_inv A w" "queue_inv w"
proof -
  from find_SomeD [OF assms(2)] show j: "j \<in> set (jobs w)" "j_id j = i" "j_userId j = u" "j_deletedAt j = None" by auto
  with assms(1) show "j_audioKey j = Some (audioKey u i)" "distinct (map j_id (jobs w))" "report_inv A w" "queue_inv w"
    by (auto simp: inv_def jobs_inv_def job_ok_def report_inv_def queue_ok_def queue_inv_def)
qed

lemma noteOf_cong: "sections w' = sections w \<Longrightarrow> findings w' = findings w \<Longrightarrow> noteOf w' = noteOf w"
  by (intro ext) (simp add: noteOf_def storedReport_cong [of w' w])

lemma recorded_cong: "bucket w' = bucket w \<Longrightarrow> recorded w' = recorded w"
  by (intro ext) (simp add: recorded_def)

lemma shelf_cong:
  "jobs w' = jobs w \<Longrightarrow> sections w' = sections w \<Longrightarrow> findings w' = findings w \<Longrightarrow> bucket w' = bucket w \<Longrightarrow>
    shelf w' = shelf w"
  by (intro ext) (simp add: shelf_def noteOf_cong [of w' w] recorded_cong [of w' w])

lemma ids_upd: "(\<And>r. j_id (f r) = j_id r) \<Longrightarrow> j_id ` set (upd P f rs) = j_id ` set rs"
  by (metis map_upd set_map)

text \<open>One row changes, keeping its id, its owner and its life; the reports of other jobs stay.\<close>

lemma shelf_update:
  assumes inv: "inv A w" and own: "ownRow w u i = Some j"
    and js: "jobs w' = upd P f (jobs w)" and b: "bucket w' = bucket w" and P: "\<And>k. P k \<Longrightarrow> j_id k = i" "P j"
    and f: "\<And>k. j_id (f k) = j_id k" "\<And>k. j_userId (f k) = j_userId k" "\<And>k. j_deletedAt (f k) = j_deletedAt k"
    and rep: "\<And>k. j_id k \<noteq> i \<Longrightarrow> storedReport w' k = storedReport w k"
  shows "shelf w' u = (shelf w u)(i \<mapsto> (noteOf w' (f j), recorded w j)) \<and> (\<forall>v. v \<noteq> u \<longrightarrow> shelf w' v = shelf w v)"
proof -
  have own': "ownRow w' v k = map_option (\<lambda>j. if P j then f j else j) (ownRow w v k)" for v k
    unfolding js by (rule find_upd_keep) (simp_all add: f)
  have r: "recorded w' (f k) = recorded w k" for k by (simp add: recorded_def b f)
  have other: "shelf w' v k = shelf w v k" if "k \<noteq> i" for v k
  proof (cases "ownRow w v k")
    case (Some x)
    with find_SomeD [OF Some] that P(1) have "\<not> P x" "j_id x \<noteq> i" by auto
    with Some own' rep show ?thesis by (simp add: shelf_def noteOf_def recorded_cong [OF b])
  qed (simp add: shelf_def own')
  have "shelf w' u i = Some (noteOf w' (f j), recorded w j)" using own own' P(2) r by (simp add: shelf_def)
  moreover have "shelf w' v i = shelf w v i" if "v \<noteq> u" for v
    using ownRow_other_user [OF own_facts(6) [OF inv own] own that] own' by (simp add: shelf_def)
  ultimately show ?thesis using other by (auto intro!: ext) metis
qed

text \<open>Objects of one job are put or deleted.\<close>

lemma recorded_other:
  assumes "inv A w" and own: "ownRow w u i = Some j" and x: "x \<in> set (jobs w)" "j_id x \<noteq> i"
    and b: "\<And>k. k \<noteq> audioKey u i \<Longrightarrow> k \<noteq> pdfKey u i \<Longrightarrow> bucket w' k = bucket w k"
  shows "recorded w' x = recorded w x"
proof -
  note j = own_facts [OF assms(1) own]
  have "audioKey (j_userId x) (j_id x) \<noteq> audioKey u i"
    using slashless [OF assms(1) x(1)] slashless [OF assms(1) j(1)] j(2,3) x(2) audioKey_inj by metis
  with b show ?thesis by (simp add: recorded_def)
qed

lemma implements_missing:
  "faults w = [] \<Longrightarrow> ownRow w u (about c) = None \<Longrightarrow> implements A u c w"
  by (cases c) (simp_all add: implements_def steady_def shelf_def answerOf_def spec_def run_findOne update_def
      process_def remove_def getPdfUrl_def run_requireOwned)

lemma implements_Look: "faults w = [] \<Longrightarrow> ownRow w u i = Some j \<Longrightarrow> implements A u (Look i) w"
  by (auto simp: implements_def steady_def shelf_def answerOf_def spec_def run_findOne noteOfDto_include dest: find_SomeD)

lemma implements_Fetch:
  assumes "faults w = []" and "inv A w" and "ownRow w u i = Some j"
  shows "implements A u (Fetch i) w"
proof (cases "j_status j = READY")
  case True
  from run_getPdfUrl_ready [OF assms this] assms(1,3) True show ?thesis
    by (auto simp: implements_def steady_def shelf_def answerOf_def linkOf_def noteOf_def spec_def)
next
  case False
  with assms show ?thesis
    by (auto simp: implements_def steady_def shelf_def answerOf_def noteOf_def spec_def getPdfUrl_def run_requireOwned)
qed

lemma implements_Discard:
  assumes "faults w = []" and "inv A w" and own: "ownRow w u i = Some j"
  shows "implements A u (Discard i) w"
proof -
  note j = own_facts [OF assms(2) own]
  let ?P = "\<lambda>j. j_id j = i \<and> visible u j"
  let ?f = "\<lambda>j. touch w (j\<lparr>j_deletedAt := Some (clock w)\<rparr>)"
  let ?w1 = "w\<lparr>jobs := upd ?P ?f (jobs w)\<rparr>"
  have "filter ?P (jobs w) \<noteq> []" using j by (auto simp: filter_empty_conv)
  then have del: "run (softDeleteScoped u i) w = (Inr (length (filter ?P (jobs w))), ?w1)"
    using assms(1) by (simp add: softDeleteScoped_def run_remote)
  have ks: "audioKey u i \<in> set (presentKeys j)" using j(5) by (simp add: presentKeys_def)
  moreover have "job_ok j" using assms(2) j(1) by (simp add: inv_def jobs_inv_def)
  then have "set (presentKeys j) \<subseteq> {[], audioKey u i, pdfKey u i}" using presentKeys_of [of j] j(2,3) by simp
  moreover from ks have "\<not> set (presentKeys j) \<subseteq> {[]}" by auto
  moreover define b where "b = (bucket w) |` (- (set (presentKeys j) - {[]}))"
  ultimately have keep: "b k = bucket w k" if "k \<noteq> audioKey u i" "k \<noteq> pdfKey u i" for k
    using that by (auto simp: restrict_map_def)
  have "run (deleteObjects (presentKeys j)) ?w1 = (Inr (), ?w1\<lparr>bucket := b\<rparr>)"
    using assms(1) \<open>\<not> set (presentKeys j) \<subseteq> {[]}\<close> by (simp add: run_deleteObjects b_def)
  then have b: "run (remove u i) w = (Inr (), ?w1\<lparr>bucket := b\<rparr>)"
    using assms(1) own del \<open>filter ?P (jobs w) \<noteq> []\<close> by (simp add: remove_def run_requireOwned)
  let ?w = "?w1\<lparr>bucket := b\<rparr>"
  have gone: "ownRow ?w v k = (if k = i \<and> v = u then None else ownRow w v k)" for v k
    using find_upd_gone [of ?f k v i u "jobs w"] by simp
  have same: "recorded ?w x = recorded w x" if "ownRow w v k = Some x" "\<not> (k = i \<and> v = u)" for v k x
  proof -
    have "j_id x \<noteq> i" using that ownRow_other_user [OF j(6) own, of v] own_facts(2) [OF assms(2) that(1)] by auto
    with recorded_other [OF assms(2) own own_facts(1) [OF assms(2) that(1)], of ?w] keep show ?thesis by simp
  qed
  have "shelf ?w v k = (if k = i \<and> v = u then None else shelf w v k)" for v k
    using same unfolding shelf_def gone noteOf_cong [of ?w w, simplified]
    by (cases "ownRow w v k") auto
  then have "shelf ?w v = (if v = u then (shelf w u)(i := None) else shelf w v)" for v by auto
  moreover have "j_id ` set (upd ?P ?f (jobs w)) = j_id ` set (jobs w)" by (rule ids_upd) simp
  ultimately show ?thesis using b own assms(1)
    by (simp add: implements_def steady_def answerOf_def spec_def shelf_def [of w u i])
qed

lemma implements_Start:
  assumes "faults w = []" and "inv A w" and own: "ownRow w u i = Some j"
  shows "implements A u (Start i) w"
proof -
  note j = own_facts [OF assms(2) own]
  show ?thesis
  proof (cases "startable (j_status j) \<and> bucket w (audioKey u i) \<noteq> None")
    case True
    let ?w1 = "w\<lparr>jobs := upd (\<lambda>j. j_id j = i) (queuedRow w) (jobs w)\<rparr>"
    have "faults ?w1 = []" "queue_inv ?w1" using assms(1) j(8) by (simp_all add: queue_inv_def)
    from enqueue_queued [OF this] obtain q where
      q: "run (enqueueProcessing A \<lparr>pj_jobId = i, pj_userId = u\<rparr>) ?w1 = (Inr (), ?w1\<lparr>queue := q\<rparr>)" by blast
    let ?w' = "?w1\<lparr>queue := q\<rparr>"
    have "shelf ?w' u = (shelf w u)(i \<mapsto> (noteOf ?w' (queuedRow w j), recorded w j))
        \<and> (\<forall>v. v \<noteq> u \<longrightarrow> shelf ?w' v = shelf w v)"
      by (rule shelf_update [OF assms(2) own, of _ "\<lambda>j. j_id j = i" "queuedRow w"])
        (simp_all add: j(2) storedReport_cong [of ?w' w])
    moreover have "noteOf ?w' (queuedRow w j) = queued (noteOf w j)"
      by (simp add: noteOf_def queued_def storedReport_cong [of ?w' w _ j])
    moreover have "j_id ` set (jobs ?w') = j_id ` set (jobs w)" by (simp add: ids_upd)
    ultimately show ?thesis
      using True own j(2,3) assms(1) run_process_queued [OF assms _ _ q refl]
      by (simp add: implements_def steady_def answerOf_def noteOfDto_include shelf_def [of w] spec_def recorded_def)
        (simp add: noteOf_def)
  next
    case False
    then show ?thesis using assms(1) own j(2,3,5)
      by (auto simp: implements_def steady_def process_def run_requireOwned startable_def Let_def noteOfDto_include
          shelf_def noteOf_def answerOf_def spec_def recorded_def)
  qed
qed

lemma replaced_noteOf:
  assumes "inj (uuid A)" and "report_inv A w"
  shows "noteOf ((replaced A i secs w)\<lparr>jobs := js\<rparr>) k
    = (if j_id k = i then (noteOf w k)\<lparr>n_report := secs\<rparr> else noteOf w k)"
proof -
  have "noteOf ((replaced A i secs w)\<lparr>jobs := js\<rparr>) k = noteOf (replaced A i secs w) k"
    by (simp add: noteOf_cong [of "(replaced A i secs w)\<lparr>jobs := js\<rparr>" "replaced A i secs w"])
  moreover have "storedReport (replaced A i secs w) k = (if j_id k = i then secs else storedReport w k)"
    using storedReport_replaced [OF _ assms] include_replaced_other [OF assms]
    by (simp add: storedReport_def)
  ultimately show ?thesis by (simp add: noteOf_def)
qed

lemma shown:
  "faults w = [] \<Longrightarrow> shelf w u i = Some (n, r) \<Longrightarrow>
    \<exists>d. run (findOne A u i) w = (Inr d, w) \<and> jd_id d = i \<and> noteOfDto d = n"
  by (auto simp: shelf_def run_findOne noteOfDto_include dest: find_SomeD)

lemma implements_written:
  assumes "faults w = []" and "ownRow w u i = Some j" and "uj_label dto \<noteq> Null" and steady: "steady w w'"
    and "run (if uj_sections dto \<noteq> Undefined then replaceReportScoped A u i (uj_label dto)
            (toReportInput (case uj_sections dto of Given ss \<Rightarrow> Some ss | _ \<Rightarrow> None))
          else if uj_label dto \<noteq> Undefined then updateLabelScoped A u i (uj_label dto) else Ret ()) w = (Inr (), w')"
    and sh: "shelf w' u = (shelf w u)(i \<mapsto> (edited dto (noteOf w j), recorded w j))
      \<and> (\<forall>v. v \<noteq> u \<longrightarrow> shelf w' v = shelf w v)"
  shows "implements A u (Edit i dto) w"
proof -
  have "faults w' = []" using steady by (simp add: steady_def)
  then obtain d where "run (findOne A u i) w' = (Inr d, w')" "jd_id d = i" "noteOfDto d = edited dto (noteOf w j)"
    using shown [of w' u i _ _ A] sh by fastforce
  then have "run (handler A u (Edit i dto)) w = (Inr (Shown i (edited dto (noteOf w j))), w')"
    using assms(1,2,5) by (simp add: update_def run_requireOwned)
  with sh assms(2,3) steady show ?thesis by (simp add: implements_def answerOf_def shelf_def [of w u i] spec_def)
qed

lemma implements_report:
  assumes "faults w = []" and inv: "inv A w" and own: "ownRow w u i = Some j" and id: "inj (uuid A)"
    and dto: "uj_label dto \<noteq> Null" "uj_sections dto \<noteq> Undefined"
  shows "implements A u (Edit i dto) w"
proof -
  note j = own_facts [OF inv own]
  let ?secs = "toReportInput (case uj_sections dto of Given ss \<Rightarrow> Some ss | _ \<Rightarrow> None)"
  let ?r = "replaced A i ?secs w"
  let ?js = "upd (\<lambda>j. j_id j = i \<and> j_userId j = u) (relabel (uj_label dto) ?r) (jobs w)"
  let ?w = "?r\<lparr>jobs := ?js\<rparr>"
  have "storedReport ?w k = storedReport w k" if "j_id k \<noteq> i" for k
    using replaced_noteOf [OF id j(7), where i = i and secs = ?secs and k = k and js = ?js] that
    by (simp add: noteOf_def)
  then have "shelf ?w u = (shelf w u)(i \<mapsto> (noteOf ?w (relabel (uj_label dto) ?r j), recorded w j))
      \<and> (\<forall>v. v \<noteq> u \<longrightarrow> shelf ?w v = shelf w v)"
    by (intro shelf_update [OF inv own, of _ "\<lambda>j. j_id j = i \<and> j_userId j = u" "relabel (uj_label dto) ?r"])
      (simp_all add: j)
  moreover have "noteOf ?w (relabel (uj_label dto) ?r j) = edited dto (noteOf w j)"
    using j(2) dto(2) unfolding replaced_noteOf [OF id j(7)]
    by (auto simp: noteOf_def edited_def relabel_def touch_def toReportInput_def split: field.split)
  moreover have "steady w ?w" using assms(1)
    by (simp add: steady_def ids_upd) (simp add: replaced_def Let_def deleteSections_def deleteFindings_def)
  ultimately show ?thesis
    using dto(2) run_replaceReportScoped [OF assms(1) id inv own dto(1), of ?secs]
    by (intro implements_written [OF assms(1) own dto(1), of ?w]) simp_all
qed

lemma implements_Edit:
  assumes "faults w = []" and inv: "inv A w" and own: "ownRow w u i = Some j" and id: "inj (uuid A)"
  shows "implements A u (Edit i dto) w"
proof -
  note j = own_facts [OF inv own] and change = shelf_update [OF inv own]
  consider (null) "uj_label dto = Null"
    | (report) "uj_label dto \<noteq> Null" "uj_sections dto \<noteq> Undefined"
    | (label) l where "uj_label dto = Given l" "uj_sections dto = Undefined"
    | (neither) "uj_label dto = Undefined" "uj_sections dto = Undefined"
    by (cases "uj_label dto") auto
  then show ?thesis
  proof cases
    case null
    from refused_update [OF assms(1) own null] obtain e n where
      "run (update A u i dto) w = (Inl e, w\<lparr>entropy := n\<rparr>)" by blast
    moreover have "shelf (w\<lparr>entropy := n\<rparr>) = shelf w" by (rule shelf_cong) simp_all
    ultimately show ?thesis using null own assms(1)
      by (auto simp: implements_def steady_def answerOf_def spec_def shelf_def [of w u i])
  next
    case report
    then show ?thesis by (rule implements_report [OF assms])
  next
    case label
    let ?P = "\<lambda>j. j_id j = i \<and> visible u j" and ?f = "\<lambda>j. touch w (j\<lparr>j_label := l\<rparr>)"
    let ?w = "w\<lparr>jobs := upd ?P ?f (jobs w)\<rparr>"
    have "shelf ?w u = (shelf w u)(i \<mapsto> (noteOf ?w (?f j), recorded w j)) \<and> (\<forall>v. v \<noteq> u \<longrightarrow> shelf ?w v = shelf w v)"
      by (rule change [of _ ?P ?f]) (simp_all add: j storedReport_cong [of ?w w])
    moreover have "storedReport ?w (?f j) = storedReport w j" by (rule storedReport_cong) simp_all
    then have "noteOf ?w (?f j) = edited dto (noteOf w j)"
      using label unfolding noteOf_def edited_def by (simp add: touch_def)
    moreover have "steady w ?w" using assms(1) by (simp add: steady_def ids_upd)
    ultimately show ?thesis
      using label assms(1) by (intro implements_written [OF assms(1) own, of dto ?w])
        (simp_all add: updateLabelScoped_def run_remote)
  next
    case neither
    then have "edited dto (noteOf w j) = noteOf w j" by (simp add: edited_def)
    with neither own assms(1) show ?thesis
      by (intro implements_written [OF assms(1) own, of dto w]) (auto simp: steady_def shelf_def)
  qed
qed

lemma handler_implements:
  assumes "faults w = []" and "inv A w" and "inj (uuid A)"
  shows "implements A u c w"
proof (cases "ownRow w u (about c)")
  case None
  with implements_missing assms(1) show ?thesis by blast
next
  case (Some j)
  then show ?thesis
    using implements_Look [OF assms(1)] implements_Fetch [OF assms(1,2)] implements_Discard [OF assms(1,2)]
      implements_Start [OF assms(1,2)] implements_Edit [OF assms(1,2) _ assms(3)]
    by (cases c) simp_all
qed

section \<open>New jobs and uploads\<close>

lemma newHandler_implements:
  assumes "faults w = []" and "inv A w" and "u \<in> u_id ` set (users w)"
    and new: "uuid A (entropy w) \<notin> j_id ` set (jobs w)"
  shows "\<exists>w' r. run (newHandler A u dto) w = (Inr (Shown (uuid A (entropy w)) (blank dto)), w')
    \<and> faults w' = [] \<and> users w' = users w \<and> clock w' = clock w \<and> entropy w' = Suc (entropy w)
    \<and> j_id ` set (jobs w') = insert (uuid A (entropy w)) (j_id ` set (jobs w))
    \<and> shelf w' = (shelf w)(u := (shelf w u)(uuid A (entropy w) \<mapsto> (blank dto, r)))"
proof -
  let ?i = "uuid A (entropy w)"
  let ?row = "draftRow ?i u (cj_label dto) (audioKey u ?i) None (clock w)"
  let ?w = "w\<lparr>entropy := Suc (entropy w), jobs := jobs w @ [?row]\<rparr>"
  have "\<not> (\<exists>j \<in> set (jobs (w\<lparr>entropy := Suc (entropy w)\<rparr>)). conflicts ?i u None j)"
    using new by (auto simp: conflicts_def) (metis imageI)
  from run_createDraft [OF _ this] assms(1,3) obtain c where
    c: "run (create A u dto None) w = (Inr c, ?w)" "cr_job c = jobToDto (JOB_REPORT_INCLUDE ?w ?row) None"
    by (auto simp: create_def Let_def)
  have row: "j_id ?row = ?i" "j_userId ?row = u" "j_deletedAt ?row = None" by (simp_all add: draftRow_def)
  have "s_jobId s \<noteq> ?i" if "s \<in> set (sections w)" for s
    using assms(2) new that unfolding inv_def by (metis imageI subsetD)
  then have "storedReport ?w ?row = []"
    by (simp add: storedReport_def reportTree_def JOB_REPORT_INCLUDE_def sectionsOf_def row filter_False)
  then have empty: "noteOf ?w ?row = blank dto"
    by (simp add: noteOf_def blank_def) (simp add: draftRow_def)
  have none: "ownRow w v ?i = None" for v using new unfolding find_None_iff by (metis imageI)
  have own: "find (\<lambda>j. j_id j = k \<and> visible v j) (jobs w @ [?row])
      = (if k = ?i \<and> v = u then Some ?row else ownRow w v k)" for v k
    using none [of v] row by (auto simp: find_append split: option.split)
  have cong: "noteOf ?w = noteOf w" "recorded ?w = recorded w" by (rule noteOf_cong recorded_cong; simp)+
  with empty have "shelf ?w = (shelf w)(u := (shelf w u)(?i \<mapsto> (blank dto, recorded w ?row)))"
    by (auto simp: shelf_def own simp del: find_append intro!: ext)
  with c empty row assms(1) show ?thesis
    by (intro exI [of _ ?w] exI [of _ "recorded w ?row"]) (simp add: newHandler_def noteOfDto_include)
qed

lemma upload_implements:
  assumes "inv A w" and own: "ownRow w u i = Some j" and w': "w' = w\<lparr>bucket := (bucket w)(audioKey u i \<mapsto> ob)\<rparr>"
  shows "shelf w' = (shelf w)(u := (shelf w u)(i := map_option (\<lambda>(n, r). (n, True)) (shelf w u i)))"
proof (intro ext)
  fix v k
  note j = own_facts [OF assms(1) own]
  have rows: "ownRow w' v k = ownRow w v k" by (simp add: w')
  have note': "noteOf w' = noteOf w" by (rule noteOf_cong) (simp_all add: w')
  show "shelf w' v k = ((shelf w)(u := (shelf w u)(i := map_option (\<lambda>(n, r). (n, True)) (shelf w u i)))) v k"
  proof (cases "v = u \<and> k = i")
    case True
    then show ?thesis using own j(2,3) by (simp add: shelf_def rows note' recorded_def) (simp add: w')
  next
    case False
    have "recorded w' x = recorded w x" if "ownRow w v k = Some x" for x
    proof -
      have "j_id x \<noteq> i" using that False ownRow_other_user [OF j(6) own, of v] own_facts(2) [OF assms(1) that] by auto
      with recorded_other [OF assms(1) own own_facts(1) [OF assms(1) that], of w'] show ?thesis by (simp add: w')
    qed
    with False show ?thesis by (cases "ownRow w v k") (auto simp: shelf_def rows note')
  qed
qed

section \<open>The refinement\<close>

text \<open>A good world in which no call will fail and the identifiers to come are unused.\<close>

definition calm :: "app \<Rightarrow> world \<Rightarrow> bool" where
  "calm A w \<longleftrightarrow> faults w = [] \<and> inv A w \<and> (\<forall>k \<ge> entropy w. uuid A k \<notin> j_id ` set (jobs w))"

lemma ok_handler: "ok A (\<lambda>_ _. True) (handler A u c) w"
  by (cases c) (auto intro: ok_bind [OF ok_findOne] ok_bind [OF ok_update] ok_bind [OF ok_process]
      ok_bind [OF ok_remove] ok_bind [OF ok_getPdfUrl])

lemma ok_newHandler: "uuid_source_ok A \<Longrightarrow> ok A (\<lambda>_ _. True) (newHandler A u dto) w"
  unfolding newHandler_def by (auto intro: ok_bind [OF ok_create])

lemma evolves_run: "inv A w \<Longrightarrow> ok A Q p w \<Longrightarrow> run p w = (r, w') \<Longrightarrow> evolves A w w'"
  using ev.run_sound [OF _ evolves_refl] by (metis snd_conv)

text \<open>One event takes a calm world to a calm one, as the specification says.\<close>

definition refines :: "app \<Rightarrow> event \<Rightarrow> world \<Rightarrow> bool" where
  "refines A e w \<longleftrightarrow> (case perform A e w of (a, w') \<Rightarrow> desk_step (linkOf A (clock w)) (desk w) e a (desk w')
     \<and> calm A w' \<and> users w' = users w \<and> clock w' = clock w)"

lemma refines_New:
  assumes "calm A w" and "inj (uuid A)" and "u \<in> u_id ` set (users w)"
  shows "refines A (New u dto) w"
proof -
  let ?i = "uuid A (entropy w)"
  from assms(1) have w: "faults w = []" "inv A w" "\<And>k. entropy w \<le> k \<Longrightarrow> uuid A k \<notin> j_id ` set (jobs w)"
    by (simp_all add: calm_def)
  from newHandler_implements [OF w(1,2) assms(3) w(3) [OF order_refl]] obtain v r where
    v: "run (newHandler A u dto) w = (Inr (Shown ?i (blank dto)), v)" "faults v = []" "users v = users w"
      "clock v = clock w" "entropy v = Suc (entropy w)" "j_id ` set (jobs v) = insert ?i (j_id ` set (jobs w))"
      "shelf v = (shelf w)(u := (shelf w u)(?i \<mapsto> (blank dto, r)))" by blast
  have "uuid_source_ok A" using w(2) by (simp add: inv_def)
  from evolves_inv(1) [OF evolves_run [OF w(2) ok_newHandler [OF this] v(1)]] have "inv A v" .
  moreover have "uuid A k \<notin> j_id ` set (jobs v)" if "entropy v \<le> k" for k
    using that w(3) [of k] v(5,6) assms(2) by (auto simp: inj_eq)
  moreover have "desk_step (linkOf A (clock w)) (desk w) (New u dto) (Shown ?i (blank dto))
      ((desk w)\<lparr>d_shelf := (d_shelf (desk w))(u := (d_shelf (desk w) u)(?i \<mapsto> (blank dto, r))),
        d_ids := insert ?i (d_ids (desk w))\<rparr>)"
    using w(3) by (intro desk_step.created) (simp add: desk_def)
  ultimately show ?thesis using v by (simp add: refines_def answerOf_def calm_def desk_def)
qed

lemma refines_Ask:
  assumes "calm A w" and "inj (uuid A)"
  shows "refines A (Ask u c) w"
proof -
  from assms(1) have w: "faults w = []" "inv A w" "\<And>k. entropy w \<le> k \<Longrightarrow> uuid A k \<notin> j_id ` set (jobs w)"
    by (simp_all add: calm_def)
  obtain r v where v: "run (handler A u c) w = (r, v)" by fastforce
  from handler_implements [OF w(1,2) assms(2), of u c] v have i: "steady w v"
    "spec (linkOf A (clock w) u) c (shelf w u) = (answerOf r, shelf v u)" "\<And>x. x \<noteq> u \<Longrightarrow> shelf v x = shelf w x"
    by (simp_all add: implements_def)
  from evolves_run [OF w(2) ok_handler v] have "inv A v" "entropy w \<le> entropy v"
    by (simp_all add: evolves_def grows_def)
  with i(1) w(3) have "calm A v" "users v = users w" "clock v = clock w" by (auto simp: calm_def steady_def)
  moreover have "shelf v = (shelf w)(u := shelf v u)" using i(3) by auto
  then have "desk v = (desk w)\<lparr>d_shelf := (d_shelf (desk w))(u := shelf v u)\<rparr>"
    using i(1) by (simp add: desk_def steady_def)
  moreover have "desk_step (linkOf A (clock w)) (desk w) (Ask u c) (answerOf r)
      ((desk w)\<lparr>d_shelf := (d_shelf (desk w))(u := shelf v u)\<rparr>)"
    by (rule desk_step.asked) (simp add: desk_def i(2))
  ultimately show ?thesis using v by (simp add: refines_def)
qed

lemma refines_Upload:
  assumes "calm A w"
  shows "refines A (Upload u i ob) w"
proof -
  from assms have inv: "inv A w" by (simp add: calm_def)
  let ?w = "if ownRow w u i = None then w else w\<lparr>bucket := (bucket w)(audioKey u i \<mapsto> ob)\<rparr>"
  let ?S = "(shelf w)(u := (shelf w u)(i := map_option (\<lambda>(n, r). (n, True)) (shelf w u i)))"
  have "shelf ?w = ?S"
  proof (cases "ownRow w u i")
    case None
    then have "shelf w u i = None" by (simp add: shelf_def)
    with None show ?thesis by (simp add: fun_upd_idem)
  next
    case (Some j)
    with upload_implements [OF inv Some] show ?thesis by simp
  qed
  then have "desk ?w = (desk w)\<lparr>d_shelf := ?S\<rparr>" by (simp add: desk_def)
  moreover have "desk_step (linkOf A (clock w)) (desk w) (Upload u i ob) Stored ((desk w)\<lparr>d_shelf := ?S\<rparr>)"
    using desk_step.uploaded [of "linkOf A (clock w)" "desk w" u i ob] by (simp add: desk_def)
  moreover have "inv A (w\<lparr>bucket := (bucket w)(audioKey u i \<mapsto> ob)\<rparr>)"
    by (rule evolves_inv(1) [OF evolves_bucket [OF inv]]) (auto simp: audioKey_neq_pdfKey [symmetric])
  ultimately show ?thesis using assms by (simp add: refines_def calm_def)
qed

lemma perform_refines: "calm A w \<Longrightarrow> inj (uuid A) \<Longrightarrow> actor e \<in> u_id ` set (users w) \<Longrightarrow> refines A e w"
  by (cases e) (simp_all add: refines_New refines_Ask refines_Upload)

text \<open>
  C5. The jobs API is a shelf of entries per user: for every sequence of new jobs, requests and uploads of existing
  users, in any order, the handlers give exactly answers that the specification gives, and the tables, the queue
  and the bucket they leave are exactly the shelves it leaves. In particular (\<open>desk_steps_private\<close>) a
  shelf never changes through other users' requests. An entry is the job's label, status, transcript, error and
  report (section titles, finding texts and severities, in order) and whether its recording is there. This holds
  when no call fails and nobody interferes; the world stays such that it holds for the next request.
\<close>

theorem jobs_api_refines_desk:
  assumes "calm A w" and "inj (uuid A)" and "\<forall>e \<in> set es. actor e \<in> u_id ` set (users w)"
  shows "case session A es w of (as, w') \<Rightarrow> desk_steps (linkOf A (clock w)) (desk w) es as (desk w') \<and> calm A w'"
  using assms(1,3)
proof (induction es arbitrary: w)
  case Nil
  then show ?case by (simp add: desk_steps.none)
next
  case (Cons e es)
  from perform_refines [OF Cons.prems(1) assms(2), of e] Cons.prems(2) obtain a v where
    v: "perform A e w = (a, v)" "desk_step (linkOf A (clock w)) (desk w) e a (desk v)" "calm A v"
      "users v = users w" "clock v = clock w" by (auto simp: refines_def)
  from Cons.IH [OF v(3)] Cons.prems(2) v show ?case
    by (auto intro: desk_steps.more split: prod.splits)
qed

theorem jobs_api_refines_desk_witness:
  "let es = [New (lit ''u1'') \<lparr>cj_label = lit ''Oak''\<rparr>, Upload (lit ''u1'') [105] \<lparr>o_body = [1], o_contentType = AUDIO_CONTENT_TYPE\<rparr>,
       Ask (lit ''u1'') (Start [105]), Ask (lit ''u1'') (Discard (lit ''j2''))] in
     case session sampleApp es sampleWorld of
       (as, w') \<Rightarrow> desk_steps (linkOf sampleApp (clock sampleWorld)) (desk sampleWorld) es as (desk w')"
proof -
  let ?es = "[New (lit ''u1'') \<lparr>cj_label = lit ''Oak''\<rparr>, Upload (lit ''u1'') [105] \<lparr>o_body = [1], o_contentType = AUDIO_CONTENT_TYPE\<rparr>,
    Ask (lit ''u1'') (Start [105]), Ask (lit ''u1'') (Discard (lit ''j2''))]"
  have "calm sampleApp sampleWorld"
    using sample_inv by (auto simp: calm_def sampleApp_def lit_unfold)
  moreover have "\<forall>e \<in> set ?es. actor e \<in> u_id ` set (users sampleWorld)" by (simp add: sampleWorld_def)
  ultimately show ?thesis
    unfolding Let_def using jobs_api_refines_desk [OF _ sample_inj, of sampleWorld ?es]
    by (auto split: prod.splits simp del: session.simps)
qed

end
