(* ===== verification/Utf8.thy ===== *)
theory Utf8
  imports Prelude
begin

text \<open>
  UTF-8 as \<^verbatim>\<open>Buffer.from(s, 'utf8')\<close> and the URI functions of JavaScript use it: the bytes of a string of UTF-16
  units, and that strings without unpaired surrogates are determined by their bytes.
\<close>

section \<open>UTF-8\<close>

text \<open>Code points of a string of UTF-16 units; an unpaired surrogate becomes U+FFFD, as in Node's \<^verbatim>\<open>Buffer.from\<close>.\<close>

definition highSurrogate :: "jschar \<Rightarrow> bool" where
  "highSurrogate c \<longleftrightarrow> 0xD800 \<le> unat c \<and> unat c < 0xDC00"

definition lowSurrogate :: "jschar \<Rightarrow> bool" where
  "lowSurrogate c \<longleftrightarrow> 0xDC00 \<le> unat c \<and> unat c < 0xE000"

definition combine :: "jschar \<Rightarrow> jschar \<Rightarrow> nat" where
  "combine c d = 0x10000 + (unat c - 0xD800) * 1024 + (unat d - 0xDC00)"

fun codePoints :: "js \<Rightarrow> nat list" where
  "codePoints [] = []"
| "codePoints [c] = [if highSurrogate c \<or> lowSurrogate c then 0xFFFD else unat c]"
| "codePoints (c # d # s) =
     (if highSurrogate c \<and> lowSurrogate d then combine c d # codePoints s
      else (if highSurrogate c \<or> lowSurrogate c then 0xFFFD else unat c) # codePoints (d # s))"

text \<open>The bytes of a code point, as numbers below 256.\<close>

definition encodePoint :: "nat \<Rightarrow> nat list" where
  "encodePoint n =
     (if n < 0x80 then [n]
      else if n < 0x800 then [0xC0 + n div 64, 0x80 + n mod 64]
      else if n < 0x10000 then [0xE0 + n div 4096, 0x80 + n div 64 mod 64, 0x80 + n mod 64]
      else [0xF0 + n div 262144, 0x80 + n div 4096 mod 64, 0x80 + n div 64 mod 64, 0x80 + n mod 64])"

definition utf8 :: "js \<Rightarrow> nat list" where
  "utf8 s = concat (map encodePoint (codePoints s))"

section \<open>Encoding loses nothing\<close>

text \<open>Strings without unpaired surrogates.\<close>

fun wellFormed :: "js \<Rightarrow> bool" where
  "wellFormed [] = True"
| "wellFormed [c] = (\<not> highSurrogate c \<and> \<not> lowSurrogate c)"
| "wellFormed (c # d # s) =
     (if highSurrogate c then lowSurrogate d \<and> wellFormed s else \<not> lowSurrogate c \<and> wellFormed (d # s))"

lemma same_digits: "n div k = m div k \<Longrightarrow> n mod k = m mod k \<Longrightarrow> n = (m :: nat)"
  by (metis div_mult_mod_eq)

lemma encodePoint_range:
  "n < 0x80 \<Longrightarrow> encodePoint n = [n]"
  "0x80 \<le> n \<Longrightarrow> n < 0x800 \<Longrightarrow> encodePoint n = [0xC0 + n div 64, 0x80 + n mod 64]"
  "0x800 \<le> n \<Longrightarrow> n < 0x10000 \<Longrightarrow> encodePoint n = [0xE0 + n div 64 div 64, 0x80 + n div 64 mod 64, 0x80 + n mod 64]"
  "0x10000 \<le> n \<Longrightarrow> encodePoint n =
     [0xF0 + n div 64 div 64 div 64, 0x80 + n div 64 div 64 mod 64, 0x80 + n div 64 mod 64, 0x80 + n mod 64]"
  by (simp_all add: encodePoint_def flip: div_mult2_eq)

text \<open>The first byte tells the length.\<close>

lemma first_byte:
  "hd (encodePoint n) < 0x80 \<longleftrightarrow> n < 0x80" "hd (encodePoint n) < 0xE0 \<longleftrightarrow> n < 0x800"
  "hd (encodePoint n) < 0xF0 \<longleftrightarrow> n < 0x10000" "encodePoint n \<noteq> []"
proof -
  have d: "n < 0x800 \<longleftrightarrow> n div 64 < 32" "n < 0x10000 \<longleftrightarrow> n div 4096 < 16" by linarith+
  show "hd (encodePoint n) < 0x80 \<longleftrightarrow> n < 0x80" "hd (encodePoint n) < 0xE0 \<longleftrightarrow> n < 0x800"
    "hd (encodePoint n) < 0xF0 \<longleftrightarrow> n < 0x10000" "encodePoint n \<noteq> []"
    using d by (auto simp: encodePoint_def)
qed

lemma encodePoint_prefix:
  assumes "encodePoint n @ xs = encodePoint m @ ys"
  shows "n = m \<and> xs = ys"
proof -
  have "hd (encodePoint n) = hd (encodePoint m)" using assms first_byte(4) by (metis hd_append2)
  then have r: "n < 0x80 \<longleftrightarrow> m < 0x80" "n < 0x800 \<longleftrightarrow> m < 0x800" "n < 0x10000 \<longleftrightarrow> m < 0x10000"
    using first_byte(1-3) [of n] first_byte(1-3) [of m] by simp_all
  consider "n < 0x80" | "0x80 \<le> n" "n < 0x800" | "0x800 \<le> n" "n < 0x10000" | "0x10000 \<le> n" by linarith
  then show ?thesis
  proof cases
    case 1
    with r assms show ?thesis by (simp add: encodePoint_range)
  next
    case 2
    with r assms same_digits [of n 64 m] show ?thesis by (simp add: encodePoint_range(2) not_less)
  next
    case 3
    with r assms same_digits [of n 64 m] same_digits [of "n div 64" 64 "m div 64"] show ?thesis
      by (simp add: encodePoint_range(3) not_less)
  next
    case 4
    with r assms same_digits [of n 64 m] same_digits [of "n div 64" 64 "m div 64"]
      same_digits [of "n div 64 div 64" 64 "m div 64 div 64"] show ?thesis
      by (simp add: encodePoint_range(4) not_less)
  qed
qed

text \<open>The units of a code point, undoing \<open>codePoints\<close>.\<close>

definition unitsOf :: "nat \<Rightarrow> js" where
  "unitsOf n = (if n < 0x10000 then [of_nat n]
     else [of_nat (0xD800 + (n - 0x10000) div 1024), of_nat (0xDC00 + (n - 0x10000) mod 1024)])"

lemma unitsOf_unit: "unitsOf (unat c) = [c]"
proof -
  have "unat c < 0x10000" using unsigned_less [of c] by simp
  then show ?thesis by (simp add: unitsOf_def)
qed

lemma unitsOf_combine:
  assumes "highSurrogate c" and "lowSurrogate d"
  shows "unitsOf (combine c d) = [c, d]"
proof -
  have d: "unat d - 0xDC00 < 1024" "0xDC00 \<le> unat d" "0xD800 \<le> unat c"
    using assms by (auto simp: highSurrogate_def lowSurrogate_def)
  have "(combine c d - 0x10000) div 1024 = unat c - 0xD800" "(combine c d - 0x10000) mod 1024 = unat d - 0xDC00"
    using d(1) by (simp_all add: combine_def)
  with d(2,3) show ?thesis by (simp add: unitsOf_def) (simp add: combine_def)
qed

lemma codePoints_units: "wellFormed s \<Longrightarrow> concat (map unitsOf (codePoints s)) = s"
  by (induction s rule: codePoints.induct) (auto simp: unitsOf_unit unitsOf_combine split: if_splits)

lemma codePoints_inj: "wellFormed a \<Longrightarrow> wellFormed b \<Longrightarrow> codePoints a = codePoints b \<Longrightarrow> a = b"
  by (metis codePoints_units)

lemma encodePoints_inj: "concat (map encodePoint ns) = concat (map encodePoint ms) \<Longrightarrow> ns = ms"
proof (induction ns arbitrary: ms)
  case Nil
  then show ?case using first_byte(4) by (cases ms) auto
next
  case (Cons n ns)
  then obtain m ms' where "ms = m # ms'" using first_byte(4) [of n] by (cases ms) auto
  with Cons.prems have "n = m \<and> concat (map encodePoint ns) = concat (map encodePoint ms')"
    by (intro encodePoint_prefix) simp
  with Cons.IH \<open>ms = m # ms'\<close> show ?case by blast
qed

end
