(* ===== verification/Bull_Board.thy ===== *)
theory Bull_Board
  imports Config Utf8
begin

text \<open>
  The gate of the queue dashboard, \<^verbatim>\<open>server/src/queue/bull-board.ts\<close>: basic authentication against the configured
  credentials, compared as UTF-8 bytes. The base64 decoding of the header is a parameter. The theory shows that
  comparing encodings is comparing strings, and so which headers pass.
\<close>

section \<open>The gate\<close>

definition safeEqual :: "js \<Rightarrow> js \<Rightarrow> bool" where
  "safeEqual a b = (let ab = utf8 a; bb = utf8 b in if length ab \<noteq> length bb then False else ab = bb)"

text \<open>\<^verbatim>\<open>indexOf(':')\<close> finds the first colon.\<close>

definition credentialsMatch :: "BullBoardConfig \<Rightarrow> js \<Rightarrow> bool" where
  "credentialsMatch c decoded =
     (let user = (if 58 \<in> set decoded then takeWhile (\<lambda>x. x \<noteq> 58) decoded else decoded);
          pass = (if 58 \<in> set decoded then tl (dropWhile (\<lambda>x. x \<noteq> 58) decoded) else [])
      in safeEqual user (bb_user c) \<and> safeEqual pass (bb_password c))"

text \<open>Whether the request is passed on; otherwise it is answered 401.\<close>

definition basicAuth :: "(js \<Rightarrow> js) \<Rightarrow> BullBoardConfig \<Rightarrow> js option \<Rightarrow> bool" where
  "basicAuth decode c authorization =
     (let header = (case authorization of None \<Rightarrow> [] | Some h \<Rightarrow> h) in
      case js_split 32 header of
        scheme # encoded # _ \<Rightarrow> scheme = lit ''Basic'' \<and> truthy encoded \<and> credentialsMatch c (decode encoded)
      | _ \<Rightarrow> False)"

text \<open>
  What the dashboard's path does with a request: nothing when the dashboard is not enabled, else on to the router
  (\<^verbatim>\<open>next()\<close>), or the answer 401 with its challenge.
\<close>

datatype board_reply = NextHandler | Challenge nat js js

definition boardReply :: "(js \<Rightarrow> js) \<Rightarrow> BullBoardConfig \<Rightarrow> js option \<Rightarrow> board_reply" where
  "boardReply decode c authorization =
     (if basicAuth decode c authorization then NextHandler
      else Challenge 401 (lit ''Basic realm='' @ [34] @ lit ''bull-board'' @ [34]) (lit ''Authentication required.''))"

definition mountBullBoard :: "(js \<Rightarrow> js) \<Rightarrow> AppConfig \<Rightarrow> js option \<Rightarrow> board_reply option" where
  "mountBullBoard decode c authorization =
     (if \<not> bb_enabled (bullBoard c) then None else Some (boardReply decode (bullBoard c) authorization))"

section \<open>Who passes\<close>

lemma safeEqual_iff: "wellFormed a \<Longrightarrow> wellFormed b \<Longrightarrow> safeEqual a b \<longleftrightarrow> a = b"
  using encodePoints_inj codePoints_inj by (auto simp: safeEqual_def utf8_def Let_def)

lemma wellFormed_colon: "wellFormed (a @ 58 # b) \<longleftrightarrow> wellFormed a \<and> wellFormed b"
proof (induction a rule: wellFormed.induct)
  case 1
  show ?case by (cases b) (simp_all add: highSurrogate_def lowSurrogate_def)
next
  case (2 c)
  show ?case by (cases b) (auto simp: highSurrogate_def lowSurrogate_def)
qed auto

lemma split_colon:
  assumes "58 \<in> set s"
  shows "s = takeWhile (\<lambda>x. x \<noteq> 58) s @ 58 # tl (dropWhile (\<lambda>x. x \<noteq> 58) s)"
    and "58 \<notin> set (takeWhile (\<lambda>x. x \<noteq> (58 :: jschar)) s)"
proof -
  have "dropWhile (\<lambda>x. x \<noteq> 58) s \<noteq> []" using assms by (simp add: dropWhile_eq_Nil_conv)
  with hd_dropWhile [OF this] have "dropWhile (\<lambda>x. x \<noteq> 58) s = 58 # tl (dropWhile (\<lambda>x. x \<noteq> 58) s)"
    by (metis list.collapse)
  then show "s = takeWhile (\<lambda>x. x \<noteq> 58) s @ 58 # tl (dropWhile (\<lambda>x. x \<noteq> 58) s)"
    by (metis takeWhile_dropWhile_id)
qed (auto dest: set_takeWhileD)

lemma colon_pair:
  assumes "58 \<in> set s"
  shows "takeWhile (\<lambda>x. x \<noteq> 58) s = u \<and> tl (dropWhile (\<lambda>x. x \<noteq> 58) s) = p \<longleftrightarrow> 58 \<notin> set u \<and> s = u @ 58 # (p :: js)"
proof
  assume "takeWhile (\<lambda>x. x \<noteq> 58) s = u \<and> tl (dropWhile (\<lambda>x. x \<noteq> 58) s) = p"
  with split_colon [OF assms] show "58 \<notin> set u \<and> s = u @ 58 # p" by metis
next
  assume s: "58 \<notin> set u \<and> s = u @ 58 # p"
  then have "x \<noteq> 58" if "x \<in> set u" for x using that by blast
  with s show "takeWhile (\<lambda>x. x \<noteq> 58) s = u \<and> tl (dropWhile (\<lambda>x. x \<noteq> 58) s) = p"
    by (simp add: takeWhile_append2 dropWhile_append2)
qed

lemma credentialsMatch_iff:
  assumes "wellFormed (bb_user c)" and "wellFormed (bb_password c)" and "bb_password c \<noteq> []" and d: "wellFormed d"
  shows "credentialsMatch c d \<longleftrightarrow> 58 \<notin> set (bb_user c) \<and> d = bb_user c @ 58 # bb_password c"
proof (cases "58 \<in> set d")
  case True
  with d split_colon(1) [OF True] have "wellFormed (takeWhile (\<lambda>x. x \<noteq> 58) d)" "wellFormed (tl (dropWhile (\<lambda>x. x \<noteq> 58) d))"
    by (metis wellFormed_colon)+
  with True assms colon_pair [OF True] show ?thesis by (simp add: credentialsMatch_def safeEqual_iff)
next
  case False
  then show ?thesis using assms by (auto simp: credentialsMatch_def safeEqual_iff)
qed

text \<open>
  The gate opens for the configured credentials and for nothing else: with proper strings, and a
  password set as the dashboard requires, a request passes exactly when its header is \<^verbatim>\<open>Basic\<close> with a second field
  that decodes to user, colon, password. A configured user name with a colon in it lets nobody in.
\<close>

theorem dashboard_credentials:
  assumes "wellFormed (bb_user c)" and "wellFormed (bb_password c)" and "bb_password c \<noteq> []"
    and "\<And>e. wellFormed (decode e)"
  shows "basicAuth decode c header \<longleftrightarrow> 58 \<notin> set (bb_user c) \<and> (\<exists>h e rest. header = Some h
    \<and> js_split 32 h = lit ''Basic'' # e # rest \<and> e \<noteq> [] \<and> decode e = bb_user c @ 58 # bb_password c)"
  using credentialsMatch_iff [OF assms] by (cases header) (auto simp: basicAuth_def split: list.split)

theorem dashboard_credentials_witness:
  "basicAuth (\<lambda>e. lit ''op:pw'') \<lparr>bb_user = lit ''op'', bb_password = lit ''pw'', bb_enabled = True\<rparr> (Some (lit ''Basic b3A6cHc=''))
   \<and> \<not> basicAuth (\<lambda>e. lit ''op:no'') \<lparr>bb_user = lit ''op'', bb_password = lit ''pw'', bb_enabled = True\<rparr> (Some (lit ''Basic b3A6bm8=''))"
proof -
  have w: "wellFormed (lit ''op'')" "wellFormed (lit ''pw'')" "lit ''pw'' \<noteq> []" "wellFormed (lit ''op:pw'')" "wellFormed (lit ''op:no'')"
    by (simp_all add: lit_unfold highSurrogate_def lowSurrogate_def)
  have s: "js_split 32 (lit ''Basic b3A6cHc='') = [lit ''Basic'', lit ''b3A6cHc='']"
    "js_split 32 (lit ''Basic b3A6bm8='') = [lit ''Basic'', lit ''b3A6bm8='']" by (simp_all add: lit_unfold)
  let ?c = "\<lparr>bb_user = lit ''op'', bb_password = lit ''pw'', bb_enabled = True\<rparr>"
  have "wellFormed (bb_user ?c)" "wellFormed (bb_password ?c)" "bb_password ?c \<noteq> []" using w by simp_all
  note d = dashboard_credentials [OF this]
  show ?thesis
    using d [of "\<lambda>e. lit ''op:pw''", OF w(4)] d [of "\<lambda>e. lit ''op:no''", OF w(5)] s
    by (simp add: lit_unfold)
qed

text \<open>
  C35. The queue dashboard is there exactly when a user and a password are configured, and then a request reaches it
  exactly when its header is \<^verbatim>\<open>Basic\<close> with a second field that decodes to user, colon, password; any other is
  answered 401. A configured user name with a colon in it mounts a dashboard that lets nobody in.
\<close>

theorem dashboard_served:
  assumes "wellFormed (BULL_BOARD_USER e)" and "wellFormed (BULL_BOARD_PASSWORD e)" and "\<And>x. wellFormed (decode x)"
  shows "(mountBullBoard decode (toAppConfig e) header = None \<longleftrightarrow> BULL_BOARD_USER e = [] \<or> BULL_BOARD_PASSWORD e = [])
    \<and> (mountBullBoard decode (toAppConfig e) header = Some NextHandler \<longleftrightarrow>
        BULL_BOARD_USER e \<noteq> [] \<and> BULL_BOARD_PASSWORD e \<noteq> [] \<and> 58 \<notin> set (BULL_BOARD_USER e)
        \<and> (\<exists>h x rest. header = Some h \<and> js_split 32 h = lit ''Basic'' # x # rest \<and> x \<noteq> []
            \<and> decode x = BULL_BOARD_USER e @ 58 # BULL_BOARD_PASSWORD e))"
proof (cases "BULL_BOARD_PASSWORD e = []")
  case True
  then show ?thesis by (simp add: mountBullBoard_def toAppConfig_def)
next
  case False
  have b: "bb_user (bullBoard (toAppConfig e)) = BULL_BOARD_USER e" "bb_password (bullBoard (toAppConfig e)) = BULL_BOARD_PASSWORD e"
    by (simp_all add: toAppConfig_def)
  have "bb_enabled (bullBoard (toAppConfig e)) \<longleftrightarrow> BULL_BOARD_USER e \<noteq> [] \<and> BULL_BOARD_PASSWORD e \<noteq> []"
    by (simp add: toAppConfig_def)
  with False b assms dashboard_credentials [of "bullBoard (toAppConfig e)" decode header] show ?thesis
    by (simp add: mountBullBoard_def boardReply_def)
qed

theorem dashboard_served_witness:
  "\<exists>e. mountBullBoard (\<lambda>x. lit ''op:pw'') (toAppConfig e) (Some (lit ''Basic b3A6cHc='')) = Some NextHandler
    \<and> mountBullBoard (\<lambda>x. lit ''op:pw'') (toAppConfig e) None \<noteq> Some NextHandler"
proof -
  fix e0 :: RawEnv
  let ?e = "e0\<lparr>BULL_BOARD_USER := lit ''op'', BULL_BOARD_PASSWORD := lit ''pw''\<rparr>"
  have w: "wellFormed (BULL_BOARD_USER ?e)" "wellFormed (BULL_BOARD_PASSWORD ?e)" "wellFormed (lit ''op:pw'')"
    by (simp_all add: lit_unfold highSurrogate_def lowSurrogate_def)
  have "js_split 32 (lit ''Basic b3A6cHc='') = [lit ''Basic'', lit ''b3A6cHc='']" by (simp add: lit_unfold)
  with dashboard_served [OF w(1,2), of "\<lambda>x. lit ''op:pw''", OF w(3)] show ?thesis
    by (intro exI [of _ ?e]) (simp add: lit_unfold)
qed

end
