(* ===== verification/Tool_Schema.thy ===== *)
theory Tool_Schema
  imports Compiler
begin

text \<open>
  The JSON Schema given to the model as a forced tool (\<open>reportToolInputSchema\<close> of \<open>Compiler\<close>): the meaning of the keywords it uses, and its agreement with the zod schema that
  checks the answer. The source keeps the two aligned by hand.
\<close>

section \<open>The keywords\<close>

text \<open>
  \<open>type\<close>, \<open>enum\<close>, \<open>properties\<close>, \<open>required\<close>, \<open>additionalProperties\<close> and \<open>items\<close> as JSON Schema defines them; \<open>description\<close>
  says nothing. The first argument bounds the nesting of the schema.
\<close>

definition field :: "json \<Rightarrow> string \<Rightarrow> json option" where
  "field v k = (case v of JObj kvs \<Rightarrow> map_of kvs (lit k) | _ \<Rightarrow> None)"

definition typeFits :: "json option \<Rightarrow> json \<Rightarrow> bool" where
  "typeFits t v = (case t of Some (JStr s) \<Rightarrow> s = typeName (Some v) | _ \<Rightarrow> True)"

definition enumFits :: "json option \<Rightarrow> json \<Rightarrow> bool" where
  "enumFits e v = (case e of Some (JArr vs) \<Rightarrow> v \<in> set vs | _ \<Rightarrow> True)"

definition requiredFits :: "json option \<Rightarrow> (js \<times> json) list \<Rightarrow> bool" where
  "requiredFits r kvs = (case r of
     Some (JArr ks) \<Rightarrow> list_all (\<lambda>k. case k of JStr s \<Rightarrow> map_of kvs s \<noteq> None | _ \<Rightarrow> True) ks | _ \<Rightarrow> True)"

definition noOthers :: "json option \<Rightarrow> (js \<times> json) list \<Rightarrow> (js \<times> json) list \<Rightarrow> bool" where
  "noOthers a props kvs = (a = Some (JBool False) \<longrightarrow> list_all (\<lambda>p. map_of props (fst p) \<noteq> None) kvs)"

definition propsOf :: "json option \<Rightarrow> (js \<times> json) list" where
  "propsOf p = (case p of Some (JObj props) \<Rightarrow> props | _ \<Rightarrow> [])"

primrec conforms :: "nat \<Rightarrow> json \<Rightarrow> json \<Rightarrow> bool" where
  "conforms 0 sch v = False"
| "conforms (Suc n) sch v =
     (typeFits (field sch ''type'') v \<and> enumFits (field sch ''enum'') v \<and>
      (case v of
         JObj kvs \<Rightarrow>
           requiredFits (field sch ''required'') kvs
           \<and> noOthers (field sch ''additionalProperties'') (propsOf (field sch ''properties'')) kvs
           \<and> list_all (\<lambda>p. case map_of kvs (fst p) of None \<Rightarrow> True | Some x \<Rightarrow> conforms n (snd p) x)
               (propsOf (field sch ''properties''))
       | JArr xs \<Rightarrow> (case field sch ''items'' of None \<Rightarrow> True | Some item \<Rightarrow> list_all (conforms n item) xs)
       | _ \<Rightarrow> True))"

declare conforms.simps(2) [simp del]

section \<open>What conforms\<close>

lemma conforms_string: "conforms (Suc n) sch v \<longleftrightarrow> (\<exists>s. v = JStr s \<and> enumFits (field sch ''enum'') v)"
  if "field sch ''type'' = Some (JStr (lit ''string''))"
  using that by (cases v) (auto simp: conforms.simps(2) typeFits_def)

lemma conforms_array: "conforms (Suc n) sch v \<longleftrightarrow> (\<exists>xs. v = JArr xs \<and> (\<forall>x \<in> set xs. conforms n item x))"
  if "field sch ''type'' = Some (JStr (lit ''array''))" "field sch ''items'' = Some item" "field sch ''enum'' = None"
  using that by (cases v) (auto simp: conforms.simps(2) typeFits_def enumFits_def list_all_iff)

lemma map_of_keys: "map_of xs k \<noteq> None \<longleftrightarrow> k \<in> fst ` set xs"
  by (simp add: map_of_eq_None_iff)

lemma conforms_object:
  assumes "field sch ''type'' = Some (JStr (lit ''object''))" and "field sch ''enum'' = None"
    and "field sch ''additionalProperties'' = Some (JBool False)" and "propsOf (field sch ''properties'') = ps"
    and "field sch ''required'' = Some (JArr (map (\<lambda>p. JStr (fst p)) ps))"
  shows "conforms (Suc n) sch v \<longleftrightarrow> (\<exists>kvs. v = JObj kvs \<and> fst ` set kvs \<subseteq> fst ` set ps
    \<and> (\<forall>p \<in> set ps. \<exists>x. map_of kvs (fst p) = Some x \<and> conforms n (snd p) x))"
proof (cases v)
  case (JObj kvs)
  have "requiredFits (Some (JArr (map (\<lambda>p. JStr (fst p)) ps))) kvs \<longleftrightarrow> (\<forall>p \<in> set ps. map_of kvs (fst p) \<noteq> None)"
    by (simp add: requiredFits_def list_all_iff)
  moreover have "noOthers (Some (JBool False)) ps kvs \<longleftrightarrow> fst ` set kvs \<subseteq> fst ` set ps"
    by (auto simp only: noOthers_def list_all_iff map_of_keys)
  moreover have "typeFits (Some (JStr (lit ''object''))) v" "enumFits None v" using JObj by (simp_all add: typeFits_def enumFits_def)
  ultimately have "conforms (Suc n) sch v \<longleftrightarrow> (\<forall>p \<in> set ps. map_of kvs (fst p) \<noteq> None)
      \<and> fst ` set kvs \<subseteq> fst ` set ps
      \<and> (\<forall>p \<in> set ps. case map_of kvs (fst p) of None \<Rightarrow> True | Some x \<Rightarrow> conforms n (snd p) x)"
    using JObj by (simp add: conforms.simps(2) assms list_all_iff)
  moreover have "(\<forall>p \<in> set ps. map_of kvs (fst p) \<noteq> None) \<and> (\<forall>p \<in> set ps. case map_of kvs (fst p) of
      None \<Rightarrow> True | Some x \<Rightarrow> conforms n (snd p) x) \<longleftrightarrow>
    (\<forall>p \<in> set ps. \<exists>x. map_of kvs (fst p) = Some x \<and> conforms n (snd p) x)"
    by (intro iffI conjI ballI; fastforce split: option.splits)
  ultimately show ?thesis using JObj by blast
qed (use assms in \<open>simp_all add: conforms.simps(2) typeFits_def\<close>)

lemmas tools = textTool_def severityTool_def findingTool_def titleTool_def findingsTool_def sectionTool_def
  sectionsTool_def reportToolInputSchema_def toolText_def field_def propsOf_def

lemma conforms_finding: "conforms (Suc (Suc n)) findingTool v \<longleftrightarrow> (\<exists>kvs t a. v = JObj kvs
    \<and> map_of kvs (lit ''text'') = Some (JStr t) \<and> map_of kvs (lit ''severity'') = Some (JStr (apiSeverity_js a))
    \<and> fst ` set kvs \<subseteq> {lit ''text'', lit ''severity''})"
proof -
  have "set API_SEVERITIES = UNIV" using ApiSeverity.exhaust by (auto simp: API_SEVERITIES_def)
  then have "conforms (Suc n) severityTool x \<longleftrightarrow> (\<exists>a. x = JStr (apiSeverity_js a))" for x
    by (subst conforms_string) (auto simp: tools enumFits_def)
  moreover have "conforms (Suc n) textTool x \<longleftrightarrow> (\<exists>t. x = JStr t)" for x
    by (subst conforms_string) (auto simp: tools enumFits_def)
  moreover have "conforms (Suc (Suc n)) findingTool v \<longleftrightarrow> (\<exists>kvs. v = JObj kvs
      \<and> fst ` set kvs \<subseteq> fst ` set [(lit ''text'', textTool), (lit ''severity'', severityTool)]
      \<and> (\<forall>p \<in> set [(lit ''text'', textTool), (lit ''severity'', severityTool)].
          \<exists>x. map_of kvs (fst p) = Some x \<and> conforms (Suc n) (snd p) x))"
    by (rule conforms_object) (simp_all add: findingTool_def toolText_def field_def propsOf_def)
  ultimately show ?thesis by auto
qed

lemma conforms_section: "conforms (Suc (Suc (Suc (Suc n)))) sectionTool v \<longleftrightarrow> (\<exists>kvs t xs. v = JObj kvs
    \<and> map_of kvs (lit ''title'') = Some (JStr t) \<and> map_of kvs (lit ''findings'') = Some (JArr xs)
    \<and> (\<forall>x \<in> set xs. conforms (Suc (Suc n)) findingTool x) \<and> fst ` set kvs \<subseteq> {lit ''title'', lit ''findings''})"
proof -
  have "conforms (Suc (Suc (Suc n))) titleTool x \<longleftrightarrow> (\<exists>t. x = JStr t)" for x
    by (subst conforms_string) (auto simp: tools enumFits_def)
  moreover have "conforms (Suc (Suc (Suc n))) findingsTool x \<longleftrightarrow>
      (\<exists>xs. x = JArr xs \<and> (\<forall>y \<in> set xs. conforms (Suc (Suc n)) findingTool y))" for x
    by (rule conforms_array) (simp_all add: findingsTool_def toolText_def field_def)
  moreover have "conforms (Suc (Suc (Suc (Suc n)))) sectionTool v \<longleftrightarrow> (\<exists>kvs. v = JObj kvs
      \<and> fst ` set kvs \<subseteq> fst ` set [(lit ''title'', titleTool), (lit ''findings'', findingsTool)]
      \<and> (\<forall>p \<in> set [(lit ''title'', titleTool), (lit ''findings'', findingsTool)].
          \<exists>x. map_of kvs (fst p) = Some x \<and> conforms (Suc (Suc (Suc n))) (snd p) x))"
    by (rule conforms_object) (simp_all add: sectionTool_def toolText_def field_def propsOf_def)
  ultimately show ?thesis by auto
qed

lemma conforms_report: "conforms 6 reportToolInputSchema v \<longleftrightarrow> (\<exists>kvs xs. v = JObj kvs
    \<and> map_of kvs (lit ''sections'') = Some (JArr xs) \<and> (\<forall>x \<in> set xs. conforms 4 sectionTool x)
    \<and> fst ` set kvs \<subseteq> {lit ''sections''})"
proof -
  have "conforms (Suc 4) sectionsTool x \<longleftrightarrow> (\<exists>xs. x = JArr xs \<and> (\<forall>y \<in> set xs. conforms 4 sectionTool y))" for x
    by (rule conforms_array) (simp_all add: sectionsTool_def toolText_def field_def)
  moreover have "conforms (Suc (Suc 4)) reportToolInputSchema v \<longleftrightarrow> (\<exists>kvs. v = JObj kvs
      \<and> fst ` set kvs \<subseteq> fst ` set [(lit ''sections'', sectionsTool)]
      \<and> (\<forall>p \<in> set [(lit ''sections'', sectionsTool)]. \<exists>x. map_of kvs (fst p) = Some x \<and> conforms (Suc 4) (snd p) x))"
    by (rule conforms_object) (simp_all add: reportToolInputSchema_def toolText_def field_def propsOf_def)
  ultimately have "conforms (Suc (Suc 4)) reportToolInputSchema v \<longleftrightarrow> (\<exists>kvs. v = JObj kvs \<and> fst ` set kvs \<subseteq> {lit ''sections''}
      \<and> (\<exists>x. map_of kvs (lit ''sections'') = Some x \<and> (\<exists>xs. x = JArr xs \<and> (\<forall>y \<in> set xs. conforms 4 sectionTool y))))"
    by simp
  moreover have "(6 :: nat) = Suc (Suc 4)" by simp
  ultimately show ?thesis by (simp only:) blast
qed

section \<open>Agreement with the zod schema\<close>

text \<open>Issues about a length, and issues about the shape.\<close>

fun boundIssue :: "zod_issue_code \<Rightarrow> bool" where
  "boundIssue (ZTooSmall n) = True"
| "boundIssue (ZTooBigString n) = True"
| "boundIssue (ZTooBigArray n) = True"
| "boundIssue _ = False"

definition boundsOnly :: "zissue list \<times> 'a \<Rightarrow> bool" where
  "boundsOnly r \<longleftrightarrow> list_all (\<lambda>i. boundIssue (snd i)) (fst r)"

lemma boundsOnly_pair [simp]: "boundsOnly (is, a) \<longleftrightarrow> list_all (\<lambda>i. boundIssue (snd i)) is"
  and boundsOnly_fst: "list_all (\<lambda>i. boundIssue (snd i)) (fst r) = boundsOnly r"
  by (simp_all add: boundsOnly_def)

lemma bounds_zTrimmed: "boundsOnly (zTrimmed n path (Some (JStr t)))"
  by (simp add: Let_def)

lemma bounds_zArray:
  assumes "\<And>p x. x \<in> set xs \<Longrightarrow> boundsOnly (item p x)"
  shows "boundsOnly (zArray item n path (Some (JArr xs)))"
proof -
  have "boundsOnly (zItems item path i xs)" for i
    using assms by (induction xs arbitrary: i) (simp_all add: Let_def boundsOnly_fst)
  then show ?thesis by (simp add: Let_def boundsOnly_fst)
qed

lemma bounds_finding: "conforms (Suc (Suc n)) findingTool v \<Longrightarrow> boundsOnly (compiledFindingSchema path v)"
  by (auto simp: conforms_finding Let_def boundsOnly_fst bounds_zTrimmed simp del: zTrimmed.simps)

lemma bounds_section: "conforms (Suc (Suc (Suc (Suc n)))) sectionTool v \<Longrightarrow> boundsOnly (compiledSectionSchema path v)"
  by (auto simp: conforms_section Let_def boundsOnly_fst bounds_zTrimmed intro!: bounds_zArray bounds_finding
      simp del: zTrimmed.simps zArray.simps)

text \<open>
  C32. The tool schema and the zod schema are aligned: an answer that obeys the tool schema the model was given can be
  refused only for a length (an empty or overlong text, too many items), never for its shape; and every report
  within zod's bounds obeys the tool schema. Six levels of nesting cover the schema.
\<close>

theorem tool_schema_aligned:
  "(conforms 6 reportToolInputSchema v \<longrightarrow> (\<forall>i \<in> set (fst (compiledReportSchema v)). boundIssue (snd i)))
   \<and> (validReport ss \<longrightarrow> conforms 6 reportToolInputSchema (encodeReport ss))"
proof (intro conjI impI)
  assume "conforms 6 reportToolInputSchema v"
  then obtain kvs xs where v: "v = JObj kvs" "map_of kvs (lit ''sections'') = Some (JArr xs)"
    and xs: "\<forall>x \<in> set xs. conforms 4 sectionTool x" by (auto simp: conforms_report)
  have "(4 :: nat) = Suc (Suc (Suc (Suc 0)))" by simp
  with xs bounds_section have "boundsOnly (compiledSectionSchema p x)" if "x \<in> set xs" for p x
    using that by metis
  with v bounds_zArray [of xs compiledSectionSchema] have "boundsOnly (compiledReportSchema v)"
    by (simp del: zArray.simps)
  then show "\<forall>i \<in> set (fst (compiledReportSchema v)). boundIssue (snd i)" by (simp add: boundsOnly_def list_all_iff)
next
  assume "validReport ss"
  have f: "conforms (Suc (Suc n)) findingTool (encodeFinding x)" for n x
    by (auto simp: conforms_finding encodeFinding_def mockFinding_def)
  have "conforms (Suc (Suc (Suc (Suc 0)))) sectionTool (encodeSection x)" for x
    by (auto simp: conforms_section f encodeSection_def mockSection_def)
  moreover have "(4 :: nat) = Suc (Suc (Suc (Suc 0)))" by simp
  ultimately have "conforms 4 sectionTool (encodeSection x)" for x by metis
  then show "conforms 6 reportToolInputSchema (encodeReport ss)"
    by (simp add: conforms_report encodeReport_def)
qed

text \<open>An answer with an untitled section obeys the tool schema and is refused for that title only.\<close>

definition untitledAnswer :: json where
  "untitledAnswer = JObj [(lit ''sections'', JArr [JObj [(lit ''title'', JStr []), (lit ''findings'', JArr [])]])]"

lemma untitled_conforms: "conforms 6 reportToolInputSchema untitledAnswer"
proof -
  have "conforms (Suc (Suc (Suc (Suc 0)))) sectionTool (JObj [(lit ''title'', JStr []), (lit ''findings'', JArr [])])"
    by (simp add: conforms_section)
  moreover have "(4 :: nat) = Suc (Suc (Suc (Suc 0)))" by simp
  ultimately show ?thesis by (simp only: conforms_report untitledAnswer_def) simp
qed

theorem tool_schema_aligned_witness:
  "conforms 6 reportToolInputSchema untitledAnswer \<and> fst (compiledReportSchema untitledAnswer) \<noteq> []
   \<and> list_all (\<lambda>i. boundIssue (snd i)) (fst (compiledReportSchema untitledAnswer))
   \<and> conforms 6 reportToolInputSchema (encodeReport sampleCompiled)"
proof -
  have n: "fst (compiledReportSchema untitledAnswer) \<noteq> []" by (simp add: untitledAnswer_def)
  show ?thesis
    using n untitled_conforms tool_schema_aligned [of untitledAnswer sampleCompiled] sampleCompiled_valid
    unfolding list_all_iff by blast
qed

end
