(* ===== verification/Renderer.thy ===== *)
theory Renderer
  imports Report_Html
begin

text \<open>
  The life of Chromium in \<^verbatim>\<open>processing/pdf/pdf-renderer.service.ts\<close>: one browser launched lazily and shared by
  concurrent renderings, a page of its own for each, and the shutdown hook. \<open>Report_Html.render\<close> sees a rendering as one
  outside call; here it is the sequence of awaited calls it is made of, any number of them interleaved, with
  launches that succeed or fail, calls to Chromium that reject, and a Chromium that dies. The theory shows that the
  one call is what every interleaving implements.
\<close>

section \<open>State\<close>

text \<open>
  A promise of \<^verbatim>\<open>getBrowser\<close>, settled by the handlers chained to the launch; a page of a browser, with the document
  loaded into it, whether it is open and whether \<^verbatim>\<open>page.close()\<close> was called.
  Promises, browsers and pages are named by their positions in the lists of all there ever were.
\<close>

datatype launch = Pending | Launched nat | LaunchFailed js

record page =
  pg_browser :: nat
  pg_content :: "js option"
  pg_open :: bool
  pg_closeAsked :: bool

text \<open>
  \<open>browser\<close> and \<open>launching\<close> are the fields of the service and \<open>launches\<close> its promises; \<open>starting\<close> are the launches
  that Chromium has not answered yet, \<open>chromiums\<close> (is it connected?) and \<open>pages\<close> what there is of it; \<open>closing\<close> is
  the browser whose \<^verbatim>\<open>close()\<close> the shutdown hook awaits. Chromium answers a launch once and settles no promise: that
  is what the handlers do.
\<close>

record renderer =
  browser :: "nat option"
  launching :: "nat option"
  launches :: "launch list"
  starting :: "nat list"
  chromiums :: "bool list"
  pages :: "page list"
  closing :: "nat option"

definition newRenderer :: renderer where
  "newRenderer = \<lparr>browser = None, launching = None, launches = [], starting = [], chromiums = [], pages = [],
     closing = None\<rparr>"

text \<open>What a call of \<^verbatim>\<open>render\<close> awaits.\<close>

datatype phase =
    HasBrowser nat
  | AwaitsLaunch nat
  | Loads nat
  | Prints nat
  | Closes nat "js + bytes"
  | Settled "js + bytes"

record rendering =
  rn_view :: ReportView
  rn_phase :: phase

section \<open>Operations\<close>

definition connected :: "renderer \<Rightarrow> nat \<Rightarrow> bool" where
  "connected R b \<longleftrightarrow> b < length (chromiums R) \<and> chromiums R ! b"

definition connectedBrowser :: "renderer \<Rightarrow> nat option" where
  "connectedBrowser R = (case browser R of None \<Rightarrow> None | Some b \<Rightarrow> if connected R b then Some b else None)"

text \<open>\<^verbatim>\<open>getBrowser\<close> up to its result, the browser at hand or the promise of one.\<close>

definition getBrowser :: "renderer \<Rightarrow> phase \<times> renderer" where
  "getBrowser R =
     (case connectedBrowser R of
        Some b \<Rightarrow> (HasBrowser b, R)
      | None \<Rightarrow>
          (case launching R of
             Some p \<Rightarrow> (AwaitsLaunch p, R)
           | None \<Rightarrow> (let p = length (launches R) in
               (AwaitsLaunch p, R\<lparr>launching := Some p, launches := launches R @ [Pending],
                 starting := starting R @ [p]\<rparr>))))"

text \<open>
  Chromium answers the launch \<open>p\<close>, once; the handlers chained to \<^verbatim>\<open>puppeteer.launch\<close> then settle the promise of
  \<^verbatim>\<open>getBrowser\<close>.
\<close>

definition answered :: "nat \<Rightarrow> renderer \<Rightarrow> renderer" where
  "answered p R = R\<lparr>starting := removeAll p (starting R)\<rparr>"

definition launchThen :: "nat \<Rightarrow> renderer \<Rightarrow> renderer" where
  "launchThen p R =
     (let b = length (chromiums R) in
      R\<lparr>chromiums := chromiums R @ [True], browser := Some b, launching := None,
        launches := (launches R)[p := Launched b]\<rparr>)"

definition launchCatch :: "nat \<Rightarrow> js \<Rightarrow> renderer \<Rightarrow> renderer" where
  "launchCatch p m R = R\<lparr>launching := None, launches := (launches R)[p := LaunchFailed m]\<rparr>"

text \<open>The calls of \<^verbatim>\<open>render\<close> to Chromium when they succeed.\<close>

definition newPage :: "nat \<Rightarrow> renderer \<Rightarrow> phase \<times> renderer" where
  "newPage b R =
     (Loads (length (pages R)),
      R\<lparr>pages := pages R @ [\<lparr>pg_browser = b, pg_content = None, pg_open = True, pg_closeAsked = False\<rparr>]\<rparr>)"

definition setContent :: "nat \<Rightarrow> js \<Rightarrow> renderer \<Rightarrow> renderer" where
  "setContent g html R = R\<lparr>pages := (pages R)[g := (pages R ! g)\<lparr>pg_content := Some html\<rparr>]\<rparr>"

definition closePage :: "nat \<Rightarrow> renderer \<Rightarrow> renderer" where
  "closePage g R = R\<lparr>pages := (pages R)[g := (pages R ! g)\<lparr>pg_open := False, pg_closeAsked := True\<rparr>]\<rparr>"

text \<open>\<^verbatim>\<open>page.close()\<close> was called and rejected.\<close>

definition askClose :: "nat \<Rightarrow> renderer \<Rightarrow> renderer" where
  "askClose g R = R\<lparr>pages := (pages R)[g := (pages R ! g)\<lparr>pg_closeAsked := True\<rparr>]\<rparr>"

text \<open>
  \<^verbatim>\<open>onModuleDestroy\<close> up to its \<^verbatim>\<open>await\<close>, and after it: \<open>gone\<close> says whether \<^verbatim>\<open>close()\<close> succeeded (a rejection is
  swallowed).
\<close>

definition onModuleDestroy :: "renderer \<Rightarrow> renderer" where
  "onModuleDestroy R = R\<lparr>closing := browser R\<rparr>"

definition destroyDone :: "nat \<Rightarrow> bool \<Rightarrow> renderer \<Rightarrow> renderer" where
  "destroyDone b gone R =
     R\<lparr>chromiums := (if gone then (chromiums R)[b := False] else chromiums R), browser := None, closing := None\<rparr>"

section \<open>Interleavings\<close>

text \<open>
  A call to a page answers while the page is open and its browser connected, and may reject at any time.
  A launch answers once, as long as it is under way. \<open>down\<close> says whether the process may be shut down.
\<close>

definition alive :: "renderer \<Rightarrow> nat \<Rightarrow> bool" where
  "alive R g \<longleftrightarrow> g < length (pages R) \<and> pg_open (pages R ! g) \<and> connected R (pg_browser (pages R ! g))"

abbreviation goto :: "rendering list \<Rightarrow> nat \<Rightarrow> phase \<Rightarrow> rendering list" where
  "goto rs i ph \<equiv> rs[i := (rs ! i)\<lparr>rn_phase := ph\<rparr>]"

inductive rstep :: "app \<Rightarrow> bool \<Rightarrow> renderer \<times> rendering list \<Rightarrow> renderer \<times> rendering list \<Rightarrow> bool"
  for A :: app and down :: bool where
  call: "getBrowser R = (ph, R') \<Longrightarrow>
    rstep A down (R, rs) (R', rs @ [\<lparr>rn_view = v, rn_phase = ph\<rparr>])"
| launch_ok: "p \<in> set (starting R) \<Longrightarrow> rstep A down (R, rs) (launchThen p (answered p R), rs)"
| launch_fails: "p \<in> set (starting R) \<Longrightarrow> rstep A down (R, rs) (launchCatch p m (answered p R), rs)"
| got_browser: "i < length rs \<Longrightarrow> rn_phase (rs ! i) = AwaitsLaunch p \<Longrightarrow> p < length (launches R) \<Longrightarrow>
    launches R ! p = Launched b \<Longrightarrow> rstep A down (R, rs) (R, goto rs i (HasBrowser b))"
| got_none: "i < length rs \<Longrightarrow> rn_phase (rs ! i) = AwaitsLaunch p \<Longrightarrow> p < length (launches R) \<Longrightarrow>
    launches R ! p = LaunchFailed m \<Longrightarrow> rstep A down (R, rs) (R, goto rs i (Settled (Inl m)))"
| page_ok: "i < length rs \<Longrightarrow> rn_phase (rs ! i) = HasBrowser b \<Longrightarrow> connected R b \<Longrightarrow>
    newPage b R = (ph, R') \<Longrightarrow> rstep A down (R, rs) (R', goto rs i ph)"
| page_fails: "i < length rs \<Longrightarrow> rn_phase (rs ! i) = HasBrowser b \<Longrightarrow>
    rstep A down (R, rs) (R, goto rs i (Settled (Inl m)))"
| load_ok: "i < length rs \<Longrightarrow> rn_phase (rs ! i) = Loads g \<Longrightarrow> alive R g \<Longrightarrow>
    rstep A down (R, rs) (setContent g (buildReportHtml (rn_view (rs ! i))) R, goto rs i (Prints g))"
| load_fails: "i < length rs \<Longrightarrow> rn_phase (rs ! i) = Loads g \<Longrightarrow>
    rstep A down (R, rs) (R, goto rs i (Closes g (Inl m)))"
| print_ok: "i < length rs \<Longrightarrow> rn_phase (rs ! i) = Prints g \<Longrightarrow> alive R g \<Longrightarrow>
    pg_content (pages R ! g) = Some html \<Longrightarrow> chromiumPdf A n html = Inr pdf \<Longrightarrow>
    rstep A down (R, rs) (R, goto rs i (Closes g (Inr pdf)))"
| print_fails: "i < length rs \<Longrightarrow> rn_phase (rs ! i) = Prints g \<Longrightarrow>
    rstep A down (R, rs) (R, goto rs i (Closes g (Inl m)))"
| close_ok: "i < length rs \<Longrightarrow> rn_phase (rs ! i) = Closes g r \<Longrightarrow>
    rstep A down (R, rs) (closePage g R, goto rs i (Settled r))"
| close_fails: "i < length rs \<Longrightarrow> rn_phase (rs ! i) = Closes g r \<Longrightarrow>
    rstep A down (R, rs) (askClose g R, goto rs i (Settled (Inl m)))"
| dies: "rstep A down (R, rs) (R\<lparr>chromiums := (chromiums R)[b := False]\<rparr>, rs)"
| destroy: "down \<Longrightarrow> rstep A down (R, rs) (onModuleDestroy R, rs)"
| destroyed: "closing R = Some b \<Longrightarrow> rstep A down (R, rs) (destroyDone b gone R, rs)"

inductive rreachable :: "app \<Rightarrow> bool \<Rightarrow> renderer \<times> rendering list \<Rightarrow> bool" for A :: app and down :: bool where
  init: "rreachable A down (newRenderer, [])"
| step: "rreachable A down s \<Longrightarrow> rstep A down s s' \<Longrightarrow> rreachable A down s'"

section \<open>What holds in every state\<close>

fun heldPage :: "phase \<Rightarrow> nat option" where
  "heldPage (Loads g) = Some g"
| "heldPage (Prints g) = Some g"
| "heldPage (Closes g r) = Some g"
| "heldPage _ = None"

text \<open>The bytes that printing the document of a view can give.\<close>

definition printed :: "app \<Rightarrow> ReportView \<Rightarrow> js + bytes \<Rightarrow> bool" where
  "printed A v r \<longleftrightarrow> (\<forall>pdf. r = Inr pdf \<longrightarrow> (\<exists>n. chromiumPdf A n (buildReportHtml v) = Inr pdf))"

text \<open>A rendering refers to things that exist, its page holds its own document, its bytes are printed from it.\<close>

fun phaseOk :: "app \<Rightarrow> renderer \<Rightarrow> ReportView \<Rightarrow> phase \<Rightarrow> bool" where
  "phaseOk A R v (HasBrowser b) \<longleftrightarrow> b < length (chromiums R)"
| "phaseOk A R v (AwaitsLaunch p) \<longleftrightarrow> p < length (launches R)"
| "phaseOk A R v (Loads g) \<longleftrightarrow> g < length (pages R)"
| "phaseOk A R v (Prints g) \<longleftrightarrow> g < length (pages R) \<and> pg_content (pages R ! g) = Some (buildReportHtml v)"
| "phaseOk A R v (Closes g r) \<longleftrightarrow> g < length (pages R) \<and> printed A v r"
| "phaseOk A R v (Settled r) \<longleftrightarrow> printed A v r"

text \<open>
  A promise is pending exactly while its launch is under way and \<open>launching\<close> names it, so at most one is.
\<close>

definition launchesOk :: "renderer \<Rightarrow> bool" where
  "launchesOk R \<longleftrightarrow>
     starting R = (case launching R of None \<Rightarrow> [] | Some p \<Rightarrow> [p])
     \<and> (\<forall>p < length (launches R). launches R ! p = Pending \<longleftrightarrow> launching R = Some p)
     \<and> (\<forall>p. launching R = Some p \<longrightarrow> p < length (launches R))
     \<and> (\<forall>p < length (launches R). \<forall>b. launches R ! p = Launched b \<longrightarrow> b < length (chromiums R))
     \<and> (\<forall>b. browser R = Some b \<longrightarrow> b < length (chromiums R))"

definition pagesApart :: "rendering list \<Rightarrow> bool" where
  "pagesApart rs \<longleftrightarrow> (\<forall>i < length rs. \<forall>j < length rs. \<forall>g.
     heldPage (rn_phase (rs ! i)) = Some g \<longrightarrow> heldPage (rn_phase (rs ! j)) = Some g \<longrightarrow> i = j)"

definition renderingsOk :: "app \<Rightarrow> renderer \<Rightarrow> rendering list \<Rightarrow> bool" where
  "renderingsOk A R rs \<longleftrightarrow> (\<forall>i < length rs. phaseOk A R (rn_view (rs ! i)) (rn_phase (rs ! i)))"

definition rinv :: "app \<Rightarrow> renderer \<times> rendering list \<Rightarrow> bool" where
  "rinv A s \<longleftrightarrow> (case s of (R, rs) \<Rightarrow> launchesOk R \<and> renderingsOk A R rs \<and> pagesApart rs)"

lemmas renderer_ops = getBrowser_def connectedBrowser_def connected_def launchThen_def launchCatch_def newPage_def
  setContent_def closePage_def askClose_def answered_def onModuleDestroy_def destroyDone_def

text \<open>A rendering stays well-formed when the lists grow and its page keeps its document.\<close>

lemma phaseOk_later:
  assumes "phaseOk A R v ph"
    and "length (chromiums R) \<le> length (chromiums R')" and "length (launches R) \<le> length (launches R')"
    and "length (pages R) \<le> length (pages R')"
    and "\<And>g. heldPage ph = Some g \<Longrightarrow> g < length (pages R) \<Longrightarrow> pg_content (pages R' ! g) = pg_content (pages R ! g)"
  shows "phaseOk A R' v ph"
  using assms by (cases ph) auto

lemma renderingsOk_later:
  assumes "renderingsOk A R rs"
    and "length (chromiums R) \<le> length (chromiums R')" and "length (launches R) \<le> length (launches R')"
    and "length (pages R) \<le> length (pages R')"
    and "\<And>g. g < length (pages R) \<Longrightarrow> pg_content (pages R' ! g) = pg_content (pages R ! g)"
  shows "renderingsOk A R' rs"
  using assms phaseOk_later unfolding renderingsOk_def by meson

text \<open>One rendering moves on, the others keep their pages.\<close>

lemma renderingsOk_goto:
  assumes "renderingsOk A R' rs" and "phaseOk A R' (rn_view (rs ! i)) ph"
  shows "renderingsOk A R' (goto rs i ph)"
  unfolding renderingsOk_def
proof (intro allI impI)
  fix j assume "j < length (goto rs i ph)"
  with assms show "phaseOk A R' (rn_view (goto rs i ph ! j)) (rn_phase (goto rs i ph ! j))"
    by (cases "j = i") (auto simp: renderingsOk_def nth_list_update)
qed

lemma pagesApartD:
  "pagesApart rs \<Longrightarrow> i < length rs \<Longrightarrow> j < length rs \<Longrightarrow> heldPage (rn_phase (rs ! i)) = Some g \<Longrightarrow>
    heldPage (rn_phase (rs ! j)) = Some g \<Longrightarrow> i = j"
  unfolding pagesApart_def by blast

lemma pagesApart_goto:
  assumes "pagesApart rs" and "i < length rs" and "heldPage ph = None \<or> heldPage ph = heldPage (rn_phase (rs ! i))"
  shows "pagesApart (goto rs i ph)"
  unfolding pagesApart_def
proof (intro allI impI)
  fix j k g
  have held: "heldPage (rn_phase (rs ! l)) = Some g" if "heldPage (rn_phase (goto rs i ph ! l)) = Some g"
    "l < length rs" for l
    using that assms(3) by (cases "l = i") (auto simp: nth_list_update)
  assume "j < length (goto rs i ph)" "k < length (goto rs i ph)" "heldPage (rn_phase (goto rs i ph ! j)) = Some g"
    "heldPage (rn_phase (goto rs i ph ! k)) = Some g"
  with held show "j = k" by (intro pagesApartD [OF assms(1)]) simp_all
qed

text \<open>A new rendering, or one that gets a new page.\<close>

lemma pagesApart_add:
  assumes "pagesApart rs" and "heldPage (rn_phase r) = None"
  shows "pagesApart (rs @ [r])"
  using assms unfolding pagesApart_def by (auto simp: nth_append less_Suc_eq)

lemma pagesApart_new:
  assumes "pagesApart rs" and "renderingsOk A R rs"
  shows "pagesApart (goto rs i (Loads (length (pages R))))"
  unfolding pagesApart_def
proof (intro allI impI)
  fix j k g
  assume j: "j < length (goto rs i (Loads (length (pages R))))" and k: "k < length (goto rs i (Loads (length (pages R))))"
    and g: "heldPage (rn_phase (goto rs i (Loads (length (pages R))) ! j)) = Some g"
      "heldPage (rn_phase (goto rs i (Loads (length (pages R))) ! k)) = Some g"
  have old: "h < length (pages R)" if "l < length rs" "heldPage (rn_phase (rs ! l)) = Some h" for l h
    using assms(2) that unfolding renderingsOk_def by (cases "rn_phase (rs ! l)") fastforce+
  show "j = k"
    using j k g old [of j g] old [of k g] pagesApartD [OF assms(1), of j k g]
    by (cases "j = i"; cases "k = i") (auto simp: nth_list_update)
qed

lemma renderingsOk_held:
  assumes "renderingsOk A R rs" and "pagesApart rs" and "i < length rs" and "heldPage (rn_phase (rs ! i)) = Some g"
    and "length (chromiums R') = length (chromiums R)" and "length (launches R') = length (launches R)"
    and "length (pages R') = length (pages R)"
    and "\<And>k. k \<noteq> g \<Longrightarrow> pages R' ! k = pages R ! k"
    and "phaseOk A R' (rn_view (rs ! i)) ph"
  shows "renderingsOk A R' (goto rs i ph)"
  unfolding renderingsOk_def
proof (intro allI impI)
  fix j assume j: "j < length (goto rs i ph)"
  show "phaseOk A R' (rn_view (goto rs i ph ! j)) (rn_phase (goto rs i ph ! j))"
  proof (cases "j = i")
    case False
    with assms(2,3,4) j have "heldPage (rn_phase (rs ! j)) \<noteq> Some g" unfolding pagesApart_def by fastforce
    with assms j False show ?thesis unfolding renderingsOk_def
      by (auto simp: nth_list_update intro!: phaseOk_later [of A R _ _ R'])
  qed (use assms in simp)
qed

subsection \<open>Preservation\<close>

lemma launchesOk_getBrowser: "launchesOk R \<Longrightarrow> launchesOk (snd (getBrowser R))"
  by (auto simp: getBrowser_def launchesOk_def Let_def nth_append less_Suc_eq split: option.split)

lemma phaseOk_getBrowser: "launchesOk R \<Longrightarrow> phaseOk A (snd (getBrowser R)) v (fst (getBrowser R))"
  by (auto simp: getBrowser_def launchesOk_def connectedBrowser_def Let_def split: option.split if_splits)

lemma getBrowser_grows:
  "length (chromiums (snd (getBrowser R))) = length (chromiums R)"
  "length (launches R) \<le> length (launches (snd (getBrowser R)))" "pages (snd (getBrowser R)) = pages R"
  "heldPage (fst (getBrowser R)) = None"
  by (simp_all add: getBrowser_def Let_def split: option.split)

lemma starting_pending:
  assumes "launchesOk R" and "p \<in> set (starting R)"
  shows "launching R = Some p \<and> p < length (launches R) \<and> launches R ! p = Pending \<and> starting (answered p R) = []"
proof -
  from assms have "launching R = Some p" by (auto simp: launchesOk_def split: option.splits)
  with assms(1) show ?thesis by (auto simp: launchesOk_def answered_def)
qed

lemma launchesOk_launchThen:
  assumes "launchesOk R" and "p \<in> set (starting R)"
  shows "launchesOk (launchThen p (answered p R))"
  using assms starting_pending [OF assms]
  by (auto simp: launchesOk_def launchThen_def answered_def Let_def nth_list_update less_Suc_eq split: if_splits)

lemma launchesOk_launchCatch:
  assumes "launchesOk R" and "p \<in> set (starting R)"
  shows "launchesOk (launchCatch p m (answered p R))"
  using assms starting_pending [OF assms]
  by (auto simp: launchesOk_def launchCatch_def answered_def nth_list_update)

lemma launchesOk_same:
  "launchesOk R \<Longrightarrow> launches R' = launches R \<Longrightarrow> launching R' = launching R \<Longrightarrow> starting R' = starting R \<Longrightarrow>
    length (chromiums R') = length (chromiums R) \<Longrightarrow> browser R' = browser R \<or> browser R' = None \<Longrightarrow> launchesOk R'"
  by (auto simp: launchesOk_def)

lemma phase_of:
  "rinv A (R, rs) \<Longrightarrow> i < length rs \<Longrightarrow> rn_phase (rs ! i) = ph \<Longrightarrow> phaseOk A R (rn_view (rs ! i)) ph"
  by (auto simp: rinv_def renderingsOk_def)

lemma rinv_new: "rinv A (newRenderer, [])"
  by (simp add: rinv_def newRenderer_def launchesOk_def renderingsOk_def pagesApart_def)

text \<open>One rendering moves on; its page may get new content or be closed; a change of the browsers alone.\<close>

lemma rinv_goto:
  assumes "rinv A (R, rs)" and "i < length rs" and "phaseOk A R (rn_view (rs ! i)) ph"
    and "heldPage ph = None \<or> heldPage ph = heldPage (rn_phase (rs ! i))"
  shows "rinv A (R, goto rs i ph)"
  using assms by (auto simp: rinv_def intro!: renderingsOk_goto pagesApart_goto)

lemma rinv_held:
  assumes "rinv A (R, rs)" and "i < length rs" and "heldPage (rn_phase (rs ! i)) = Some g"
    and "chromiums R' = chromiums R" "launches R' = launches R" "launching R' = launching R" "starting R' = starting R"
    and "browser R' = browser R"
    and "length (pages R') = length (pages R)" and "\<And>k. k \<noteq> g \<Longrightarrow> pages R' ! k = pages R ! k"
    and "phaseOk A R' (rn_view (rs ! i)) ph" and "heldPage ph = None \<or> heldPage ph = Some g"
  shows "rinv A (R', goto rs i ph)"
proof -
  have "renderingsOk A R' (goto rs i ph)"
    by (rule renderingsOk_held [of A R rs i g]) (use assms in \<open>simp_all add: rinv_def\<close>)
  moreover have "launchesOk R'" by (rule launchesOk_same [of R]) (use assms in \<open>simp_all add: rinv_def\<close>)
  ultimately show ?thesis using assms by (auto simp: rinv_def intro: pagesApart_goto)
qed

lemma rinv_later:
  assumes "rinv A (R, rs)" and "launchesOk R'" and "length (chromiums R) \<le> length (chromiums R')"
    and "length (launches R) \<le> length (launches R')" and "length (pages R) \<le> length (pages R')"
    and "\<And>g. g < length (pages R) \<Longrightarrow> pg_content (pages R' ! g) = pg_content (pages R ! g)"
  shows "rinv A (R', rs)"
  using assms renderingsOk_later [of A R rs R'] by (simp add: rinv_def)

lemma rinv_browsers:
  assumes "rinv A (R, rs)" and "launches R' = launches R" and "launching R' = launching R" and "starting R' = starting R"
    and "pages R' = pages R"
    and "length (chromiums R') = length (chromiums R)" and "browser R' = browser R \<or> browser R' = None"
  shows "rinv A (R', rs)"
proof (rule rinv_later [OF assms(1)])
  show "launchesOk R'" by (rule launchesOk_same [of R]) (use assms in \<open>simp_all add: rinv_def\<close>)
qed (simp_all add: assms)

lemma rinv_call:
  assumes "rinv A (R, rs)" and "getBrowser R = (ph, R')"
  shows "rinv A (R', rs @ [\<lparr>rn_view = v, rn_phase = ph\<rparr>])"
proof -
  from assms(2) have g: "snd (getBrowser R) = R'" "fst (getBrowser R) = ph" by simp_all
  with assms have "renderingsOk A R' rs" using getBrowser_grows [of R]
    by (auto simp: rinv_def intro: renderingsOk_later)
  with assms g phaseOk_getBrowser [of R A v] have "renderingsOk A R' (rs @ [\<lparr>rn_view = v, rn_phase = ph\<rparr>])"
    by (auto simp: rinv_def renderingsOk_def nth_append less_Suc_eq)
  with assms g getBrowser_grows [of R] launchesOk_getBrowser [of R] show ?thesis
    by (auto simp: rinv_def intro: pagesApart_add)
qed

lemma rinv_newPage:
  assumes "rinv A (R, rs)" and "newPage b R = (ph, R')"
  shows "rinv A (R', goto rs i ph)"
proof -
  have "renderingsOk A R' rs" if "renderingsOk A R rs"
    by (rule renderingsOk_later [OF that]) (use assms(2) in \<open>auto simp: newPage_def nth_append\<close>)
  moreover have "launchesOk R'" if "launchesOk R"
    by (rule launchesOk_same [OF that]) (use assms(2) in \<open>auto simp: newPage_def\<close>)
  ultimately show ?thesis using assms
    by (auto simp: rinv_def newPage_def intro!: pagesApart_new renderingsOk_goto)
qed

lemma rinv_step:
  assumes "rstep A down s s'" and "rinv A s"
  shows "rinv A s'"
  using assms
proof (induction rule: rstep.induct)
  case (launch_ok p R rs)
  then have "launchesOk (launchThen p (answered p R))" by (intro launchesOk_launchThen) (simp_all add: rinv_def)
  with launch_ok(2) show ?case by (rule rinv_later) (simp_all add: launchThen_def answered_def Let_def)
next
  case (launch_fails p R rs m)
  then have "launchesOk (launchCatch p m (answered p R))" by (intro launchesOk_launchCatch) (simp_all add: rinv_def)
  with launch_fails(2) show ?case by (rule rinv_later) (simp_all add: launchCatch_def answered_def)
next
  case (got_browser i rs p R b)
  then have "b < length (chromiums R)" by (simp add: rinv_def launchesOk_def)
  with got_browser show ?case by (intro rinv_goto) simp_all
next
  case (load_ok i rs g R)
  with phase_of [OF load_ok(4,1,2)] show ?case
    by (intro rinv_held [of A R rs i g]) (auto simp: setContent_def alive_def)
next
  case (close_ok i rs g r R)
  with phase_of [OF close_ok(3,1,2)] show ?case
    by (intro rinv_held [of A R rs i g]) (simp_all add: closePage_def)
next
  case (close_fails i rs g r R m)
  with phase_of [OF close_fails(3,1,2)] show ?case
    by (intro rinv_held [of A R rs i g]) (simp_all add: askClose_def printed_def)
next
  case (print_ok i rs g R html n pdf)
  with phase_of [OF print_ok(6,1,2)] show ?case by (intro rinv_goto) (auto simp: printed_def)
next
  case (load_fails i rs g R m)
  with phase_of [OF load_fails(3,1,2)] show ?case by (intro rinv_goto) (simp_all add: printed_def)
next
  case (print_fails i rs g R m)
  with phase_of [OF print_fails(3,1,2)] show ?case by (intro rinv_goto) (simp_all add: printed_def)
next
  case (dies R rs b)
  show ?case by (rule rinv_browsers [of A R rs]) (use dies in simp_all)
next
  case (destroy R rs)
  show ?case by (rule rinv_browsers [of A R rs]) (use destroy in \<open>simp_all add: onModuleDestroy_def split: option.split\<close>)
next
  case (destroyed R b rs gone)
  show ?case by (rule rinv_browsers [of A R rs]) (use destroyed in \<open>simp_all add: destroyDone_def\<close>)
next
  case (page_ok i rs b R ph R')
  then show ?case by (blast intro: rinv_newPage)
qed (simp_all add: rinv_call rinv_goto printed_def)

lemma rinv_reachable: "rreachable A down s \<Longrightarrow> rinv A s"
  by (induction rule: rreachable.induct) (blast intro: rinv_new rinv_step)+

lemma rreachable_steps: "(rstep A down)\<^sup>*\<^sup>* s s' \<Longrightarrow> rreachable A down s \<Longrightarrow> rreachable A down s'"
  by (induction rule: rtranclp_induct) (blast intro: rreachable.step)+

section \<open>One browser\<close>

text \<open>Until a shutdown: at most one connected browser, the one at hand, and none while one is being launched.\<close>

definition oneBrowser :: "renderer \<Rightarrow> bool" where
  "oneBrowser R \<longleftrightarrow> closing R = None \<and> (\<forall>b. connected R b \<longrightarrow> browser R = Some b)
     \<and> (launching R \<noteq> None \<longrightarrow> (\<forall>b. \<not> connected R b))"

lemma oneBrowser_getBrowser: "oneBrowser R \<Longrightarrow> oneBrowser (snd (getBrowser R))"
  by (auto simp: oneBrowser_def getBrowser_def connectedBrowser_def connected_def Let_def split: option.split if_splits)

lemma oneBrowser_launchThen:
  assumes "launchesOk R" and "oneBrowser R" and "p \<in> set (starting R)"
  shows "oneBrowser (launchThen p (answered p R))"
proof -
  have "launching R = Some p" using starting_pending [OF assms(1,3)] by blast
  with assms(2) have none: "\<not> connected R b" for b by (simp add: oneBrowser_def)
  have "length (chromiums R) = b" if "connected (launchThen p (answered p R)) b" for b
    using that none [of b] by (simp add: connected_def launchThen_def answered_def Let_def nth_append less_Suc_eq split: if_splits)
  with assms(2) show ?thesis by (simp add: oneBrowser_def launchThen_def answered_def Let_def)
qed

lemma oneBrowser_same:
  "oneBrowser R \<Longrightarrow> closing R' = closing R \<Longrightarrow> browser R' = browser R \<Longrightarrow>
    launching R' = launching R \<or> launching R' = None \<Longrightarrow> (\<And>b. connected R' b \<Longrightarrow> connected R b) \<Longrightarrow> oneBrowser R'"
  unfolding oneBrowser_def by (metis option.distinct(1))

lemma oneBrowser_step:
  assumes "rstep A down s s'" and "\<not> down" and "rinv A s" and "oneBrowser (fst s)"
  shows "oneBrowser (fst s')"
  using assms
proof (induction rule: rstep.induct)
  case (call R ph R' rs v)
  with oneBrowser_getBrowser [of R] show ?case by simp
next
  case (launch_ok p R rs)
  then show ?case by (auto simp: rinv_def intro: oneBrowser_launchThen)
next
  case (destroyed R b rs gone)
  then show ?case by (simp add: oneBrowser_def)
next
  case (dies R rs b)
  have "connected R c" if "connected (R\<lparr>chromiums := (chromiums R)[b := False]\<rparr>) c" for c
    using that by (cases "c = b") (auto simp: connected_def)
  with dies show ?case by (auto intro: oneBrowser_same)
qed (auto simp: newPage_def setContent_def closePage_def askClose_def launchCatch_def answered_def connected_def intro: oneBrowser_same)

lemma oneBrowser_reachable: "rreachable A False s \<Longrightarrow> oneBrowser (fst s)"
proof (induction rule: rreachable.induct)
  case init
  show ?case by (simp add: newRenderer_def oneBrowser_def connected_def)
next
  case (step s s')
  then show ?case using oneBrowser_step rinv_reachable by blast
qed

section \<open>Pages are closed\<close>

text \<open>
  A page that is still open is held by a rendering under way, or \<^verbatim>\<open>page.close()\<close> was called and rejected: no rendering
  leaves its page without having tried to close it.
\<close>

definition unclosed :: "renderer \<Rightarrow> nat \<Rightarrow> bool" where
  "unclosed R g \<longleftrightarrow> g < length (pages R) \<and> pg_open (pages R ! g) \<and> \<not> pg_closeAsked (pages R ! g)"

definition pagesHeld :: "renderer \<Rightarrow> rendering list \<Rightarrow> bool" where
  "pagesHeld R rs \<longleftrightarrow> (\<forall>g. unclosed R g \<longrightarrow> (\<exists>i < length rs. heldPage (rn_phase (rs ! i)) = Some g))"

lemma pagesHeld_add: "pagesHeld R rs \<Longrightarrow> (\<And>g. unclosed R' g \<Longrightarrow> unclosed R g) \<Longrightarrow> pagesHeld R' (rs @ [r])"
  unfolding pagesHeld_def by (metis nth_append length_append_singleton less_Suc_eq)

text \<open>A rendering moves on and keeps its page, or its page is no longer in question.\<close>

lemma pagesHeld_goto:
  assumes "pagesHeld R rs" and "\<And>g. unclosed R' g \<Longrightarrow> unclosed R g"
    and "\<And>g. heldPage (rn_phase (rs ! i)) = Some g \<Longrightarrow> unclosed R' g \<Longrightarrow> heldPage ph = Some g"
  shows "pagesHeld R' (goto rs i ph)"
  unfolding pagesHeld_def
proof (intro allI impI)
  fix g assume g: "unclosed R' g"
  with assms(1,2) obtain j where j: "j < length rs" "heldPage (rn_phase (rs ! j)) = Some g"
    unfolding pagesHeld_def by blast
  show "\<exists>j < length (goto rs i ph). heldPage (rn_phase (goto rs i ph ! j)) = Some g"
    by (rule exI [of _ j]) (use assms(3) g j in \<open>cases "j = i"; simp\<close>)
qed

lemma unclosed_same: "pages R' = pages R \<Longrightarrow> unclosed R' g = unclosed R g"
  by (simp add: unclosed_def)

lemma update_at: "g < length xs \<Longrightarrow> xs[h := y] ! g = (if h = g then y else xs ! g)"
  by (cases "h = g") simp_all

lemma unclosed_setContent: "unclosed (setContent h html R) g \<Longrightarrow> unclosed R g"
  unfolding unclosed_def setContent_def by (auto simp: update_at split: if_splits)

lemma unclosed_close: "unclosed (closePage h R) g \<Longrightarrow> unclosed R g \<and> g \<noteq> h"
  "unclosed (askClose h R) g \<Longrightarrow> unclosed R g \<and> g \<noteq> h"
  unfolding unclosed_def closePage_def askClose_def by (auto simp: update_at split: if_splits)

lemma pagesHeld_same: "pagesHeld R rs \<Longrightarrow> pages R' = pages R \<Longrightarrow> pagesHeld R' rs"
  by (simp add: pagesHeld_def unclosed_def)

lemma pagesHeld_step:
  assumes "rstep A down s s'" and "pagesHeld (fst s) (snd s)"
  shows "pagesHeld (fst s') (snd s')"
  using assms
proof (induction rule: rstep.induct)
  case (call R ph R' rs v)
  then have "pages R' = pages R" using getBrowser_grows(3) [of R] by simp
  then have "unclosed R' g = unclosed R g" for g by (rule unclosed_same)
  with call(2) show ?case unfolding fst_conv snd_conv using pagesHeld_add [of R rs R'] by blast
next
  case (page_ok i rs b R ph R')
  let ?g = "length (pages R)"
  have held: "pagesHeld R (goto rs i (Loads ?g))" by (rule pagesHeld_goto) (use page_ok in auto)
  have new: "unclosed R' g \<Longrightarrow> unclosed R g \<or> g = ?g" for g
    using page_ok(4) by (auto simp: newPage_def unclosed_def nth_append less_Suc_eq)
  have "heldPage (rn_phase (goto rs i (Loads ?g) ! i)) = Some ?g" using page_ok(1) by simp
  with held new page_ok(1) have "pagesHeld R' (goto rs i (Loads ?g))" unfolding pagesHeld_def
    by (metis length_list_update)
  with page_ok(4) show ?case by (simp add: newPage_def)
next
  case (load_ok i rs g R)
  show ?case unfolding fst_conv snd_conv
    by (rule pagesHeld_goto [of R]) (use load_ok unclosed_setContent in auto)
next
  case (close_ok i rs g r R)
  show ?case unfolding fst_conv snd_conv
    by (rule pagesHeld_goto [of R]) (use close_ok unclosed_close(1) in auto)
next
  case (close_fails i rs g r R m)
  show ?case unfolding fst_conv snd_conv
    by (rule pagesHeld_goto [of R]) (use close_fails unclosed_close(2) in auto)
qed (auto intro!: pagesHeld_goto intro: pagesHeld_same
    simp: launchThen_def launchCatch_def answered_def onModuleDestroy_def destroyDone_def Let_def)

lemma pagesHeld_reachable: "rreachable A down s \<Longrightarrow> pagesHeld (fst s) (snd s)"
proof (induction rule: rreachable.induct)
  case init
  show ?case by (simp add: newRenderer_def pagesHeld_def unclosed_def)
next
  case (step s s')
  then show ?case using pagesHeld_step by blast
qed

lemma oneBrowser_before: "rreachable A down s \<Longrightarrow> \<not> down \<Longrightarrow> oneBrowser (fst s)"
  using oneBrowser_reachable [of A s] by (cases down) simp_all

text \<open>
  C18. One Chromium, a page for each rendering. In every interleaving of renderings, launches, crashes and shutdowns:
  at most one launch is pending; two renderings never hold the same page; and a page that is open, without its
  closing having been tried, is held by a rendering under way, so whatever fails, a rendering tries to close its page
  before it ends. In every interleaving without a shutdown, at most one browser is connected, and none while one is
  being launched.
\<close>

theorem one_browser_own_pages:
  assumes "rreachable A down (R, rs)"
  shows "(\<forall>p q. p < length (launches R) \<and> q < length (launches R) \<and> launches R ! p = Pending \<and> launches R ! q = Pending
      \<longrightarrow> p = q)
    \<and> (\<forall>i j g. i < length rs \<and> j < length rs \<and> heldPage (rn_phase (rs ! i)) = Some g
        \<and> heldPage (rn_phase (rs ! j)) = Some g \<longrightarrow> i = j)
    \<and> (\<forall>g < length (pages R). pg_open (pages R ! g) \<and> \<not> pg_closeAsked (pages R ! g) \<longrightarrow>
        (\<exists>i < length rs. heldPage (rn_phase (rs ! i)) = Some g))
    \<and> (\<not> down \<longrightarrow> (\<forall>b c. connected R b \<and> connected R c \<longrightarrow> b = c)
        \<and> (launching R \<noteq> None \<longrightarrow> (\<forall>b. \<not> connected R b)))"
proof (intro conjI impI)
  have r: "launchesOk R" "pagesApart rs" using rinv_reachable [OF assms] by (simp_all add: rinv_def)
  have h: "pagesHeld R rs" using pagesHeld_reachable [OF assms] by simp
  show "\<forall>p q. p < length (launches R) \<and> q < length (launches R) \<and> launches R ! p = Pending \<and> launches R ! q = Pending
      \<longrightarrow> p = q"
    using r(1) unfolding launchesOk_def by (metis option.inject)
  show "\<forall>i j g. i < length rs \<and> j < length rs \<and> heldPage (rn_phase (rs ! i)) = Some g
        \<and> heldPage (rn_phase (rs ! j)) = Some g \<longrightarrow> i = j" using pagesApartD [OF r(2)] by blast
  show "\<forall>g < length (pages R). pg_open (pages R ! g) \<and> \<not> pg_closeAsked (pages R ! g) \<longrightarrow>
        (\<exists>i < length rs. heldPage (rn_phase (rs ! i)) = Some g)"
    using h unfolding pagesHeld_def unclosed_def by blast
  assume "\<not> down"
  with oneBrowser_before [OF assms] have o: "oneBrowser R" by simp
  show "\<forall>b c. connected R b \<and> connected R c \<longrightarrow> b = c" using o unfolding oneBrowser_def by (metis option.inject)
  show "\<forall>b. \<not> connected R b" if "launching R \<noteq> None" using o that by (simp add: oneBrowser_def)
qed

text \<open>A first rendering, waiting for the launch it started.\<close>

lemma first_call: "rreachable A down (snd (getBrowser newRenderer), [\<lparr>rn_view = v, rn_phase = AwaitsLaunch 0\<rparr>])"
proof -
  have "getBrowser newRenderer = (AwaitsLaunch 0, snd (getBrowser newRenderer))"
    by (simp add: getBrowser_def connectedBrowser_def newRenderer_def)
  from rreachable.step [OF rreachable.init rstep.call [OF this]] show ?thesis by simp
qed

definition sampleView :: ReportView where
  "sampleView = \<lparr>rv_jobId = lit ''j1'', rv_label = lit ''Roof'', rv_generatedAt = 0, rv_sections = []\<rparr>"

theorem one_browser_own_pages_witness:
  "rreachable sampleApp False (snd (getBrowser newRenderer), [\<lparr>rn_view = sampleView, rn_phase = AwaitsLaunch 0\<rparr>])
   \<and> launches (snd (getBrowser newRenderer)) = [Pending] \<and> \<not> connected (snd (getBrowser newRenderer)) 0"
proof -
  have "launching (snd (getBrowser newRenderer)) \<noteq> None" "launches (snd (getBrowser newRenderer)) = [Pending]"
    by (simp_all add: getBrowser_def connectedBrowser_def newRenderer_def)
  then show ?thesis using first_call one_browser_own_pages [OF first_call [of sampleApp False sampleView]] by blast
qed

section \<open>Renderings settle\<close>

fun rank :: "phase \<Rightarrow> nat" where
  "rank (AwaitsLaunch p) = 5"
| "rank (HasBrowser b) = 4"
| "rank (Loads g) = 3"
| "rank (Prints g) = 2"
| "rank (Closes g r) = 1"
| "rank (Settled r) = 0"

lemma rstep_rank:
  assumes "rstep A down (R, rs) (R', rs')"
  shows "length rs \<le> length rs' \<and> (\<forall>i < length rs. rs' ! i = rs ! i
    \<or> rank (rn_phase (rs' ! i)) < rank (rn_phase (rs ! i)) \<and> rn_view (rs' ! i) = rn_view (rs ! i))"
  using assms
  by (cases rule: rstep.cases) (auto simp: nth_list_update nth_append newPage_def)

text \<open>Whatever a rendering waits for can still happen: it can move, or the launch it waits for is under way.\<close>

lemma rendering_moves:
  assumes "rinv A (R, rs)" and "i < length rs" and "rank (rn_phase (rs ! i)) > 0"
  shows "(\<exists>R' ph. rstep A down (R, rs) (R', goto rs i ph) \<and> rank ph < rank (rn_phase (rs ! i)) \<and> launching R' = launching R)
    \<or> (\<exists>p. rn_phase (rs ! i) = AwaitsLaunch p \<and> launching R = Some p
        \<and> rstep A down (R, rs) (launchThen p (answered p R), rs))"
proof (cases "rn_phase (rs ! i)")
  case (AwaitsLaunch p)
  with assms have p: "p < length (launches R)" using phase_of [OF assms(1,2)] by simp
  show ?thesis
  proof (cases "launches R ! p")
    case Pending
    with p assms(1) have "launching R = Some p" "p \<in> set (starting R)" by (auto simp: rinv_def launchesOk_def)
    with AwaitsLaunch show ?thesis by (blast intro: rstep.launch_ok)
  next
    case (Launched b)
    have "rank (HasBrowser b) < rank (rn_phase (rs ! i))" using AwaitsLaunch by simp
    with rstep.got_browser [OF assms(2) AwaitsLaunch p Launched] show ?thesis by blast
  next
    case (LaunchFailed m)
    have "rank (Settled (Inl m)) < rank (rn_phase (rs ! i))" using AwaitsLaunch by simp
    with rstep.got_none [OF assms(2) AwaitsLaunch p LaunchFailed] show ?thesis by blast
  qed
next
  case (HasBrowser b)
  have "rank (Settled (Inl [])) < rank (rn_phase (rs ! i))" using HasBrowser by simp
  with rstep.page_fails [OF assms(2) HasBrowser] show ?thesis by blast
next
  case (Loads g)
  have "rank (Closes g (Inl [])) < rank (rn_phase (rs ! i))" using Loads by simp
  with rstep.load_fails [OF assms(2) Loads] show ?thesis by blast
next
  case (Prints g)
  have "rank (Closes g (Inl [])) < rank (rn_phase (rs ! i))" using Prints by simp
  with rstep.print_fails [OF assms(2) Prints] show ?thesis by blast
next
  case (Closes g r)
  have "rank (Settled r) < rank (rn_phase (rs ! i))" "launching (closePage g R) = launching R"
    using Closes by (simp_all add: closePage_def)
  with rstep.close_ok [OF assms(2) Closes] show ?thesis by blast
qed (use assms in simp)

definition work :: "renderer \<times> rendering list \<Rightarrow> nat" where
  "work s = 2 * sum_list (map (\<lambda>r. rank (rn_phase r)) (snd s)) + (if launching (fst s) = None then 0 else 1)"

lemma sum_list_less:
  "i < length xs \<Longrightarrow> f y < f (xs ! i) \<Longrightarrow> sum_list (map f (xs[i := y])) < (sum_list (map f xs) :: nat)"
proof (induction xs arbitrary: i)
  case (Cons x xs)
  then show ?case by (cases i) auto
qed simp

lemma settles_from:
  assumes "rinv A (R, rs)"
  shows "\<exists>R' rs'. (rstep A down)\<^sup>*\<^sup>* (R, rs) (R', rs') \<and> length rs' = length rs
    \<and> (\<forall>i < length rs'. \<exists>r. rn_phase (rs' ! i) = Settled r)"
  using assms
proof (induction "work (R, rs)" arbitrary: R rs rule: less_induct)
  case less
  show ?case
  proof (cases "\<forall>i < length rs. \<exists>r. rn_phase (rs ! i) = Settled r")
    case True
    then show ?thesis by blast
  next
    case False
    then obtain i where i: "i < length rs" "\<And>r. rn_phase (rs ! i) \<noteq> Settled r" by blast
    then have "rank (rn_phase (rs ! i)) > 0" by (cases "rn_phase (rs ! i)") auto
    from rendering_moves [OF less.prems i(1) this, of down]
    obtain R1 rs1 where s1: "rstep A down (R, rs) (R1, rs1)" "length rs1 = length rs" "work (R1, rs1) < work (R, rs)"
    proof (elim disjE exE conjE)
      fix R1 ph assume a: "rstep A down (R, rs) (R1, goto rs i ph)" "rank ph < rank (rn_phase (rs ! i))"
        "launching R1 = launching R"
      with sum_list_less [OF i(1), of "\<lambda>r. rank (rn_phase r)" "(rs ! i)\<lparr>rn_phase := ph\<rparr>"]
      show ?thesis by (intro that [of R1 "goto rs i ph"]) (simp_all add: work_def)
    next
      fix p assume "launching R = Some p" "rstep A down (R, rs) (launchThen p (answered p R), rs)"
      then show ?thesis
        by (intro that [of "launchThen p (answered p R)" rs]) (simp_all add: work_def launchThen_def Let_def)
    qed
    from less.hyps [OF s1(3) rinv_step [OF s1(1) less.prems]] s1(1,2) show ?thesis
      by (metis converse_rtranclp_into_rtranclp)
  qed
qed

subsection \<open>Renderings that nothing disturbs\<close>

text \<open>
  From the browser at hand to the bytes: the calls succeed one after the other, and the browsers stay as they are.
\<close>

lemma goto_goto: "goto (goto rs i ph) i ph' = goto rs i ph'"
  by (cases "i < length rs") (simp_all add: list_update_beyond)

definition drawsFrom :: "app \<Rightarrow> bool \<Rightarrow> renderer \<Rightarrow> rendering list \<Rightarrow> nat \<Rightarrow> bytes \<Rightarrow> bool" where
  "drawsFrom A down R rs i pdf \<longleftrightarrow> (\<exists>R'. (rstep A down)\<^sup>*\<^sup>* (R, rs) (R', goto rs i (Settled (Inr pdf)))
     \<and> chromiums R' = chromiums R \<and> browser R' = browser R \<and> closing R' = closing R)"

lemma drawsFrom_step:
  assumes "rstep A down (R, rs) (R1, goto rs i ph)" and "drawsFrom A down R1 (goto rs i ph) i pdf"
    and "chromiums R1 = chromiums R" "browser R1 = browser R" "closing R1 = closing R"
  shows "drawsFrom A down R rs i pdf"
proof -
  from assms(2) obtain R' where r: "(rstep A down)\<^sup>*\<^sup>* (R1, goto rs i ph) (R', goto rs i (Settled (Inr pdf)))"
    "chromiums R' = chromiums R1" "browser R' = browser R1" "closing R' = closing R1"
    unfolding drawsFrom_def goto_goto by blast
  from converse_rtranclp_into_rtranclp [OF assms(1) r(1)] r(2-) assms(3-) show ?thesis
    unfolding drawsFrom_def by auto
qed

lemma drawsFrom_done: "drawsFrom A down R (goto rs i (Settled (Inr pdf))) i pdf"
  unfolding drawsFrom_def goto_goto by blast

lemma draws_Closes:
  assumes "i < length rs" and "rn_phase (rs ! i) = Closes g (Inr pdf)"
  shows "drawsFrom A down R rs i pdf"
  by (rule drawsFrom_step [OF rstep.close_ok [OF assms] drawsFrom_done]) (simp_all add: closePage_def)

lemma draws_Prints:
  assumes "i < length rs" and "rn_phase (rs ! i) = Prints g" and "alive R g"
    and "pg_content (pages R ! g) = Some html" and "chromiumPdf A n html = Inr pdf"
  shows "drawsFrom A down R rs i pdf"
  by (rule drawsFrom_step [OF rstep.print_ok [OF assms]]) (use assms in \<open>auto intro: draws_Closes\<close>)

lemma draws_Loads:
  assumes "i < length rs" and "rn_phase (rs ! i) = Loads g" and "alive R g"
    and "chromiumPdf A n (buildReportHtml (rn_view (rs ! i))) = Inr pdf"
  shows "drawsFrom A down R rs i pdf"
proof (rule drawsFrom_step [OF rstep.load_ok [OF assms(1-3)]])
  let ?R = "setContent g (buildReportHtml (rn_view (rs ! i))) R"
  show "drawsFrom A down ?R (goto rs i (Prints g)) i pdf"
    by (rule draws_Prints [of i _ g ?R "buildReportHtml (rn_view (rs ! i))" A n])
      (use assms in \<open>auto simp: alive_def setContent_def connected_def\<close>)
qed (simp_all add: setContent_def)

lemma draws_HasBrowser:
  assumes "i < length rs" and "rn_phase (rs ! i) = HasBrowser b" and "connected R b"
    and "chromiumPdf A n (buildReportHtml (rn_view (rs ! i))) = Inr pdf"
  shows "drawsFrom A down R rs i pdf"
proof -
  let ?R = "snd (newPage b R)"
  have page: "newPage b R = (Loads (length (pages R)), ?R)" by (simp add: newPage_def)
  show ?thesis
    by (rule drawsFrom_step [OF rstep.page_ok [OF assms(1-3) page]], rule draws_Loads [of i _ "length (pages R)"])
      (use assms in \<open>auto simp: newPage_def alive_def connected_def\<close>)
qed

lemma draws_Launched:
  assumes "i < length rs" and "rn_phase (rs ! i) = AwaitsLaunch p" and "p < length (launches R)"
    and "launches R ! p = Launched b" and "connected R b"
    and "chromiumPdf A n (buildReportHtml (rn_view (rs ! i))) = Inr pdf"
  shows "drawsFrom A down R rs i pdf"
  by (rule drawsFrom_step [OF rstep.got_browser [OF assms(1-4)]], rule draws_HasBrowser) (use assms in auto)

text \<open>A rendering waits for a launch: it is answered, and the rendering goes on with the new browser.\<close>

lemma draws_launching:
  assumes "launchesOk R" and "i < length rs" and "rn_phase (rs ! i) = AwaitsLaunch p" and "p \<in> set (starting R)"
    and "chromiumPdf A n (buildReportHtml (rn_view (rs ! i))) = Inr pdf"
  shows "\<exists>R'. (rstep A down)\<^sup>*\<^sup>* (R, rs) (R', goto rs i (Settled (Inr pdf)))
    \<and> chromiums R' = chromiums R @ [True] \<and> browser R' = Some (length (chromiums R)) \<and> closing R' = closing R"
proof -
  let ?R = "launchThen p (answered p R)"
  have "p < length (launches R)" using starting_pending [OF assms(1,4)] by simp
  then have "drawsFrom A down ?R rs i pdf"
    by (intro draws_Launched [of i rs p ?R "length (chromiums R)" A n])
      (use assms in \<open>simp_all add: launchThen_def answered_def connected_def Let_def\<close>)
  then obtain R' where r: "(rstep A down)\<^sup>*\<^sup>* (?R, rs) (R', goto rs i (Settled (Inr pdf)))"
    "chromiums R' = chromiums ?R" "browser R' = browser ?R" "closing R' = closing ?R"
    unfolding drawsFrom_def by blast
  from converse_rtranclp_into_rtranclp [OF rstep.launch_ok [OF assms(4)] r(1)] r(2-)
  show ?thesis by (auto simp: launchThen_def answered_def Let_def)
qed

text \<open>Nothing has gone wrong with a rendering: its launch is under way, or its browser and its page are there.\<close>

fun fine :: "renderer \<Rightarrow> phase \<Rightarrow> bool" where
  "fine R (AwaitsLaunch p) \<longleftrightarrow> p \<in> set (starting R) \<or> (\<exists>b. launches R ! p = Launched b \<and> connected R b)"
| "fine R (HasBrowser b) \<longleftrightarrow> connected R b"
| "fine R (Loads g) \<longleftrightarrow> alive R g"
| "fine R (Prints g) \<longleftrightarrow> alive R g"
| "fine R (Closes g r) \<longleftrightarrow> \<not> isl r"
| "fine R (Settled r) \<longleftrightarrow> \<not> isl r"

lemma fine_ends:
  assumes "rinv A (R, rs)" and "i < length rs" and "fine R (rn_phase (rs ! i))"
    and "chromiumPdf A n (buildReportHtml (rn_view (rs ! i))) = Inr pdf"
  shows "\<exists>R' pdf'. (rstep A down)\<^sup>*\<^sup>* (R, rs) (R', goto rs i (Settled (Inr pdf')))"
proof -
  note ph = phase_of [OF assms(1,2) refl]
  have ok: "launchesOk R" using assms(1) by (simp add: rinv_def)
  have d: ?thesis if "drawsFrom A down R rs i pdf'" for pdf' using that unfolding drawsFrom_def by blast
  show ?thesis
  proof (cases "rn_phase (rs ! i)")
    case (AwaitsLaunch p)
    with assms(3) ph consider "p \<in> set (starting R)" | b where "p < length (launches R)" "launches R ! p = Launched b"
      "connected R b" by auto
    then show ?thesis
      by cases (use draws_launching [OF ok assms(2) AwaitsLaunch _ assms(4), of down]
        draws_Launched [OF assms(2) AwaitsLaunch _ _ _ assms(4), of R] in \<open>blast intro: d\<close>)+
  next
    case (HasBrowser b)
    with draws_HasBrowser [OF assms(2) HasBrowser _ assms(4)] assms(3) show ?thesis by (intro d) simp
  next
    case (Loads g)
    with draws_Loads [OF assms(2) Loads _ assms(4)] assms(3) show ?thesis by (intro d) simp
  next
    case (Prints g)
    with draws_Prints [OF assms(2) Prints _ _ assms(4)] assms(3) ph show ?thesis by (intro d [of pdf]) simp
  next
    case (Closes g r)
    with assms(2,3) show ?thesis by (cases r) (auto intro: d draws_Closes)
  next
    case (Settled r)
    with assms(3) obtain pdf' where "r = Inr pdf'" by (cases r) auto
    with Settled have "goto rs i (Settled (Inr pdf')) = rs" by (metis list_update_id rendering.surjective rendering.update_convs(2))
    then show ?thesis by (metis rtranclp.rtrancl_refl)
  qed
qed

lemma awaited_launch:
  assumes "rinv A (R, rs)" and "i < length rs" and "rn_phase (rs ! i) = AwaitsLaunch p"
  shows "p < length (launches R) \<and> (launches R ! p = Pending \<longleftrightarrow> p \<in> set (starting R))"
proof -
  have "p < length (launches R)" using phase_of [OF assms] by simp
  with assms(1) show ?thesis by (auto simp: rinv_def launchesOk_def split: option.splits)
qed

text \<open>After either answer of Chromium the promise is settled and the next rendering may launch again.\<close>

lemma launch_settles:
  assumes "launchesOk R" and "p \<in> set (starting R)"
  shows "launches (launchThen p (answered p R)) ! p = Launched (length (chromiums R))
    \<and> launches (launchCatch p m (answered p R)) ! p = LaunchFailed m
    \<and> launching (launchCatch p m (answered p R)) = None"
  using starting_pending [OF assms] by (simp add: launchThen_def launchCatch_def answered_def Let_def)

lemma launches_again:
  assumes "launchesOk R" and "starting R = []" and "connectedBrowser R = None"
  shows "fst (getBrowser R) = AwaitsLaunch (length (launches R))
    \<and> starting (snd (getBrowser R)) = [length (launches R)]"
  using assms by (auto simp: launchesOk_def getBrowser_def Let_def split: option.splits)

text \<open>
  C19. No rendering is stuck, whatever happened to Chromium. In every state that can be reached: a step leaves a
  rendering as it is or brings it nearer to its end, of which it is at most five steps away; a rendering that waits
  for a launch waits for a promise of the service, which is pending exactly while Chromium owes the answer, and each
  answer settles it, a failure leaving the service ready to launch again; with no launch under way and no connected
  browser, the next rendering launches one; a rendering with which nothing has gone wrong ends with a PDF if nothing
  disturbs it and Chromium prints its document; and all renderings can be brought to their ends.
\<close>

theorem renderings_settle:
  assumes "rreachable A down (R, rs)"
  shows "(\<forall>R' rs'. rstep A down (R, rs) (R', rs') \<longrightarrow> length rs \<le> length rs' \<and> (\<forall>i < length rs. rs' ! i = rs ! i
      \<or> rank (rn_phase (rs' ! i)) < rank (rn_phase (rs ! i)) \<and> rn_view (rs' ! i) = rn_view (rs ! i)))
    \<and> (\<forall>ph. rank ph \<le> 5)
    \<and> (\<forall>i < length rs. \<forall>p. rn_phase (rs ! i) = AwaitsLaunch p \<longrightarrow>
        p < length (launches R) \<and> (launches R ! p = Pending \<longleftrightarrow> p \<in> set (starting R)))
    \<and> (\<forall>p \<in> set (starting R). \<forall>m. launches (launchThen p (answered p R)) ! p = Launched (length (chromiums R))
        \<and> launches (launchCatch p m (answered p R)) ! p = LaunchFailed m
        \<and> launching (launchCatch p m (answered p R)) = None)
    \<and> (starting R = [] \<and> connectedBrowser R = None \<longrightarrow>
        fst (getBrowser R) = AwaitsLaunch (length (launches R)) \<and> starting (snd (getBrowser R)) = [length (launches R)])
    \<and> (\<forall>i < length rs. \<forall>n pdf. fine R (rn_phase (rs ! i))
        \<and> chromiumPdf A n (buildReportHtml (rn_view (rs ! i))) = Inr pdf \<longrightarrow>
        (\<exists>R' pdf'. (rstep A down)\<^sup>*\<^sup>* (R, rs) (R', goto rs i (Settled (Inr pdf')))))
    \<and> (\<exists>R' rs'. (rstep A down)\<^sup>*\<^sup>* (R, rs) (R', rs') \<and> length rs' = length rs
      \<and> (\<forall>i < length rs'. \<exists>r. rn_phase (rs' ! i) = Settled r))"
proof (intro conjI allI impI ballI)
  note inv = rinv_reachable [OF assms]
  then have ok: "launchesOk R" by (simp add: rinv_def)
  show "rank ph \<le> 5" for ph by (cases ph) auto
  show "p < length (launches R)" if "i < length rs" "rn_phase (rs ! i) = AwaitsLaunch p" for i p
    using awaited_launch [OF inv that] by blast
  show "launches R ! p = Pending \<longleftrightarrow> p \<in> set (starting R)" if "i < length rs" "rn_phase (rs ! i) = AwaitsLaunch p" for i p
    using awaited_launch [OF inv that] by blast
  show "\<exists>R' pdf'. (rstep A down)\<^sup>*\<^sup>* (R, rs) (R', goto rs i (Settled (Inr pdf')))" if "i < length rs"
    "fine R (rn_phase (rs ! i)) \<and> chromiumPdf A n (buildReportHtml (rn_view (rs ! i))) = Inr pdf" for i n pdf
    using fine_ends [OF inv that(1)] that(2) by blast
  show "\<exists>R' rs'. (rstep A down)\<^sup>*\<^sup>* (R, rs) (R', rs') \<and> length rs' = length rs
      \<and> (\<forall>i < length rs'. \<exists>r. rn_phase (rs' ! i) = Settled r)" using settles_from [OF inv] .
qed (use rstep_rank launch_settles launches_again rinv_reachable [OF assms] in \<open>(simp add: rinv_def; blast)+\<close>)

theorem renderings_settle_witness:
  "\<exists>R' pdf'. (rstep sampleApp False)\<^sup>*\<^sup>*
      (snd (getBrowser newRenderer), [\<lparr>rn_view = sampleView, rn_phase = AwaitsLaunch 0\<rparr>])
      (R', [\<lparr>rn_view = sampleView, rn_phase = Settled (Inr pdf')\<rparr>])"
proof -
  have "chromiumPdf sampleApp 0 (buildReportHtml sampleView) = Inr [1, 2, 3]" by (simp add: sampleApp_def)
  moreover have "starting (snd (getBrowser newRenderer)) = [0]"
    by (simp add: getBrowser_def connectedBrowser_def newRenderer_def)
  ultimately show ?thesis using renderings_settle [OF first_call [of sampleApp False sampleView]] by fastforce
qed

section \<open>Refinement of the one call\<close>

lemma run_render: "run (render A v) w =
    (case chromiumPdf A (modelCalls w) (buildReportHtml v) of
       Inl m \<Rightarrow> (Inl (PlainError m), w\<lparr>modelCalls := Suc (modelCalls w)\<rparr>)
     | Inr pdf \<Rightarrow> (Inr pdf, w\<lparr>modelCalls := Suc (modelCalls w)\<rparr>))"
  by (simp add: render_def modelCall_def split: sum.split)

text \<open>A rendering that nothing disturbs.\<close>

lemma undisturbed:
  assumes "chromiumPdf A n (buildReportHtml v) = Inr pdf"
  shows "\<exists>R. rreachable A down (R, [\<lparr>rn_view = v, rn_phase = Settled (Inr pdf)\<rparr>])"
proof -
  let ?R = "snd (getBrowser newRenderer)" and ?rs = "[\<lparr>rn_view = v, rn_phase = AwaitsLaunch 0\<rparr>]"
  have "starting ?R = [0]" by (simp add: getBrowser_def connectedBrowser_def newRenderer_def)
  moreover have "launchesOk ?R" using rinv_reachable [OF first_call [of A down v]] by (simp add: rinv_def)
  ultimately obtain R' where "(rstep A down)\<^sup>*\<^sup>* (?R, ?rs) (R', goto ?rs 0 (Settled (Inr pdf)))"
    using draws_launching [of ?R 0 ?rs 0 A n pdf down] assms by auto
  from rreachable_steps [OF this first_call] show ?thesis by auto
qed

text \<open>
  C17. The renderer implements the one call that the pipeline's model takes it for: the bytes a rendering ends with, in
  any interleaving, are an outcome of \<open>render\<close> for its own view, and every such outcome can be had.
\<close>

theorem renderer_refines_render:
  "(\<exists>R rs i. rreachable A down (R, rs) \<and> i < length rs \<and> rs ! i = \<lparr>rn_view = v, rn_phase = Settled (Inr pdf)\<rparr>)
    \<longleftrightarrow> (\<exists>w. fst (run (render A v) w) = Inr pdf)"
proof
  assume "\<exists>R rs i. rreachable A down (R, rs) \<and> i < length rs \<and> rs ! i = \<lparr>rn_view = v, rn_phase = Settled (Inr pdf)\<rparr>"
  then obtain R rs i where r: "rreachable A down (R, rs)" "i < length rs" "rs ! i = \<lparr>rn_view = v, rn_phase = Settled (Inr pdf)\<rparr>"
    by blast
  then have "phaseOk A R v (Settled (Inr pdf))"
    using phase_of [OF rinv_reachable [OF r(1)] r(2), of "Settled (Inr pdf)"] by simp
  then obtain n where "chromiumPdf A n (buildReportHtml v) = Inr pdf" by (auto simp: printed_def)
  then have "fst (run (render A v) (emptyWorld\<lparr>modelCalls := n\<rparr>)) = Inr pdf" by (simp add: run_render)
  then show "\<exists>w. fst (run (render A v) w) = Inr pdf" by blast
next
  assume "\<exists>w. fst (run (render A v) w) = Inr pdf"
  then obtain w where "fst (run (render A v) w) = Inr pdf" by blast
  then have "chromiumPdf A (modelCalls w) (buildReportHtml v) = Inr pdf" by (simp add: run_render split: sum.split_asm)
  from undisturbed [OF this, of down] obtain R where
    "rreachable A down (R, [\<lparr>rn_view = v, rn_phase = Settled (Inr pdf)\<rparr>])" by blast
  then show "\<exists>R rs i. rreachable A down (R, rs) \<and> i < length rs \<and> rs ! i = \<lparr>rn_view = v, rn_phase = Settled (Inr pdf)\<rparr>"
    by (intro exI [of _ R] exI [of _ "[\<lparr>rn_view = v, rn_phase = Settled (Inr pdf)\<rparr>]"] exI [of _ 0]) simp
qed

section \<open>Shutdown\<close>

text \<open>
  C37. A shutdown can leave Chromium running. Nest runs the \<^verbatim>\<open>onModuleDestroy\<close> hooks before the worker's
  \<^verbatim>\<open>onApplicationShutdown\<close> drains the jobs, and the hook closes the browser at hand and no other. Run while the first
  launch is under way, it ends at once with nothing closed and the renderer as it was; the rendering that waits for
  the launch can then still end with its PDF, no step of a shutdown in between, and the Chromium launched for it is
  connected and at hand with no hook left that would close it.
\<close>

theorem shutdown_leaves_browser:
  assumes "rreachable A True (R, rs)" and "browser R = None" and "i < length rs"
    and "rn_phase (rs ! i) = AwaitsLaunch p" and "p \<in> set (starting R)"
    and "chromiumPdf A n (buildReportHtml (rn_view (rs ! i))) = Inr pdf"
  shows "rstep A True (R, rs) (onModuleDestroy R, rs) \<and> closing (onModuleDestroy R) = None
    \<and> chromiums (onModuleDestroy R) = chromiums R \<and> starting (onModuleDestroy R) = starting R
    \<and> (\<exists>R'. (rstep A False)\<^sup>*\<^sup>* (onModuleDestroy R, rs) (R', goto rs i (Settled (Inr pdf)))
        \<and> connectedBrowser R' = Some (length (chromiums R)) \<and> closing R' = None)"
proof -
  let ?R = "onModuleDestroy R"
  have hook: "rstep A True (R, rs) (?R, rs)" by (rule rstep.destroy) simp
  have "launchesOk ?R" using rinv_step [OF hook rinv_reachable [OF assms(1)]] by (simp add: rinv_def)
  from draws_launching [OF this assms(3,4) _ assms(6), of False] assms(2,5) hook show ?thesis
    by (auto simp: onModuleDestroy_def connectedBrowser_def connected_def)
qed

theorem shutdown_leaves_browser_witness:
  "\<exists>R'. (rstep sampleApp False)\<^sup>*\<^sup>*
      (onModuleDestroy (snd (getBrowser newRenderer)), [\<lparr>rn_view = sampleView, rn_phase = AwaitsLaunch 0\<rparr>])
      (R', [\<lparr>rn_view = sampleView, rn_phase = Settled (Inr [1, 2, 3])\<rparr>]) \<and> connectedBrowser R' = Some 0"
proof -
  let ?rs = "[\<lparr>rn_view = sampleView, rn_phase = AwaitsLaunch 0\<rparr>]"
  have "browser (snd (getBrowser newRenderer)) = None" "0 \<in> set (starting (snd (getBrowser newRenderer)))"
    "chromiums (snd (getBrowser newRenderer)) = []"
    "chromiumPdf sampleApp 0 (buildReportHtml (rn_view (?rs ! 0))) = Inr [1, 2, 3]"
    by (simp_all add: getBrowser_def connectedBrowser_def newRenderer_def sampleApp_def)
  with shutdown_leaves_browser [OF first_call [of sampleApp True sampleView], of 0 0 0 "[1, 2, 3]"]
  show ?thesis by auto
qed

end
