(* ===== verification/Redis_Connection.thy ===== *)
theory Redis_Connection
  imports World Utf8
begin

text \<open>
  The connection options of the queue, \<^verbatim>\<open>server/src/queue/redis.connection.ts\<close>. \<^verbatim>\<open>decodeURIComponent\<close> is modelled as
  ECMAScript defines it. The URL parser and \<^verbatim>\<open>Number\<close> are parameters. The theory shows that credentials that were
  percent-encoded into the URL arrive as they were.
\<close>

section \<open>Percent encoding\<close>

definition hexVal :: "jschar \<Rightarrow> nat option" where
  "hexVal c =
     (if 48 \<le> c \<and> c \<le> 57 then Some (unat c - 48)
      else if 65 \<le> c \<and> c \<le> 70 then Some (unat c - 55)
      else if 97 \<le> c \<and> c \<le> 102 then Some (unat c - 87)
      else None)"

text \<open>One \<^verbatim>\<open>%XX\<close>, and \<open>n\<close> of them.\<close>

fun takeByte :: "js \<Rightarrow> (nat \<times> js) option" where
  "takeByte (p # a # b # s) =
     (if p = 37 then (case (hexVal a, hexVal b) of (Some x, Some y) \<Rightarrow> Some (16 * x + y, s) | _ \<Rightarrow> None) else None)"
| "takeByte _ = None"

fun takeBytes :: "nat \<Rightarrow> js \<Rightarrow> (nat list \<times> js) option" where
  "takeBytes 0 s = Some ([], s)"
| "takeBytes (Suc n) s =
     (case takeByte s of
        None \<Rightarrow> None
      | Some (b, s') \<Rightarrow> (case takeBytes n s' of None \<Rightarrow> None | Some (bs, r) \<Rightarrow> Some (b # bs, r)))"

text \<open>How many bytes a first byte announces; 0 for a byte that starts nothing.\<close>

definition byteCount :: "nat \<Rightarrow> nat" where
  "byteCount b = (if b < 0x80 then 1 else if b < 0xC0 then 0 else if b < 0xE0 then 2 else if b < 0xF0 then 3
     else if b < 0xF8 then 4 else 0)"

definition scalar :: "nat \<Rightarrow> bool" where
  "scalar n \<longleftrightarrow> n < 0x110000 \<and> \<not> (0xD800 \<le> n \<and> n < 0xE000)"

text \<open>The code point of which the bytes are the UTF-8 encoding, if they are one.\<close>

definition payload :: "nat list \<Rightarrow> nat" where
  "payload bs = (case bs of
     [a] \<Rightarrow> a
   | [a, b] \<Rightarrow> (a - 0xC0) * 64 + (b - 0x80)
   | [a, b, c] \<Rightarrow> ((a - 0xE0) * 64 + (b - 0x80)) * 64 + (c - 0x80)
   | [a, b, c, d] \<Rightarrow> (((a - 0xF0) * 64 + (b - 0x80)) * 64 + (c - 0x80)) * 64 + (d - 0x80)
   | _ \<Rightarrow> 0)"

definition decodePoint :: "nat list \<Rightarrow> nat option" where
  "decodePoint bs = (let n = payload bs in if scalar n \<and> encodePoint n = bs then Some n else None)"

lemma takeByte_length: "takeByte s = Some (b, r) \<Longrightarrow> length r < length s"
  by (cases s rule: takeByte.cases) (auto split: if_splits option.splits)

lemma takeBytes_length: "takeBytes n s = Some (bs, r) \<Longrightarrow> length r \<le> length s"
proof (induction n arbitrary: s bs)
  case (Suc n)
  then show ?case using takeByte_length by (fastforce split: option.splits)
qed simp

text \<open>\<open>None\<close> is the \<^verbatim>\<open>URIError\<close>.\<close>

function decodeURIComponent :: "js \<Rightarrow> js option" where
  "decodeURIComponent [] = Some []"
| "decodeURIComponent (c # s) =
     (if c \<noteq> 37 then map_option ((#) c) (decodeURIComponent s)
      else (case takeByte (c # s) of
          None \<Rightarrow> None
        | Some (b, s1) \<Rightarrow>
            (case byteCount b of
               0 \<Rightarrow> None
             | Suc n \<Rightarrow>
                 (case takeBytes n s1 of
                    None \<Rightarrow> None
                  | Some (bs, s2) \<Rightarrow>
                      (case decodePoint (b # bs) of
                         None \<Rightarrow> None
                       | Some p \<Rightarrow> map_option ((@) (unitsOf p)) (decodeURIComponent s2))))))"
  by pat_completeness auto
termination
  by (relation "measure length") (auto dest!: takeByte_length takeBytes_length)

section \<open>The options\<close>

text \<open>The fields of a parsed \<^verbatim>\<open>URL\<close> that are read, and the options that are set.\<close>

record URL =
  url_protocol :: js
  url_hostname :: js
  url_port :: js
  url_username :: js
  url_password :: js
  url_pathname :: js

record 'n ConnectionOptions =
  co_host :: js
  co_port :: 'n
  co_username :: "js option"
  co_password :: "js option"
  co_db :: "'n option"
  co_maxRetriesPerRequest :: "nat option"
  co_enableReadyCheck :: bool
  co_tls :: bool

text \<open>\<^verbatim>\<open>parsed.username ? decodeURIComponent(parsed.username) : undefined\<close>; the outer \<open>None\<close> is the \<^verbatim>\<open>URIError\<close>.\<close>

definition credential :: "js \<Rightarrow> js option option" where
  "credential s = (if truthy s then map_option Some (decodeURIComponent s) else Some None)"

definition createBullConnection ::
    "(js \<Rightarrow> URL option) \<Rightarrow> (js \<Rightarrow> 'n) \<Rightarrow> 'n \<Rightarrow> js \<Rightarrow> 'n ConnectionOptions option" where
  "createBullConnection parseUrl Number n6379 url =
     (case parseUrl url of
        None \<Rightarrow> None
      | Some parsed \<Rightarrow>
          (let isTls = (url_protocol parsed = lit ''rediss:'') in
           case credential (url_username parsed) of
             None \<Rightarrow> None
           | Some username \<Rightarrow>
               (case credential (url_password parsed) of
                  None \<Rightarrow> None
                | Some password \<Rightarrow>
                    Some \<lparr>co_host = url_hostname parsed,
                          co_port = (if truthy (url_port parsed) then Number (url_port parsed) else n6379),
                          co_username = username, co_password = password,
                          co_db = (if length (url_pathname parsed) > 1 then Some (Number (drop 1 (url_pathname parsed))) else None),
                          co_maxRetriesPerRequest = None, co_enableReadyCheck = False, co_tls = isTls\<rparr>)))"

section \<open>Credentials survive the URL\<close>

text \<open>What whoever writes the URL does to a credential: ECMAScript's \<^verbatim>\<open>encodeURIComponent\<close>.\<close>

definition unreserved :: "nat \<Rightarrow> bool" where
  "unreserved n \<longleftrightarrow> 65 \<le> n \<and> n \<le> 90 \<or> 97 \<le> n \<and> n \<le> 122 \<or> 48 \<le> n \<and> n \<le> 57
     \<or> n \<in> {45, 95, 46, 33, 126, 42, 39, 40, 41}"

definition hexDigit :: "nat \<Rightarrow> jschar" where
  "hexDigit d = (if d < 10 then of_nat (48 + d) else of_nat (55 + d))"

definition percentByte :: "nat \<Rightarrow> js" where
  "percentByte b = [37, hexDigit (b div 16), hexDigit (b mod 16)]"

definition percentPoint :: "nat \<Rightarrow> js" where
  "percentPoint n = (if unreserved n then [of_nat n] else concat (map percentByte (encodePoint n)))"

definition encodeURIComponent :: "js \<Rightarrow> js" where
  "encodeURIComponent s = concat (map percentPoint (codePoints s))"

lemma hexVal_hexDigit: "d < 16 \<Longrightarrow> hexVal (hexDigit d) = Some d"
proof -
  assume "d < 16"
  then have "d = 0 \<or> d = 1 \<or> d = 2 \<or> d = 3 \<or> d = 4 \<or> d = 5 \<or> d = 6 \<or> d = 7 \<or> d = 8 \<or> d = 9 \<or> d = 10
      \<or> d = 11 \<or> d = 12 \<or> d = 13 \<or> d = 14 \<or> d = 15" by arith
  then show ?thesis by (elim disjE) (simp_all add: hexVal_def hexDigit_def)
qed

lemma takeByte_percentByte: "b < 256 \<Longrightarrow> takeByte (percentByte b @ s) = Some (b, s)"
  by (simp add: percentByte_def hexVal_hexDigit)

lemma takeBytes_percent: "\<forall>b \<in> set bs. b < 256 \<Longrightarrow> takeBytes (length bs) (concat (map percentByte bs) @ s) = Some (bs, s)"
  by (induction bs) (simp_all add: takeByte_percentByte)

lemma encodePoint_bytes: "n < 0x110000 \<Longrightarrow> b \<in> set (encodePoint n) \<Longrightarrow> b < 256"
proof -
  assume "n < 0x110000"
  then have "n div 262144 < 5" "n < 0x10000 \<Longrightarrow> n div 4096 < 16" "n < 0x800 \<Longrightarrow> n div 64 < 32" by simp_all
  moreover have "m mod 64 < 64" for m :: nat by simp
  ultimately show "b \<in> set (encodePoint n) \<Longrightarrow> b < 256"
    by (auto simp: encodePoint_def split: if_splits)
qed

text \<open>The first byte announces the length, and the bytes give the code point back.\<close>

lemma byteCount_first: "n < 0x110000 \<Longrightarrow> byteCount (hd (encodePoint n)) = length (encodePoint n)"
proof -
  assume "n < 0x110000"
  then have "n div 262144 < 8" "n < 0x10000 \<Longrightarrow> n div 4096 < 16" "n < 0x800 \<Longrightarrow> n div 64 < 32" by simp_all
  then show ?thesis by (auto simp: encodePoint_def byteCount_def)
qed

lemma payload_encodePoint: "payload (encodePoint n) = n"
proof -
  have d: "n div 4096 = n div 64 div 64" "n div 262144 = n div 64 div 64 div 64" by (simp_all flip: div_mult2_eq)
  have m: "64 * (k div 64) + k mod 64 = k" for k :: nat by simp
  show ?thesis
    by (simp add: encodePoint_def payload_def d)
      (use m [of n] m [of "n div 64"] m [of "n div 64 div 64"] in \<open>intro conjI impI; linarith\<close>)
qed

lemma decodePoint_encodePoint: "scalar n \<Longrightarrow> decodePoint (encodePoint n) = Some n"
  by (simp add: decodePoint_def payload_encodePoint)

lemma decode_percentPoint:
  assumes "scalar n"
  shows "decodeURIComponent (percentPoint n @ s) = map_option ((@) (unitsOf n)) (decodeURIComponent s)"
proof (cases "unreserved n")
  case True
  then have "n < 0x80" "n \<noteq> 37" by (auto simp: unreserved_def)
  then have "unat (of_nat n :: jschar) = n" by (simp add: unat_of_nat)
  with \<open>n \<noteq> 37\<close> have "(of_nat n :: jschar) \<noteq> 37" by auto
  moreover have "unitsOf n = [of_nat n]" using \<open>n < 0x80\<close> by (simp add: unitsOf_def)
  moreover have "(@) [x] = (#) x" for x :: jschar by (rule ext) simp
  ultimately show ?thesis using True by (simp add: percentPoint_def)
next
  case False
  have n: "n < 0x110000" using assms by (simp add: scalar_def)
  obtain b bs where e: "encodePoint n = b # bs" using first_byte(4) [of n] by (cases "encodePoint n") auto
  then have b: "b < 256" "\<forall>c \<in> set bs. c < 256" "byteCount b = Suc (length bs)"
    using encodePoint_bytes [OF n] byteCount_first [OF n] by auto
  define t where "t = concat (map percentByte bs) @ s"
  define r where "r = tl (percentByte b @ t)"
  have r: "percentByte b @ t = 37 # r" by (simp add: percentByte_def r_def)
  then have "percentPoint n @ s = 37 # r" using False e by (simp add: percentPoint_def t_def)
  moreover have "takeByte (37 # r) = Some (b, t)" using takeByte_percentByte [OF b(1), of t] r by simp
  moreover have "takeBytes (length bs) t = Some (bs, s)" using takeBytes_percent [OF b(2)] by (simp add: t_def)
  ultimately show ?thesis using b(3) decodePoint_encodePoint [OF assms] e by simp
qed

lemma codePoints_scalar: "wellFormed s \<Longrightarrow> n \<in> set (codePoints s) \<Longrightarrow> scalar n"
proof (induction s rule: wellFormed.induct)
  case (2 c)
  have "unat c < 0x10000" using unsigned_less [of c] by simp
  with 2 show ?case by (auto simp: scalar_def highSurrogate_def lowSurrogate_def)
next
  case (3 c d s)
  have "unat c < 0x10000" "unat d < 0x10000" using unsigned_less [of c] unsigned_less [of d] by simp_all
  with 3 show ?case
    by (auto simp: scalar_def highSurrogate_def lowSurrogate_def combine_def split: if_splits)
qed simp

theorem decode_encode: "wellFormed s \<Longrightarrow> decodeURIComponent (encodeURIComponent s) = Some s"
proof -
  assume w: "wellFormed s"
  have "decodeURIComponent (concat (map percentPoint ns)) = Some (concat (map unitsOf ns))" if "\<forall>n \<in> set ns. scalar n" for ns
    using that by (induction ns) (simp_all add: decode_percentPoint)
  with w codePoints_scalar codePoints_units show ?thesis by (simp add: encodeURIComponent_def)
qed

lemma credential_encoded: "wellFormed s \<Longrightarrow> credential (encodeURIComponent s) = Some (if s = [] then None else Some s)"
proof -
  assume w: "wellFormed s"
  have "encodeURIComponent s = [] \<longleftrightarrow> s = []"
  proof
    assume "encodeURIComponent s = []"
    with decode_encode [OF w] show "s = []" by simp
  qed (simp add: encodeURIComponent_def)
  with decode_encode [OF w] show ?thesis by (simp add: credential_def)
qed

text \<open>
  A Redis user and password that were percent-encoded into the URL reach BullMQ as they were, whatever characters
  they hold, and an empty one is left out; TLS is used exactly for \<^verbatim>\<open>rediss:\<close>, the port defaults to 6379, and commands
  are retried without limit, as a BullMQ worker demands.
\<close>

theorem connection_roundtrip:
  assumes "parseUrl url = Some u" and "url_username u = encodeURIComponent user" and "url_password u = encodeURIComponent pw"
    and "wellFormed user" and "wellFormed pw"
  shows "\<exists>c. createBullConnection parseUrl Number n6379 url = Some c
    \<and> co_username c = (if user = [] then None else Some user) \<and> co_password c = (if pw = [] then None else Some pw)
    \<and> co_host c = url_hostname u \<and> co_port c = (if url_port u = [] then n6379 else Number (url_port u))
    \<and> (co_tls c \<longleftrightarrow> url_protocol u = lit ''rediss:'') \<and> co_maxRetriesPerRequest c = None"
  using assms by (simp add: createBullConnection_def credential_encoded)

text \<open>A password with a reserved character, a two-byte and a four-byte code point.\<close>

definition samplePassword :: js where
  "samplePassword = lit ''p@'' @ [0xE9, 0xD83D, 0xDE00]"

theorem connection_roundtrip_witness:
  "encodeURIComponent samplePassword = lit ''p%40%C3%A9%F0%9F%98%80''
   \<and> map_option co_password (createBullConnection
        (\<lambda>s. Some \<lparr>url_protocol = lit ''rediss:'', url_hostname = lit ''h'', url_port = [], url_username = [],
                   url_password = lit ''p%40%C3%A9%F0%9F%98%80'', url_pathname = lit ''/0''\<rparr>)
        (\<lambda>s. 0 :: nat) 6379 (lit ''rediss://:p%40%C3%A9%F0%9F%98%80@h/0'')) = Some (Some samplePassword)"
proof -
  have w: "wellFormed samplePassword" "wellFormed []" by (simp_all add: samplePassword_def lit_unfold highSurrogate_def lowSurrogate_def)
  have e: "encodeURIComponent samplePassword = lit ''p%40%C3%A9%F0%9F%98%80''" "encodeURIComponent [] = []"
    by (simp_all add: samplePassword_def encodeURIComponent_def lit_unfold highSurrogate_def lowSurrogate_def combine_def
      percentPoint_def unreserved_def encodePoint_def percentByte_def hexDigit_def)
  let ?u = "\<lparr>url_protocol = lit ''rediss:'', url_hostname = lit ''h'', url_port = [], url_username = [],
                   url_password = lit ''p%40%C3%A9%F0%9F%98%80'', url_pathname = lit ''/0''\<rparr>"
  have "url_username ?u = encodeURIComponent []" "url_password ?u = encodeURIComponent samplePassword" using e by simp_all
  with w e connection_roundtrip [of "\<lambda>s. Some ?u" "lit ''rediss://:p%40%C3%A9%F0%9F%98%80@h/0''" ?u "[]" samplePassword
    "\<lambda>s. 0 :: nat" 6379]
  show ?thesis by (auto simp: samplePassword_def)
qed

end
