(* ===== verification/Clients.thy ===== *)
theory Clients
  imports Config Redis_Connection Utf8
begin

text \<open>
  What each process connects to, made from the configuration once at boot: the Prisma client, the queues of the API and
  of the worker (\<^verbatim>\<open>queue.constants.ts\<close>, \<^verbatim>\<open>queue.module.ts\<close>, \<^verbatim>\<open>bull-board.ts\<close>, \<^verbatim>\<open>processing.processor.ts\<close>), the clients of
  the AI services, and the keys of the access tokens on their two sides. The theory shows that the ends meet.
\<close>

section \<open>Database\<close>

record prisma_options =
  po_url :: js
  po_log :: "js list"

definition prismaClient :: "AppConfig \<Rightarrow> prisma_options" where
  "prismaClient c = \<lparr>po_url = databaseUrl c,
     po_log = (if isProduction c then map lit [''warn'', ''error''] else map lit [''warn'', ''error''])\<rparr>"

section \<open>Queues\<close>

definition PROCESSING_QUEUE :: js where "PROCESSING_QUEUE = lit ''fieldnote-processing''"
definition PROCESSING_DLQ :: js where "PROCESSING_DLQ = lit ''fieldnote-processing-dlq''"
definition PROCESS_JOB :: js where "PROCESS_JOB = lit ''process-job''"

text \<open>A BullMQ queue, and a BullMQ worker. Nothing is made (\<open>None\<close>) where the Redis URL is refused.\<close>

record 'n bull_queue =
  bq_name :: js
  bq_connection :: "'n ConnectionOptions"

record 'n bull_worker =
  bw_queue :: js
  bw_connection :: "'n ConnectionOptions"
  bw_concurrency :: int

text \<open>Name to options of a connection: \<^verbatim>\<open>createBullConnection\<close> with its parameters.\<close>

type_synonym 'n connector = "js \<Rightarrow> 'n ConnectionOptions option"

definition producerQueue :: "'n connector \<Rightarrow> AppConfig \<Rightarrow> 'n bull_queue option" where
  "producerQueue connect c = map_option (\<lambda>co. \<lparr>bq_name = PROCESSING_QUEUE, bq_connection = co\<rparr>) (connect (redisUrl c))"

definition dashboardDlq :: "'n connector \<Rightarrow> AppConfig \<Rightarrow> 'n bull_queue option" where
  "dashboardDlq connect c = map_option (\<lambda>co. \<lparr>bq_name = PROCESSING_DLQ, bq_connection = co\<rparr>) (connect (redisUrl c))"

definition workerDlq :: "'n connector \<Rightarrow> AppConfig \<Rightarrow> 'n bull_queue option" where
  "workerDlq connect c = map_option (\<lambda>co. \<lparr>bq_name = PROCESSING_DLQ, bq_connection = co\<rparr>) (connect (redisUrl c))"

definition processingWorker :: "'n connector \<Rightarrow> AppConfig \<Rightarrow> 'n bull_worker option" where
  "processingWorker connect c = map_option (\<lambda>co. \<lparr>bw_queue = PROCESSING_QUEUE, bw_connection = co,
     bw_concurrency = workerConcurrency (ai c)\<rparr>) (connect (redisUrl c))"

section \<open>AI services\<close>

text \<open>The providers with their client's key, base URL (\<open>None\<close>: the library's own), model and token limit.\<close>

datatype provider_client =
    MockClient
  | DeepgramClient js js
  | OpenAiClient js "js option" js "nat option"

definition deepgramClient :: "js \<Rightarrow> js \<Rightarrow> provider_client" where
  "deepgramClient apiKey model = DeepgramClient apiKey model"

definition openaiClient :: "js \<Rightarrow> js \<Rightarrow> provider_client" where
  "openaiClient apiKey model = OpenAiClient apiKey None model None"

definition deepseekClient :: "js \<Rightarrow> js \<Rightarrow> js \<Rightarrow> provider_client" where
  "deepseekClient apiKey model baseURL = OpenAiClient apiKey (Some baseURL) model (Some 4096)"

definition sttClient :: "AppConfig \<Rightarrow> provider_client" where
  "sttClient c =
     (if useMock (ai c) then MockClient
      else if transcriptionProvider (ai c) = lit ''openai'' then openaiClient (openaiApiKey (ai c)) (openaiTranscribeModel (ai c))
      else deepgramClient (deepgramApiKey (ai c)) (deepgramModel (ai c)))"

definition compilerClient :: "AppConfig \<Rightarrow> provider_client" where
  "compilerClient c =
     (if useMock (ai c) then MockClient
      else deepseekClient (deepseekApiKey (ai c)) (reportModel (ai c)) (deepseekBaseUrl (ai c)))"

fun clientKey :: "provider_client \<Rightarrow> js" where
  "clientKey MockClient = []"
| "clientKey (DeepgramClient k m) = k"
| "clientKey (OpenAiClient k b m n) = k"

section \<open>Keys\<close>

text \<open>\<^verbatim>\<open>TextEncoder\<close>: the bytes that sign access tokens, and those that verify them.\<close>

definition signingKey :: "AppConfig \<Rightarrow> nat list" where
  "signingKey c = utf8 (accessSecret (jwt c))"

definition guardKey :: "AppConfig \<Rightarrow> nat list" where
  "guardKey c = utf8 (accessSecret (jwt c))"

section \<open>The ends meet\<close>

text \<open>BullMQ refuses a name with a colon.\<close>

lemma queue_names:
  "PROCESSING_DLQ \<noteq> PROCESSING_QUEUE" "58 \<notin> set PROCESSING_QUEUE" "58 \<notin> set PROCESSING_DLQ"
  by (simp_all add: PROCESSING_QUEUE_def PROCESSING_DLQ_def lit_unfold)

lemma production_keys:
  assumes "loadConfig isUrl toNumber zodMessage src = Inr c" and "isProduction c"
  shows "sttClient c \<noteq> MockClient \<and> compilerClient c \<noteq> MockClient
    \<and> truthy (clientKey (sttClient c)) \<and> truthy (clientKey (compilerClient c))"
proof -
  from assms(1) obtain e where e: "rawSchema isUrl toNumber src = ([], Some e)" "superRefine e = []" "c = toAppConfig e"
    by (auto simp: loadConfig_Inr)
  have "TRANSCRIPTION_PROVIDER e \<in> {lit ''deepgram'', lit ''openai''}"
    using rawSchema_enums [OF e(1)] by (auto dest: zEnum_ok)
  with e(2) assms(2) show ?thesis
    by (auto simp: e(3) superRefine_def Let_def toAppConfig_def sttClient_def compilerClient_def deepgramClient_def
        openaiClient_def deepseekClient_def split: if_splits)
qed

text \<open>
  Both services loaded with one configuration meet: the worker takes its jobs from the queue, over the same
  connection options, that the API puts them on; the dashboard shows the dead-letter queue that the worker fills, which
  is another one; and access tokens are verified with the bytes they were signed with. Either all queues are made or
  none. The worker runs 1 to 50 jobs at once. In production no AI client is the mock, and each has a key.
\<close>

theorem ends_meet:
  assumes "loadConfig isUrl toNumber zodMessage src = Inr c"
    and "connect = createBullConnection parseUrl Number n6379"
  shows "(case (producerQueue connect c, processingWorker connect c) of
      (Some q, Some k) \<Rightarrow> bq_name q = bw_queue k \<and> bq_connection q = bw_connection k
        \<and> 1 \<le> bw_concurrency k \<and> bw_concurrency k \<le> 50 \<and> co_maxRetriesPerRequest (bw_connection k) = None
        \<and> 58 \<notin> set (bq_name q)
    | (None, None) \<Rightarrow> connect (redisUrl c) = None
    | _ \<Rightarrow> False)
    \<and> dashboardDlq connect c = workerDlq connect c
    \<and> (\<forall>d q. workerDlq connect c = Some d \<longrightarrow> producerQueue connect c = Some q \<longrightarrow>
        bq_name d \<noteq> bq_name q \<and> 58 \<notin> set (bq_name d))
    \<and> guardKey c = signingKey c
    \<and> (isProduction c \<longrightarrow> MockClient \<notin> {sttClient c, compilerClient c}
        \<and> truthy (clientKey (sttClient c)) \<and> truthy (clientKey (compilerClient c)))"
proof -
  from assms(1) obtain e where e: "rawSchema isUrl toNumber src = ([], Some e)" "c = toAppConfig e"
    by (auto simp: loadConfig_Inr)
  have bounds: "1 \<le> workerConcurrency (ai c)" "workerConcurrency (ai c) \<le> 50"
    using rawSchema_numbers [OF e(1)] by (auto simp: e(2) toAppConfig_def zPositive_def dest!: zNumber_all)
  have retries: "connect u = Some co \<Longrightarrow> co_maxRetriesPerRequest co = None" for u co
    by (auto simp: assms(2) createBullConnection_def Let_def split: option.splits)
  show ?thesis
    using production_keys [OF assms(1)] bounds retries queue_names
    by (cases "connect (redisUrl c)")
      (auto simp: producerQueue_def processingWorker_def dashboardDlq_def workerDlq_def guardKey_def signingKey_def)
qed

definition sampleUrl :: URL where
  "sampleUrl = \<lparr>url_protocol = lit ''redis:'', url_hostname = lit ''redis'', url_port = [], url_username = [],
     url_password = [], url_pathname = []\<rparr>"

theorem ends_meet_witness:
  "\<exists>c q k. loadConfig (\<lambda>_. True) (\<lambda>_. NaN) (\<lambda>_. []) prodEnv = Inr c
    \<and> producerQueue (createBullConnection (\<lambda>_. Some sampleUrl) length 6379) c = Some q
    \<and> processingWorker (createBullConnection (\<lambda>_. Some sampleUrl) length 6379) c = Some k
    \<and> bq_connection q = bw_connection k \<and> MockClient \<noteq> sttClient c"
proof -
  from prodEnv_schema obtain e where e: "rawSchema (\<lambda>_. True) (\<lambda>_. NaN) prodEnv = ([], Some e)"
    "superRefine e = []" "NODE_ENV e = lit ''production''" by blast
  then have c: "loadConfig (\<lambda>_. True) (\<lambda>_. NaN) (\<lambda>_. []) prodEnv = Inr (toAppConfig e)" "isProduction (toAppConfig e)"
    by (auto simp: loadConfig_Inr toAppConfig_def)
  let ?connect = "createBullConnection (\<lambda>_. Some sampleUrl) length (6379 :: nat)"
  obtain co where "?connect (redisUrl (toAppConfig e)) = Some co"
    by (simp add: createBullConnection_def sampleUrl_def credential_def)
  with c ends_meet [OF c(1) refl, of "\<lambda>_. Some sampleUrl" length 6379] show ?thesis
    by (intro exI [of _ "toAppConfig e"]) (auto simp: producerQueue_def processingWorker_def)
qed

end
