(* ===== verification/Wiring.thy ===== *)
theory Wiring
  imports Main
begin

text \<open>
  The module graph of both services: the \<^verbatim>\<open>@Module\<close> declarations under \<^verbatim>\<open>server/src\<close>, what every class takes in
  its constructor, and the lifecycle hooks. The rules of the container are Nest's documented ones: a module sees its
  own providers, what the modules it imports export, and what the \<^verbatim>\<open>@Global\<close> modules of the application
  export. What the library modules export is a parameter.
\<close>

section \<open>Tokens, providers, modules\<close>

datatype injectable =
    appConfig_KEY | PrismaService | MediaService | PROCESSING_QUEUE_TOKEN | ProcessingQueueService
  | QueueModuleClass
  | UsersService | APPLE_TOKEN_VERIFIER | TokenService | AuthService | AuthController | JwtAuthGuard
  | AllExceptionsFilter | PrismaHealthIndicator | RedisHealthIndicator | HealthController
  | JobsRepository | JobsService | JobsController
  | TRANSCRIPTION_PROVIDER | TranscriptionService | REPORT_COMPILER_PROVIDER | ReportCompilerService
  | PdfRendererService | PipelineService | ProcessingProcessor

text \<open>
  A class or symbol of the repository, one of a library, or a class bound to one of Nest's \<^verbatim>\<open>APP_\<close> tokens (each such
  binding is kept apart from the others).
\<close>

datatype token = Own injectable | Lib string | Bound string token

record provider =
  p_token :: token
  p_deps :: "token list"

datatype library = NestConfigModule | PinoLoggerModule | ThrottlerModule | TerminusModule

datatype nest_module =
    AppModule | WorkerModule | ConfigModule | LoggerModule | PrismaModule | MediaModule | QueueModule | HealthModule
  | UsersModule | AuthModule | JobsModule | TranscriptionModule | CompilerModule | PdfModule | PipelineModule
  | Library library

record module_decl =
  m_global :: bool
  m_imports :: "nest_module list"
  m_controllers :: "provider list"
  m_providers :: "provider list"
  m_exports :: "token list"

type_synonym program = "nest_module \<Rightarrow> module_decl"

text \<open>What the libraries offer: tokens exported by their modules, tokens that are there without any module.\<close>

record framework =
  fw_exports :: "library \<Rightarrow> string list"
  fw_core :: "string list"

section \<open>Constructors\<close>

definition prismaService :: provider where
  "prismaService = \<lparr>p_token = Own PrismaService, p_deps = [Own appConfig_KEY]\<rparr>"

definition mediaService :: provider where
  "mediaService = \<lparr>p_token = Own MediaService, p_deps = [Own appConfig_KEY]\<rparr>"

definition processingQueueService :: provider where
  "processingQueueService = \<lparr>p_token = Own ProcessingQueueService,
     p_deps = [Own PROCESSING_QUEUE_TOKEN, Own appConfig_KEY]\<rparr>"

text \<open>\<^verbatim>\<open>QueueModule\<close> has a constructor of its own.\<close>

definition queueModuleClass :: provider where
  "queueModuleClass = \<lparr>p_token = Own QueueModuleClass, p_deps = [Own PROCESSING_QUEUE_TOKEN]\<rparr>"

definition usersService :: provider where
  "usersService = \<lparr>p_token = Own UsersService, p_deps = [Own PrismaService]\<rparr>"

definition tokenService :: provider where
  "tokenService = \<lparr>p_token = Own TokenService, p_deps = [Own appConfig_KEY]\<rparr>"

definition authService :: provider where
  "authService = \<lparr>p_token = Own AuthService,
     p_deps = [Own PrismaService, Own UsersService, Own TokenService, Own APPLE_TOKEN_VERIFIER]\<rparr>"

definition authControllerClass :: provider where
  "authControllerClass = \<lparr>p_token = Own AuthController, p_deps = [Own AuthService]\<rparr>"

definition jwtAuthGuard :: provider where
  "jwtAuthGuard = \<lparr>p_token = Own JwtAuthGuard, p_deps = [Lib ''Reflector'', Own appConfig_KEY]\<rparr>"

definition prismaHealthIndicator :: provider where
  "prismaHealthIndicator = \<lparr>p_token = Own PrismaHealthIndicator,
     p_deps = [Lib ''HealthIndicatorService'', Own PrismaService]\<rparr>"

definition redisHealthIndicator :: provider where
  "redisHealthIndicator = \<lparr>p_token = Own RedisHealthIndicator,
     p_deps = [Lib ''HealthIndicatorService'', Own appConfig_KEY]\<rparr>"

definition healthController :: provider where
  "healthController = \<lparr>p_token = Own HealthController,
     p_deps = [Lib ''HealthCheckService'', Own PrismaHealthIndicator, Own RedisHealthIndicator]\<rparr>"

definition jobsRepository :: provider where
  "jobsRepository = \<lparr>p_token = Own JobsRepository, p_deps = [Own PrismaService]\<rparr>"

definition jobsService :: provider where
  "jobsService = \<lparr>p_token = Own JobsService,
     p_deps = [Own JobsRepository, Own MediaService, Own ProcessingQueueService]\<rparr>"

definition jobsControllerClass :: provider where
  "jobsControllerClass = \<lparr>p_token = Own JobsController, p_deps = [Own JobsService]\<rparr>"

definition transcriptionService :: provider where
  "transcriptionService = \<lparr>p_token = Own TranscriptionService, p_deps = [Own TRANSCRIPTION_PROVIDER]\<rparr>"

definition reportCompilerService :: provider where
  "reportCompilerService = \<lparr>p_token = Own ReportCompilerService, p_deps = [Own REPORT_COMPILER_PROVIDER]\<rparr>"

definition pdfRendererService :: provider where
  "pdfRendererService = \<lparr>p_token = Own PdfRendererService, p_deps = []\<rparr>"

definition pipelineService :: provider where
  "pipelineService = \<lparr>p_token = Own PipelineService,
     p_deps = [Own JobsRepository, Own MediaService, Own TranscriptionService, Own ReportCompilerService,
       Own PdfRendererService, Own appConfig_KEY]\<rparr>"

definition processingProcessor :: provider where
  "processingProcessor = \<lparr>p_token = Own ProcessingProcessor, p_deps = [Own PipelineService, Own appConfig_KEY]\<rparr>"

lemmas constructors = prismaService_def mediaService_def processingQueueService_def queueModuleClass_def usersService_def tokenService_def
  authService_def authControllerClass_def jwtAuthGuard_def prismaHealthIndicator_def redisHealthIndicator_def
  healthController_def jobsRepository_def jobsService_def jobsControllerClass_def transcriptionService_def
  reportCompilerService_def pdfRendererService_def pipelineService_def processingProcessor_def

section \<open>Modules\<close>

definition app_module :: module_decl where
  "app_module = \<lparr>m_global = False,
     m_imports = [ConfigModule, LoggerModule, PrismaModule, MediaModule, QueueModule, Library ThrottlerModule,
       HealthModule, UsersModule, AuthModule, JobsModule],
     m_controllers = [],
     m_providers = [
       \<lparr>p_token = Bound ''APP_GUARD'' (Lib ''ThrottlerGuard''),
        p_deps = [Lib ''THROTTLER:MODULE_OPTIONS'', Lib ''ThrottlerStorage'', Lib ''Reflector'']\<rparr>,
       \<lparr>p_token = Bound ''APP_GUARD'' (Own JwtAuthGuard), p_deps = p_deps jwtAuthGuard\<rparr>,
       \<lparr>p_token = Bound ''APP_FILTER'' (Own AllExceptionsFilter), p_deps = []\<rparr>],
     m_exports = []\<rparr>"

definition worker_module :: module_decl where
  "worker_module = \<lparr>m_global = False,
     m_imports = [ConfigModule, LoggerModule, PrismaModule, MediaModule, PipelineModule],
     m_controllers = [], m_providers = [processingProcessor], m_exports = []\<rparr>"

definition config_module :: module_decl where
  "config_module = \<lparr>m_global = True, m_imports = [Library NestConfigModule],
     m_controllers = [], m_providers = [], m_exports = []\<rparr>"

definition logger_module :: module_decl where
  "logger_module = \<lparr>m_global = False, m_imports = [Library PinoLoggerModule],
     m_controllers = [], m_providers = [], m_exports = []\<rparr>"

definition prisma_module :: module_decl where
  "prisma_module = \<lparr>m_global = True, m_imports = [],
     m_controllers = [], m_providers = [prismaService], m_exports = [Own PrismaService]\<rparr>"

definition media_module :: module_decl where
  "media_module = \<lparr>m_global = True, m_imports = [],
     m_controllers = [], m_providers = [mediaService], m_exports = [Own MediaService]\<rparr>"

definition queue_module :: module_decl where
  "queue_module = \<lparr>m_global = True, m_imports = [], m_controllers = [],
     m_providers = [\<lparr>p_token = Own PROCESSING_QUEUE_TOKEN, p_deps = [Own appConfig_KEY]\<rparr>, processingQueueService,
       queueModuleClass],
     m_exports = [Own ProcessingQueueService, Own PROCESSING_QUEUE_TOKEN]\<rparr>"

definition health_module :: module_decl where
  "health_module = \<lparr>m_global = False, m_imports = [Library TerminusModule], m_controllers = [healthController],
     m_providers = [prismaHealthIndicator, redisHealthIndicator], m_exports = []\<rparr>"

definition users_module :: module_decl where
  "users_module = \<lparr>m_global = False, m_imports = [],
     m_controllers = [], m_providers = [usersService], m_exports = [Own UsersService]\<rparr>"

definition auth_module :: module_decl where
  "auth_module = \<lparr>m_global = False, m_imports = [UsersModule], m_controllers = [authControllerClass],
     m_providers = [authService, tokenService, \<lparr>p_token = Own APPLE_TOKEN_VERIFIER, p_deps = [Own appConfig_KEY]\<rparr>],
     m_exports = [Own TokenService]\<rparr>"

definition jobs_module :: module_decl where
  "jobs_module = \<lparr>m_global = False, m_imports = [], m_controllers = [jobsControllerClass],
     m_providers = [jobsService, jobsRepository], m_exports = [Own JobsRepository]\<rparr>"

definition transcription_module :: module_decl where
  "transcription_module = \<lparr>m_global = False, m_imports = [], m_controllers = [],
     m_providers = [\<lparr>p_token = Own TRANSCRIPTION_PROVIDER, p_deps = [Own appConfig_KEY]\<rparr>, transcriptionService],
     m_exports = [Own TranscriptionService]\<rparr>"

definition compiler_module :: module_decl where
  "compiler_module = \<lparr>m_global = False, m_imports = [], m_controllers = [],
     m_providers = [\<lparr>p_token = Own REPORT_COMPILER_PROVIDER, p_deps = [Own appConfig_KEY]\<rparr>, reportCompilerService],
     m_exports = [Own ReportCompilerService]\<rparr>"

definition pdf_module :: module_decl where
  "pdf_module = \<lparr>m_global = False, m_imports = [],
     m_controllers = [], m_providers = [pdfRendererService], m_exports = [Own PdfRendererService]\<rparr>"

definition pipeline_module :: module_decl where
  "pipeline_module = \<lparr>m_global = False, m_imports = [TranscriptionModule, CompilerModule, PdfModule],
     m_controllers = [], m_providers = [pipelineService, jobsRepository], m_exports = [Own PipelineService]\<rparr>"

text \<open>
  A library module with its tokens. \<^verbatim>\<open>ConfigModule.forRoot\<close> with \<^verbatim>\<open>isGlobal\<close> and \<^verbatim>\<open>load: [appConfig]\<close> also provides and
  exports the loaded configuration; pino's \<^verbatim>\<open>forRootAsync\<close> imports our \<open>ConfigModule\<close> and injects the configuration.
\<close>

definition nest_config :: "framework \<Rightarrow> module_decl" where
  "nest_config fw = \<lparr>m_global = True, m_imports = [], m_controllers = [],
     m_providers = \<lparr>p_token = Own appConfig_KEY, p_deps = []\<rparr>
       # map (\<lambda>t. \<lparr>p_token = Lib t, p_deps = []\<rparr>) (fw_exports fw NestConfigModule),
     m_exports = Own appConfig_KEY # map Lib (fw_exports fw NestConfigModule)\<rparr>"

definition pino_logger :: "framework \<Rightarrow> module_decl" where
  "pino_logger fw = \<lparr>m_global = False, m_imports = [ConfigModule], m_controllers = [],
     m_providers = map (\<lambda>t. \<lparr>p_token = Lib t, p_deps = [Own appConfig_KEY]\<rparr>) (fw_exports fw PinoLoggerModule),
     m_exports = map Lib (fw_exports fw PinoLoggerModule)\<rparr>"

definition library_module :: "framework \<Rightarrow> library \<Rightarrow> module_decl" where
  "library_module fw l = \<lparr>m_global = False, m_imports = [], m_controllers = [],
     m_providers = map (\<lambda>t. \<lparr>p_token = Lib t, p_deps = []\<rparr>) (fw_exports fw l),
     m_exports = map Lib (fw_exports fw l)\<rparr>"

fun modules :: "framework \<Rightarrow> program" where
  "modules fw AppModule = app_module"
| "modules fw WorkerModule = worker_module"
| "modules fw ConfigModule = config_module"
| "modules fw LoggerModule = logger_module"
| "modules fw PrismaModule = prisma_module"
| "modules fw MediaModule = media_module"
| "modules fw QueueModule = queue_module"
| "modules fw HealthModule = health_module"
| "modules fw UsersModule = users_module"
| "modules fw AuthModule = auth_module"
| "modules fw JobsModule = jobs_module"
| "modules fw TranscriptionModule = transcription_module"
| "modules fw CompilerModule = compiler_module"
| "modules fw PdfModule = pdf_module"
| "modules fw PipelineModule = pipeline_module"
| "modules fw (Library NestConfigModule) = nest_config fw"
| "modules fw (Library PinoLoggerModule) = pino_logger fw"
| "modules fw (Library ThrottlerModule) = library_module fw ThrottlerModule"
| "modules fw (Library TerminusModule) = library_module fw TerminusModule"

lemmas module_defs = app_module_def worker_module_def config_module_def logger_module_def prisma_module_def
  media_module_def queue_module_def health_module_def users_module_def auth_module_def jobs_module_def
  transcription_module_def compiler_module_def pdf_module_def pipeline_module_def nest_config_def pino_logger_def
  library_module_def

text \<open>What \<^verbatim>\<open>main.ts\<close> and \<^verbatim>\<open>worker.ts\<close> ask the finished application for.\<close>

definition apiGets :: "token list" where
  "apiGets = [Lib ''Logger'', Own appConfig_KEY, Own PROCESSING_QUEUE_TOKEN, Own MediaService]"

definition workerGets :: "token list" where
  "workerGets = [Lib ''Logger'', Own appConfig_KEY, Own MediaService]"

section \<open>Nest's rules\<close>

definition importing :: "program \<Rightarrow> (nest_module \<times> nest_module) set" where
  "importing P = {(m, n). n \<in> set (m_imports (P m))}"

definition loaded :: "program \<Rightarrow> nest_module \<Rightarrow> nest_module set" where
  "loaded P root = (importing P)\<^sup>* `` {root}"

definition providers :: "program \<Rightarrow> nest_module \<Rightarrow> provider list" where
  "providers P m = m_controllers (P m) @ m_providers (P m)"

text \<open>A module sees its providers, its imports' exports, the exports of global modules, and the core.\<close>

definition inScope :: "string list \<Rightarrow> program \<Rightarrow> nest_module \<Rightarrow> nest_module \<Rightarrow> token set" where
  "inScope core P root m = p_token ` set (m_providers (P m)) \<union> Lib ` set core
     \<union> (\<Union>n \<in> set (m_imports (P m)) \<union> {n \<in> loaded P root. m_global (P n)}. set (m_exports (P n)))"

text \<open>Every dependency is visible where it is needed, and a module exports what it provides.\<close>

definition resolves :: "string list \<Rightarrow> program \<Rightarrow> nest_module \<Rightarrow> bool" where
  "resolves core P root \<longleftrightarrow> (\<forall>m \<in> loaded P root.
     (\<forall>p \<in> set (providers P m). set (p_deps p) \<subseteq> inScope core P root m)
     \<and> set (m_exports (P m)) \<subseteq> p_token ` set (m_providers (P m)))"

text \<open>
  The container can be built: there is an order of all providers in which each comes after the ones it takes in its
  constructor.
\<close>

definition buildable :: "string list \<Rightarrow> program \<Rightarrow> nest_module \<Rightarrow> bool" where
  "buildable core P root \<longleftrightarrow> (\<exists>ps. set ps = (\<Union>m \<in> loaded P root. set (providers P m))
     \<and> (\<forall>i < length ps. \<forall>d \<in> set (p_deps (ps ! i)). d \<in> Lib ` set core \<or> (\<exists>k < i. p_token (ps ! k) = d)))"

section \<open>Which modules are loaded\<close>

fun scan :: "program \<Rightarrow> nat \<Rightarrow> nest_module list \<Rightarrow> nest_module list" where
  "scan P 0 ms = ms"
| "scan P (Suc n) ms = scan P n (remdups (ms @ concat (map (\<lambda>m. m_imports (P m)) ms)))"

lemma importing_iff: "(m, n) \<in> importing P \<longleftrightarrow> n \<in> set (m_imports (P m))"
  by (simp add: importing_def)

lemma scan_reached: "set (scan P n ms) \<subseteq> (importing P)\<^sup>* `` set ms"
proof (induction n arbitrary: ms)
  case (Suc n)
  let ?ms = "remdups (ms @ concat (map (\<lambda>m. m_imports (P m)) ms))"
  have "(m, n) \<in> (importing P)\<^sup>*" if "n \<in> set (m_imports (P m))" for m n
    using that by (simp add: importing_iff r_into_rtrancl)
  then have "set ?ms \<subseteq> (importing P)\<^sup>* `` set ms" by auto
  then have "(importing P)\<^sup>* `` set ?ms \<subseteq> (importing P)\<^sup>* `` set ms" by (blast intro: rtrancl_trans)
  with Suc.IH [of ?ms] show ?case by (simp add: subset_trans)
qed auto

lemma scan_starts: "set ms \<subseteq> set (scan P n ms)"
proof (induction n arbitrary: ms)
  case (Suc n)
  from Suc.IH [of "remdups (ms @ concat (map (\<lambda>m. m_imports (P m)) ms))"] show ?case by auto
qed simp

lemma loaded_scan:
  assumes "\<forall>m \<in> set (scan P n [root]). set (m_imports (P m)) \<subseteq> set (scan P n [root])"
  shows "loaded P root = set (scan P n [root])"
proof
  show "set (scan P n [root]) \<subseteq> loaded P root" using scan_reached [of P n "[root]"] by (simp add: loaded_def)
  show "loaded P root \<subseteq> set (scan P n [root])"
  proof
    fix m assume "m \<in> loaded P root"
    then have "(root, m) \<in> (importing P)\<^sup>*" by (simp add: loaded_def)
    then show "m \<in> set (scan P n [root])"
      by (induction rule: rtrancl_induct) (use scan_starts [of "[root]" P n] assms in \<open>auto simp: importing_iff\<close>)
  qed
qed

lemma loaded_import: "m \<in> loaded P root \<Longrightarrow> n \<in> set (m_imports (P m)) \<Longrightarrow> n \<in> loaded P root"
  by (auto simp: loaded_def importing_iff intro: rtrancl_into_rtrancl)

lemma inScope_provided:
  assumes "resolves core P root" and "m \<in> loaded P root" and "d \<in> inScope core P root m"
  shows "d \<in> Lib ` set core \<or> (\<exists>n \<in> loaded P root. \<exists>q \<in> set (providers P n). p_token q = d)"
proof -
  have own: "\<exists>q \<in> set (providers P n). p_token q = d"
    if "d \<in> p_token ` set (m_providers (P n))" for n using that by (auto simp: providers_def)
  have exp: "d \<in> p_token ` set (m_providers (P n))" if "n \<in> loaded P root" "d \<in> set (m_exports (P n))" for n
    using assms(1) that unfolding resolves_def by blast
  from assms(3) consider "d \<in> Lib ` set core" | "d \<in> p_token ` set (m_providers (P m))"
    | n where "n \<in> loaded P root" "d \<in> set (m_exports (P n))"
    unfolding inScope_def using loaded_import [OF assms(2)] by blast
  then show ?thesis using own exp assms(2) by cases blast+
qed

text \<open>Where every dependency is visible and ranks below its user, the providers sorted by rank are an order to build in.\<close>

lemma resolves_buildable:
  assumes "resolves core P root" and "loaded P root = set ms"
    and "\<And>m p d. m \<in> loaded P root \<Longrightarrow> p \<in> set (providers P m) \<Longrightarrow> d \<in> set (p_deps p) \<Longrightarrow>
      d \<in> Lib ` set core \<or> buildRank d < (buildRank (p_token p) :: nat)"
  shows "buildable core P root"
proof -
  define ps where "ps = sort_key (\<lambda>p. buildRank (p_token p)) (concat (map (providers P) ms))"
  have set: "set ps = (\<Union>m \<in> loaded P root. set (providers P m))" by (simp add: ps_def assms(2))
  have sorted: "sorted (map (\<lambda>p. buildRank (p_token p)) ps)" by (simp add: ps_def)
  have dep: "d \<in> Lib ` set core \<or> (\<exists>k < i. p_token (ps ! k) = d)"
    if i: "i < length ps" and d: "d \<in> set (p_deps (ps ! i))" for i d
  proof (cases "d \<in> Lib ` set core")
    case False
    from i set obtain m where m: "m \<in> loaded P root" "ps ! i \<in> set (providers P m)" by (metis UN_E nth_mem)
    with assms(1) d have "d \<in> inScope core P root m" by (auto simp: resolves_def)
    from inScope_provided [OF assms(1) m(1) this] False obtain n q where
      "n \<in> loaded P root" "q \<in> set (providers P n)" "p_token q = d" by blast
    with set obtain k where k: "k < length ps" "p_token (ps ! k) = d" by (metis UN_I in_set_conv_nth)
    have "buildRank d < buildRank (p_token (ps ! i))" using assms(3) [OF m d] False by blast
    with k i sorted have "k < i" by (rule_tac ccontr) (use sorted_nth_mono [OF sorted, of i k] in simp)
    with k show ?thesis by blast
  qed simp
  show ?thesis
    unfolding buildable_def by (intro exI [of _ ps] conjI allI impI ballI) (simp_all only: set dep)
qed

section \<open>Both services can be built\<close>

text \<open>Documented exports of the libraries that the repository relies on.\<close>

definition documented :: "framework \<Rightarrow> bool" where
  "documented fw \<longleftrightarrow> ''Reflector'' \<in> set (fw_core fw) \<and> ''Logger'' \<in> set (fw_exports fw PinoLoggerModule)
     \<and> {''HealthCheckService'', ''HealthIndicatorService''} \<subseteq> set (fw_exports fw TerminusModule)
     \<and> {''THROTTLER:MODULE_OPTIONS'', ''ThrottlerStorage''} \<subseteq> set (fw_exports fw ThrottlerModule)"

lemma loaded_api: "loaded (modules fw) AppModule = set [AppModule, ConfigModule, LoggerModule, PrismaModule, MediaModule,
    QueueModule, Library ThrottlerModule, HealthModule, UsersModule, AuthModule, JobsModule, Library NestConfigModule,
    Library PinoLoggerModule, Library TerminusModule]"
  by (subst loaded_scan [where n = 3]) (simp_all add: module_defs eval_nat_numeral, auto)

lemma loaded_worker: "loaded (modules fw) WorkerModule = set [WorkerModule, ConfigModule, LoggerModule, PrismaModule,
    MediaModule, PipelineModule, Library NestConfigModule, Library PinoLoggerModule, TranscriptionModule,
    CompilerModule, PdfModule]"
  by (subst loaded_scan [where n = 3]) (simp_all add: module_defs eval_nat_numeral, auto)

lemma token_images [simp]: "Lib t \<in> Lib ` T \<longleftrightarrow> t \<in> T" "Own i \<notin> Lib ` T" "Bound k u \<notin> Lib ` T"
  by auto

lemmas resolution = module_defs constructors providers_def image_image

text \<open>The global modules of each application.\<close>

lemma globals_api: "{n \<in> loaded (modules fw) AppModule. m_global (modules fw n)}
    = set (filter (\<lambda>n. m_global (modules fw n)) [ConfigModule, PrismaModule, MediaModule, QueueModule, Library NestConfigModule])"
  unfolding loaded_api set_filter [symmetric] by (simp add: module_defs insert_commute)

lemma globals_worker: "{n \<in> loaded (modules fw) WorkerModule. m_global (modules fw n)}
    = set (filter (\<lambda>n. m_global (modules fw n)) [ConfigModule, PrismaModule, MediaModule, Library NestConfigModule])"
  unfolding loaded_worker set_filter [symmetric] by (simp add: module_defs insert_commute)

lemma documentedD: "documented fw \<Longrightarrow> ''Reflector'' \<in> set (fw_core fw)"
    "documented fw \<Longrightarrow> ''HealthCheckService'' \<in> set (fw_exports fw TerminusModule)"
    "documented fw \<Longrightarrow> ''HealthIndicatorService'' \<in> set (fw_exports fw TerminusModule)"
    "documented fw \<Longrightarrow> ''THROTTLER:MODULE_OPTIONS'' \<in> set (fw_exports fw ThrottlerModule)"
    "documented fw \<Longrightarrow> ''ThrottlerStorage'' \<in> set (fw_exports fw ThrottlerModule)"
    "documented fw \<Longrightarrow> ''Logger'' \<in> set (fw_exports fw PinoLoggerModule)"
  by (simp_all add: documented_def)

lemma resolves_api: "documented fw \<Longrightarrow> resolves (fw_core fw) (modules fw) AppModule"
  unfolding resolves_def inScope_def globals_api unfolding loaded_api
  by (simp add: resolution documentedD)

lemma resolves_worker: "documented fw \<Longrightarrow> resolves (fw_core fw) (modules fw) WorkerModule"
  unfolding resolves_def inScope_def globals_worker unfolding loaded_worker
  by (simp add: resolution documentedD)

text \<open>Users rank above what they take.\<close>

fun buildRankOf :: "injectable \<Rightarrow> nat" where
  "buildRankOf appConfig_KEY = 0"
| "buildRankOf PrismaService = 1"
| "buildRankOf MediaService = 1"
| "buildRankOf PROCESSING_QUEUE_TOKEN = 1"
| "buildRankOf APPLE_TOKEN_VERIFIER = 1"
| "buildRankOf TokenService = 1"
| "buildRankOf TRANSCRIPTION_PROVIDER = 1"
| "buildRankOf REPORT_COMPILER_PROVIDER = 1"
| "buildRankOf PdfRendererService = 1"
| "buildRankOf AuthService = 3"
| "buildRankOf JobsService = 3"
| "buildRankOf PipelineService = 3"
| "buildRankOf HealthController = 3"
| "buildRankOf AuthController = 4"
| "buildRankOf JobsController = 4"
| "buildRankOf ProcessingProcessor = 4"
| "buildRankOf _ = 2"

fun buildRank :: "token \<Rightarrow> nat" where
  "buildRank (Own i) = buildRankOf i"
| "buildRank (Lib t) = 1"
| "buildRank (Bound k t) = 5"

lemma ranked:
  assumes "documented fw" and "p \<in> set (providers (modules fw) m)" and "d \<in> set (p_deps p)"
  shows "d \<in> Lib ` set (fw_core fw) \<or> buildRank d < buildRank (p_token p)"
proof (cases m)
  case (Library l)
  with assms show ?thesis by (cases l) (auto simp: module_defs providers_def)
qed (use assms in \<open>auto simp: module_defs constructors providers_def documented_def\<close>)

text \<open>
  C22. Both services can be built, whatever else the libraries export: every class finds what its constructor takes
  among what its module sees, no module exports what it does not provide, and there is an order in which Nest can
  construct every provider and controller of the API and of the worker, each after what it takes (so nothing is missing
  and there is no cycle). What the entry points ask the application for is provided.
\<close>

theorem services_buildable:
  assumes "documented fw"
  shows "(\<forall>root \<in> {AppModule, WorkerModule}. resolves (fw_core fw) (modules fw) root \<and> buildable (fw_core fw) (modules fw) root)
    \<and> set apiGets \<subseteq> (\<Union>m \<in> loaded (modules fw) AppModule. p_token ` set (m_providers (modules fw m)))
    \<and> set workerGets \<subseteq> (\<Union>m \<in> loaded (modules fw) WorkerModule. p_token ` set (m_providers (modules fw m)))"
proof (intro conjI)
  have "buildable (fw_core fw) (modules fw) AppModule" "buildable (fw_core fw) (modules fw) WorkerModule"
    by (rule resolves_buildable [OF resolves_api [OF assms] loaded_api], rule ranked [OF assms])
      (assumption+, rule resolves_buildable [OF resolves_worker [OF assms] loaded_worker], rule ranked [OF assms])
  with resolves_api [OF assms] resolves_worker [OF assms]
  show "\<forall>root \<in> {AppModule, WorkerModule}. resolves (fw_core fw) (modules fw) root \<and> buildable (fw_core fw) (modules fw) root"
    by blast
  show "set apiGets \<subseteq> (\<Union>m \<in> loaded (modules fw) AppModule. p_token ` set (m_providers (modules fw m)))"
    unfolding loaded_api using assms by (auto simp: apiGets_def module_defs constructors documented_def image_image)
  show "set workerGets \<subseteq> (\<Union>m \<in> loaded (modules fw) WorkerModule. p_token ` set (m_providers (modules fw m)))"
    unfolding loaded_worker using assms by (auto simp: workerGets_def module_defs constructors documented_def image_image)
qed

definition sampleFramework :: framework where
  "sampleFramework = \<lparr>fw_exports = (\<lambda>l. case l of
       NestConfigModule \<Rightarrow> [''ConfigService''] | PinoLoggerModule \<Rightarrow> [''Logger'', ''PinoLogger'']
     | ThrottlerModule \<Rightarrow> [''THROTTLER:MODULE_OPTIONS'', ''ThrottlerStorage'']
     | TerminusModule \<Rightarrow> [''HealthCheckService'', ''HealthIndicatorService'']),
     fw_core = [''Reflector'', ''ModuleRef'', ''HttpAdapterHost'']\<rparr>"

theorem services_buildable_witness:
  "buildable [''Reflector'', ''ModuleRef'', ''HttpAdapterHost''] (modules sampleFramework) WorkerModule"
proof -
  have "documented sampleFramework" by (simp add: documented_def sampleFramework_def)
  from services_buildable [OF this] show ?thesis by (simp add: sampleFramework_def)
qed

section \<open>The worker is a pure consumer\<close>

text \<open>
  The worker has no controller and none of the API's services, guards and producers; and it must not get the
  repository through \<open>JobsModule\<close>: with that import nothing would provide the queue producer its service takes.
\<close>

theorem worker_is_consumer:
  "(\<forall>m \<in> loaded (modules fw) WorkerModule. m_controllers (modules fw m) = []
      \<and> p_token ` set (m_providers (modules fw m)) \<inter> Own ` {JobsService, ProcessingQueueService, PROCESSING_QUEUE_TOKEN,
          UsersService, AuthService, TokenService, APPLE_TOKEN_VERIFIER, JwtAuthGuard} = {})
    \<and> \<not> resolves (fw_core fw) ((modules fw)(WorkerModule := worker_module\<lparr>m_imports := JobsModule # m_imports worker_module\<rparr>))
        WorkerModule"
proof
  show "\<forall>m \<in> loaded (modules fw) WorkerModule. m_controllers (modules fw m) = []
      \<and> p_token ` set (m_providers (modules fw m)) \<inter> Own ` {JobsService, ProcessingQueueService, PROCESSING_QUEUE_TOKEN,
          UsersService, AuthService, TokenService, APPLE_TOKEN_VERIFIER, JwtAuthGuard} = {}"
    unfolding loaded_worker by (auto simp: module_defs constructors)
  let ?P = "(modules fw)(WorkerModule := worker_module\<lparr>m_imports := JobsModule # m_imports worker_module\<rparr>)"
  have l: "loaded ?P WorkerModule = set [WorkerModule, JobsModule, ConfigModule, LoggerModule, PrismaModule,
    MediaModule, PipelineModule, Library NestConfigModule, Library PinoLoggerModule, TranscriptionModule,
    CompilerModule, PdfModule]"
    by (subst loaded_scan [where n = 3]) (simp_all add: module_defs eval_nat_numeral, auto)
  have "jobsService \<in> set (providers ?P JobsModule)" "Own ProcessingQueueService \<in> set (p_deps jobsService)"
    by (simp_all add: providers_def jobs_module_def jobsService_def)
  moreover have "Own ProcessingQueueService \<notin> inScope (fw_core fw) ?P WorkerModule JobsModule"
    unfolding inScope_def l by (auto simp: module_defs constructors)
  ultimately show "\<not> resolves (fw_core fw) ?P WorkerModule" unfolding resolves_def l by auto
qed

end
