(* ===== verification/Lifecycle.thy ===== *)
theory Lifecycle
  imports Wiring "HOL-Library.Multiset" "HOL-Library.Sublist"
begin

text \<open>
  What happens when a service is started and stopped: the lifecycle hooks of the classes of \<open>Wiring\<close>. On a stop, Nest
  runs and awaits all \<^verbatim>\<open>onModuleDestroy\<close> hooks, then closes the HTTP server, then runs all \<^verbatim>\<open>onApplicationShutdown\<close>
  hooks. Within a phase nothing is assumed of the order of different providers.
\<close>

section \<open>Hooks\<close>

datatype action =
    ConnectPrisma | OpenDlq | StartWorker
  | DisconnectPrisma | CloseBrowser | CloseHttp | CloseWorker | CloseDlq | CloseQueue

text \<open>
  One definition per hook, and which class has which. \<open>opened\<close> says whether the renderer has a browser when the hook
  runs: \<open>Renderer\<close> has the hook's effect and the launches that race with it.
\<close>

definition prismaInit :: "action list" where [simp]: "prismaInit = [ConnectPrisma]"
definition prismaDestroy :: "action list" where [simp]: "prismaDestroy = [DisconnectPrisma]"
definition rendererDestroy :: "bool \<Rightarrow> action list" where
  [simp]: "rendererDestroy opened = (if opened then [CloseBrowser] else [])"
definition processorInit :: "action list" where [simp]: "processorInit = [OpenDlq, StartWorker]"
definition processorShutdown :: "action list" where [simp]: "processorShutdown = [CloseWorker, CloseDlq]"
definition queueShutdown :: "action list" where [simp]: "queueShutdown = [CloseQueue]"

fun initHook :: "token \<Rightarrow> action list" where
  "initHook (Own PrismaService) = prismaInit"
| "initHook (Own ProcessingProcessor) = processorInit"
| "initHook _ = []"

fun destroyHook :: "bool \<Rightarrow> token \<Rightarrow> action list" where
  "destroyHook opened (Own PrismaService) = prismaDestroy"
| "destroyHook opened (Own PdfRendererService) = rendererDestroy opened"
| "destroyHook opened _ = []"

fun shutdownHook :: "token \<Rightarrow> action list" where
  "shutdownHook (Own ProcessingProcessor) = processorShutdown"
| "shutdownHook (Own QueueModuleClass) = queueShutdown"
| "shutdownHook _ = []"

section \<open>Phases\<close>

text \<open>
  A phase of a service: everything the hooks do, each hook's actions in their order, different hooks in any order.
\<close>

definition hooksOf :: "(token \<Rightarrow> action list) \<Rightarrow> program \<Rightarrow> nest_module \<Rightarrow> action list list" where
  "hooksOf h P m = map (\<lambda>p. h (p_token p)) (providers P m)"

definition hookPhase :: "(token \<Rightarrow> action list) \<Rightarrow> program \<Rightarrow> nest_module \<Rightarrow> action list set" where
  "hookPhase h P root = {tr. mset tr = (\<Sum>m \<in> loaded P root. \<Sum>as \<leftarrow> hooksOf h P m. mset as)
     \<and> (\<forall>m \<in> loaded P root. \<forall>as \<in> set (hooksOf h P m). subseq as tr)}"

definition shutdowns :: "bool \<Rightarrow> program \<Rightarrow> nest_module \<Rightarrow> action list \<Rightarrow> action list set" where
  "shutdowns opened P root server = {a @ server @ b | a b.
     a \<in> hookPhase (destroyHook opened) P root \<and> b \<in> hookPhase shutdownHook P root}"

abbreviation apiShutdowns :: "framework \<Rightarrow> action list set" where
  "apiShutdowns fw \<equiv> shutdowns False (modules fw) AppModule [CloseHttp]"

abbreviation workerShutdowns :: "bool \<Rightarrow> framework \<Rightarrow> action list set" where
  "workerShutdowns opened fw \<equiv> shutdowns opened (modules fw) WorkerModule []"

section \<open>How the services stop\<close>

lemma mset_pair: "mset xs = {#a, b#} \<longleftrightarrow> xs = [a, b] \<or> xs = [b, a]"
proof
  assume m: "mset xs = {#a, b#}"
  then have "length xs = 2" by (metis size_mset size_add_mset size_empty numeral_2_eq_2)
  then obtain x y where "xs = [x, y]" by (auto simp: numeral_2_eq_2 length_Suc_conv)
  with m show "xs = [a, b] \<or> xs = [b, a]" by (auto simp: add_mset_eq_single add_eq_conv_ex)
qed auto

lemma phase_worker_destroy: "hookPhase (destroyHook opened) (modules fw) WorkerModule
    = (if opened then {[DisconnectPrisma, CloseBrowser], [CloseBrowser, DisconnectPrisma]} else {[DisconnectPrisma]})"
  unfolding hookPhase_def loaded_worker
  by (auto simp: hooksOf_def module_defs constructors providers_def comp_def mset_pair)

lemma phase_worker_shutdown: "hookPhase shutdownHook (modules fw) WorkerModule = {[CloseWorker, CloseDlq]}"
  unfolding hookPhase_def loaded_worker
  by (auto simp: hooksOf_def module_defs constructors providers_def comp_def mset_pair)

lemma phase_api_destroy: "hookPhase (destroyHook opened) (modules fw) AppModule = {[DisconnectPrisma]}"
  unfolding hookPhase_def loaded_api
  by (auto simp: hooksOf_def module_defs constructors providers_def comp_def)

lemma phase_api_shutdown: "hookPhase shutdownHook (modules fw) AppModule = {[CloseQueue]}"
  unfolding hookPhase_def loaded_api
  by (auto simp: hooksOf_def module_defs constructors providers_def comp_def)

text \<open>
  Stopping the worker closes the browser, when there is one, and disconnects from Postgres before it stops taking
  jobs and waits for the running ones; stopping the API disconnects from Postgres before its HTTP server stops
  answering. What the browser's hook misses by coming first is shown in \<open>Renderer\<close>.
\<close>

theorem shutdown_order:
  "workerShutdowns True fw = {[DisconnectPrisma, CloseBrowser, CloseWorker, CloseDlq],
                              [CloseBrowser, DisconnectPrisma, CloseWorker, CloseDlq]}
   \<and> workerShutdowns False fw = {[DisconnectPrisma, CloseWorker, CloseDlq]}
   \<and> apiShutdowns fw = {[DisconnectPrisma, CloseHttp, CloseQueue]}"
  unfolding shutdowns_def phase_worker_destroy phase_worker_shutdown phase_api_destroy phase_api_shutdown by auto

text \<open>Starting: the API connects to Postgres; the worker opens the dead-letter queue before it takes jobs.\<close>

theorem init_hooks:
  "hookPhase initHook (modules fw) AppModule = {[ConnectPrisma]}
   \<and> (\<forall>tr \<in> hookPhase initHook (modules fw) WorkerModule.
        set tr = {ConnectPrisma, OpenDlq, StartWorker} \<and> subseq [OpenDlq, StartWorker] tr)"
proof
  show "hookPhase initHook (modules fw) AppModule = {[ConnectPrisma]}"
    unfolding hookPhase_def loaded_api by (auto simp: hooksOf_def module_defs constructors providers_def comp_def)
  have "mset tr = {#ConnectPrisma, OpenDlq, StartWorker#} \<Longrightarrow> set tr = {ConnectPrisma, OpenDlq, StartWorker}" for tr
    by (drule arg_cong [where f = set_mset]) auto
  then show "\<forall>tr \<in> hookPhase initHook (modules fw) WorkerModule.
      set tr = {ConnectPrisma, OpenDlq, StartWorker} \<and> subseq [OpenDlq, StartWorker] tr"
    unfolding hookPhase_def loaded_worker
    by (auto simp: hooksOf_def module_defs constructors providers_def comp_def add_mset_commute)
qed

end
